(* ===== verification/Prelude.thy ===== *)
theory Prelude
imports Main "HOL-Library.Word"
begin

section \<open>Shared vocabulary, collections and generic lemmas\<close>

text \<open>
  The names and the small facts every component uses: the named collections the component
  proofs feed to the simplifier, the types for times and durations (whole nanoseconds, as
  \<open>time.Time\<close> and \<open>time.Duration\<close> count them), Go's two's complement wrap-around on
  64-bit integers, and generic lemmas on lists, options and sums.
\<close>

named_theorems go_defs \<open>definitions of small Go-level operations, unfolded on demand\<close>
named_theorems run_simps \<open>equations that execute a program step by step\<close>
named_theorems safe_rules \<open>rules that establish an invariant for every atomic action\<close>

type_synonym time = int
type_synonym dur = int

subsection \<open>Durations\<close>

definition nano_ms :: dur where "nano_ms = 1000000"
definition nano_s :: dur where "nano_s = 1000000000"
definition nano_min :: dur where "nano_min = 60000000000"
definition nano_hour :: dur where "nano_hour = 3600000000000"

lemmas nano_defs = nano_ms_def nano_s_def nano_min_def nano_hour_def

subsection \<open>Signed 64-bit arithmetic\<close>

text \<open>
  Go's \<open>int\<close>, \<open>int64\<close> and \<open>time.Duration\<close> are 64 bits wide and wrap around.
  \<open>wrap64\<close> is the value a mathematical result is stored as.
\<close>

definition wrap64 :: "int \<Rightarrow> int" where
  "wrap64 n = sint (word_of_int n :: 64 word)"

definition max_int64 :: int where "max_int64 = 9223372036854775807"
definition min_int64 :: int where "min_int64 = - 9223372036854775808"

lemmas int64_defs = max_int64_def min_int64_def

lemma wrap64_alt: "wrap64 n = (n + 9223372036854775808) mod 18446744073709551616 - 9223372036854775808"
  by (simp add: wrap64_def sint_sbintrunc' signed_take_bit_eq_take_bit_shift take_bit_eq_mod)

lemma wrap64_id: "min_int64 \<le> n \<Longrightarrow> n \<le> max_int64 \<Longrightarrow> wrap64 n = n"
  by (simp add: wrap64_alt int64_defs)

lemma wrap64_range: "min_int64 \<le> wrap64 n" "wrap64 n \<le> max_int64"
proof -
  have "0 \<le> (n + 9223372036854775808) mod 18446744073709551616"
    by simp
  moreover have "(n + 9223372036854775808) mod 18446744073709551616 < 18446744073709551616"
    by simp
  ultimately show "min_int64 \<le> wrap64 n" "wrap64 n \<le> max_int64"
    by (simp_all add: wrap64_alt int64_defs)
qed

subsection \<open>Lists, options, sums\<close>

fun is_prefix :: "'a list \<Rightarrow> 'a list \<Rightarrow> bool" where
  "is_prefix [] ys = True"
| "is_prefix (x # xs) [] = False"
| "is_prefix (x # xs) (y # ys) = (x = y \<and> is_prefix xs ys)"

lemma is_prefix_iff: "is_prefix xs ys \<longleftrightarrow> (\<exists>zs. ys = xs @ zs)"
  by (induction xs ys rule: is_prefix.induct) auto

lemma is_prefix_take: "is_prefix xs ys \<Longrightarrow> xs @ drop (length xs) ys = ys"
  by (auto simp: is_prefix_iff)

lemma is_prefix_append [simp]: "is_prefix xs (xs @ ys)"
  by (auto simp: is_prefix_iff)

fun contains :: "'a list \<Rightarrow> 'a list \<Rightarrow> bool" where
  "contains p [] = (p = [])"
| "contains p (x # xs) = (is_prefix p (x # xs) \<or> contains p xs)"

lemma contains_iff: "contains p s \<longleftrightarrow> (\<exists>a b. s = a @ p @ b)"
proof (induction s)
  case (Cons x xs)
  show ?case
  proof
    assume "contains p (x # xs)"
    then consider "is_prefix p (x # xs)" | "contains p xs" by auto
    then show "\<exists>a b. x # xs = a @ p @ b"
    proof cases
      case 1
      then show ?thesis by (metis append_Nil is_prefix_iff)
    next
      case 2
      then show ?thesis using Cons.IH by (metis append_Cons)
    qed
  next
    assume "\<exists>a b. x # xs = a @ p @ b"
    then obtain a b where ab: "x # xs = a @ p @ b" by blast
    show "contains p (x # xs)"
    proof (cases a)
      case Nil
      with ab have "is_prefix p (x # xs)" by (simp add: is_prefix_iff)
      then show ?thesis by simp
    next
      case (Cons y ys)
      with ab Cons.IH show ?thesis by auto
    qed
  qed
qed auto

lemma find_Some_iff_unique:
  assumes "distinct (map f xs)" "x \<in> set xs"
  shows "find (\<lambda>y. f y = f x) xs = Some x"
  using assms by (induction xs) (auto simp: image_iff)

lemma find_eq_self: "x \<in> set xs \<Longrightarrow> find (\<lambda>y. y = x) xs = Some x"
  by (induction xs) auto

lemma find_None_iff_all: "find Pr xs = None \<longleftrightarrow> (\<forall>x \<in> set xs. \<not> Pr x)"
  by (induction xs) auto

lemma find_Some_D: "find Pr xs = Some x \<Longrightarrow> x \<in> set xs \<and> Pr x"
  by (induction xs) (auto split: if_splits)

lemma in_map_filter: "y \<in> set (List.map_filter f xs) \<longleftrightarrow> (\<exists>x \<in> set xs. f x = Some y)"
  by (induction xs) (auto simp: map_filter_simps split: option.splits)

lemma map_filter_append: "List.map_filter f (xs @ ys) = List.map_filter f xs @ List.map_filter f ys"
  by (simp add: map_filter_def)

lemma map_filter_distinct_unique:
  assumes "distinct (List.map_filter f xs)" "x \<in> set xs" "y \<in> set xs" "f x = Some c" "f y = Some c"
  shows "x = y"
  using assms
proof (induction xs)
  case (Cons z zs)
  have "c \<notin> set (List.map_filter f zs)" if "f z = Some c"
    using Cons.prems(1) that by (simp add: map_filter_simps)
  then have "x' \<notin> set zs" if "f z = Some c" "f x' = Some c" for x'
    using that in_map_filter by metis
  with Cons show ?case by (auto simp: map_filter_simps split: option.splits)
qed simp

lemma distinct_map_filter_filter:
  "distinct (List.map_filter f xs) \<Longrightarrow> distinct (List.map_filter f (filter Pr xs))"
  by (induction xs) (auto simp: map_filter_simps in_map_filter split: option.splits)

lemma list_ex_False_iff: "\<not> list_ex Pr xs \<longleftrightarrow> (\<forall>x \<in> set xs. \<not> Pr x)"
  by (simp add: list_ex_iff)

end
