(* ===== verification/Go_Lib.thy ===== *)
theory Go_Lib
imports Prelude "HOL-Library.Char_ord"
begin

section \<open>The parts of Go's standard library the service uses\<close>

text \<open>
  Strings are byte strings, as in Go: a HOL character is one byte. Modelled here:
  error values with wrapping and \<open>errors.Is\<close>, \<open>strings.TrimSpace\<close>,
  \<open>strings.ToLower\<close> on ASCII, \<open>strings.EqualFold\<close>, \<open>strings.Cut\<close>,
  \<open>strconv.Itoa\<close>, \<open>strconv.ParseInt\<close> to base 10 and 64 bits, and \<open>strconv.Quote\<close>
  on printable ASCII.
\<close>

subsection \<open>Errors\<close>

text \<open>
  A sentinel is one \<open>errors.New\<close> value of the repository, compared by identity:
  \<open>RepoErrNotFound\<close> and \<open>ErrNotFound\<close> carry the same text and are different errors.
  \<open>WrapPre\<close> is \<open>fmt.Errorf("...: %w", err)\<close> and \<open>WrapSuf\<close> is
  \<open>fmt.Errorf("%w: ...", err)\<close>; \<open>PgError\<close> carries a PostgreSQL error code;
  \<open>Plain\<close> is any other error; \<open>Panicked\<close> is a run-time panic, which the
  recovery middleware turns into a response.
\<close>

datatype sentinel =
    RepoErrNotFound | RepoErrConflict
  | ErrNotFound | ErrExpired | ErrInvalidURL | ErrURLTooLong | ErrSelfReference
  | ErrInvalidCode | ErrInvalidExpiry | ErrCodeTaken | ErrInFlight | ErrIdemKeyTooLong
  | RedisNil | PgxErrNoRows

datatype goerr =
    Sentinel sentinel
  | PgError string
  | Plain string
  | WrapPre string goerr
  | WrapSuf goerr string
  | Panicked string

fun errors_Is :: "goerr \<Rightarrow> sentinel \<Rightarrow> bool" where
  "errors_Is (Sentinel s) t = (s = t)"
| "errors_Is (WrapPre m e) t = errors_Is e t"
| "errors_Is (WrapSuf e m) t = errors_Is e t"
| "errors_Is (PgError c) t = False"
| "errors_Is (Plain m) t = False"
| "errors_Is (Panicked m) t = False"

fun pg_code :: "goerr \<Rightarrow> string option" where
  "pg_code (PgError c) = Some c"
| "pg_code (WrapPre m e) = pg_code e"
| "pg_code (WrapSuf e m) = pg_code e"
| "pg_code (Sentinel s) = None"
| "pg_code (Plain m) = None"
| "pg_code (Panicked m) = None"

fun sentinel_text :: "sentinel \<Rightarrow> string" where
  "sentinel_text RepoErrNotFound = ''url: not found''"
| "sentinel_text RepoErrConflict = ''url: conflict''"
| "sentinel_text ErrNotFound = ''url: not found''"
| "sentinel_text ErrExpired = ''url: expired''"
| "sentinel_text ErrInvalidURL = ''url: invalid''"
| "sentinel_text ErrURLTooLong = ''url: too long''"
| "sentinel_text ErrSelfReference = ''url: points at own domain''"
| "sentinel_text ErrInvalidCode = ''url: invalid custom code''"
| "sentinel_text ErrInvalidExpiry = ''url: invalid expiry''"
| "sentinel_text ErrCodeTaken = ''url: custom code already taken''"
| "sentinel_text ErrInFlight = ''url: idempotent create already in progress''"
| "sentinel_text ErrIdemKeyTooLong = ''url: Idempotency-Key too long''"
| "sentinel_text RedisNil = ''redis: nil''"
| "sentinel_text PgxErrNoRows = ''no rows in result set''"

fun err_text :: "goerr \<Rightarrow> string" where
  "err_text (Sentinel s) = sentinel_text s"
| "err_text (PgError c) = ''ERROR (SQLSTATE '' @ c @ '')''"
| "err_text (Plain m) = m"
| "err_text (WrapPre m e) = m @ '': '' @ err_text e"
| "err_text (WrapSuf e m) = err_text e @ '': '' @ m"
| "err_text (Panicked m) = m"

text \<open>\<open>%q\<close> on printable ASCII without quotes or backslashes, which is what reaches it.\<close>

definition go_quote :: "string \<Rightarrow> string" where
  "go_quote s = CHR 0x22 # s @ [CHR 0x22]"

subsection \<open>Bytes\<close>

definition byte :: "char \<Rightarrow> nat" where
  "byte c = of_char c"

definition is_ascii :: "string \<Rightarrow> bool" where
  "is_ascii s \<longleftrightarrow> list_all (\<lambda>c. byte c < 128) s"

definition is_digit :: "char \<Rightarrow> bool" where
  "is_digit c \<longleftrightarrow> 48 \<le> byte c \<and> byte c \<le> 57"

definition is_upper :: "char \<Rightarrow> bool" where
  "is_upper c \<longleftrightarrow> 65 \<le> byte c \<and> byte c \<le> 90"

definition is_lower :: "char \<Rightarrow> bool" where
  "is_lower c \<longleftrightarrow> 97 \<le> byte c \<and> byte c \<le> 122"

definition lower_char :: "char \<Rightarrow> char" where
  "lower_char c = (if is_upper c then char_of (byte c + 32) else c)"

definition to_lower :: "string \<Rightarrow> string" where
  "to_lower s = map lower_char s"

lemmas byte_defs = byte_def is_ascii_def is_digit_def is_upper_def is_lower_def

text \<open>
  Well-formed UTF-8, byte by byte, and the number of code points of a well-formed string.
\<close>

definition cont :: "char \<Rightarrow> bool" where
  "cont c \<longleftrightarrow> 128 \<le> byte c \<and> byte c \<le> 191"

definition between :: "char \<Rightarrow> nat \<Rightarrow> nat \<Rightarrow> bool" where
  "between c lo hi \<longleftrightarrow> lo \<le> byte c \<and> byte c \<le> hi"

definition lead2 :: "char \<Rightarrow> char \<Rightarrow> bool" where
  "lead2 a b \<longleftrightarrow> between a 194 223 \<and> cont b"

definition lead3 :: "char \<Rightarrow> char \<Rightarrow> bool" where
  "lead3 a b \<longleftrightarrow> byte a = 224 \<and> between b 160 191 \<or> byte a = 237 \<and> between b 128 159
     \<or> (between a 225 236 \<or> between a 238 239) \<and> cont b"

definition lead4 :: "char \<Rightarrow> char \<Rightarrow> bool" where
  "lead4 a b \<longleftrightarrow> byte a = 240 \<and> between b 144 191 \<or> byte a = 244 \<and> between b 128 143
     \<or> between a 241 243 \<and> cont b"

fun valid_utf8 :: "string \<Rightarrow> bool" where
  "valid_utf8 [] = True"
| "valid_utf8 [a] = (byte a < 128)"
| "valid_utf8 [a, b] = (byte a < 128 \<and> valid_utf8 [b] \<or> lead2 a b)"
| "valid_utf8 [a, b, c] =
     (byte a < 128 \<and> valid_utf8 [b, c] \<or> lead2 a b \<and> valid_utf8 [c] \<or> lead3 a b \<and> cont c)"
| "valid_utf8 (a # b # c # d # s) =
     (byte a < 128 \<and> valid_utf8 (b # c # d # s) \<or> lead2 a b \<and> valid_utf8 (c # d # s)
      \<or> lead3 a b \<and> cont c \<and> valid_utf8 (d # s)
      \<or> lead4 a b \<and> cont c \<and> cont d \<and> valid_utf8 s)"

lemma valid_utf8_ascii: "is_ascii s \<Longrightarrow> valid_utf8 s"
  by (induction s rule: valid_utf8.induct) (auto simp: is_ascii_def)

definition rune_count :: "string \<Rightarrow> nat" where
  "rune_count s = length (filter (\<lambda>c. \<not> cont c) s)"

text \<open>
  \<open>strings.EqualFold\<close>: on two ASCII strings it compares letter by letter up to case;
  otherwise it consults the Unicode case-folding tables, which are the parameter \<open>uf\<close>.
\<close>

definition equal_fold :: "(string \<Rightarrow> string \<Rightarrow> bool) \<Rightarrow> string \<Rightarrow> string \<Rightarrow> bool" where
  "equal_fold uf s t =
     (if is_ascii s \<and> is_ascii t then to_lower s = to_lower t else uf s t)"

subsection \<open>strings.TrimSpace\<close>

text \<open>
  \<open>space_runes\<close> lists the UTF-8 encodings of the runes \<open>unicode.IsSpace\<close> accepts:
  the six ASCII ones, U+0085, U+00A0, U+1680, U+2000 to U+200A, U+2028, U+2029, U+202F,
  U+205F and U+3000.
\<close>

definition space_runes :: "string list" where
  "space_runes =
     map (\<lambda>n. [char_of n]) [9::nat, 10, 11, 12, 13, 32]
   @ map (\<lambda>n. [CHR 0xC2, char_of n]) [133::nat, 160]
   @ [[CHR 0xE1, CHR 0x9A, CHR 0x80]]
   @ map (\<lambda>n. [CHR 0xE2, CHR 0x80, char_of n])
       [128::nat, 129, 130, 131, 132, 133, 134, 135, 136, 137, 138, 168, 169, 175]
   @ [[CHR 0xE2, CHR 0x81, CHR 0x9F], [CHR 0xE3, CHR 0x80, CHR 0x80]]"

function strip :: "string list \<Rightarrow> string \<Rightarrow> string" where
  "strip ps s =
     (case find (\<lambda>p. p \<noteq> [] \<and> is_prefix p s) ps of
        None \<Rightarrow> s
      | Some p \<Rightarrow> strip ps (drop (length p) s))"
  by pat_completeness auto
termination
proof (relation "measure (\<lambda>(ps, s). length s)", simp)
  fix ps :: "string list" and s p
  assume "find (\<lambda>p. p \<noteq> [] \<and> is_prefix p s) ps = Some p"
  then have "p \<noteq> []" "is_prefix p s" by (auto dest: find_Some_D)
  then show "((ps, drop (length p) s), ps, s) \<in> measure (\<lambda>(ps, s). length s)"
    by (auto simp: is_prefix_iff)
qed

declare strip.simps [simp del]

definition trim_left :: "string \<Rightarrow> string" where
  "trim_left s = strip space_runes s"

definition trim_right :: "string \<Rightarrow> string" where
  "trim_right s = rev (strip (map rev space_runes) (rev s))"

definition TrimSpace :: "string \<Rightarrow> string" where
  "TrimSpace s = trim_right (trim_left s)"

lemma strip_suffix: "\<exists>a. s = a @ strip ps s"
proof (induction ps s rule: strip.induct)
  case (1 ps s)
  show ?case
  proof (cases "find (\<lambda>p. p \<noteq> [] \<and> is_prefix p s) ps")
    case None
    then show ?thesis by (simp add: strip.simps [of ps s])
  next
    case (Some p)
    then have "p @ drop (length p) s = s" by (auto dest!: find_Some_D simp: is_prefix_take)
    moreover from 1 [OF Some] obtain a where "drop (length p) s = a @ strip ps (drop (length p) s)" by blast
    ultimately have "s = (p @ a) @ strip ps (drop (length p) s)" by simp
    moreover have "strip ps s = strip ps (drop (length p) s)"
      using Some by (simp add: strip.simps [of ps s])
    ultimately show ?thesis by metis
  qed
qed

lemma strip_stops: "p \<in> set ps \<Longrightarrow> p \<noteq> [] \<Longrightarrow> \<not> is_prefix p (strip ps s)"
proof (induction ps s rule: strip.induct)
  case (1 ps s)
  show ?case
  proof (cases "find (\<lambda>p. p \<noteq> [] \<and> is_prefix p s) ps")
    case None
    then have "strip ps s = s" by (simp add: strip.simps [of ps s])
    with None 1(2,3) show ?thesis by (auto simp: find_None_iff_all)
  next
    case (Some q)
    with 1 show ?thesis by (simp add: strip.simps [of ps s])
  qed
qed

lemma strip_id: "\<forall>p \<in> set ps. p \<noteq> [] \<longrightarrow> \<not> is_prefix p s \<Longrightarrow> strip ps s = s"
  by (subst strip.simps) (auto split: option.splits dest!: find_Some_D)

lemma strip_idem: "strip ps (strip ps s) = strip ps s"
  by (rule strip_id) (auto dest: strip_stops)

lemma length_strip: "length (strip ps s) \<le> length s"
  by (metis strip_suffix length_append le_add2)

lemma TrimSpace_sublist: "\<exists>a b. s = a @ TrimSpace s @ b"
proof -
  obtain a where a: "s = a @ trim_left s" unfolding trim_left_def using strip_suffix by blast
  obtain b where "rev (trim_left s) = b @ strip (map rev space_runes) (rev (trim_left s))"
    using strip_suffix by blast
  then have "trim_left s = TrimSpace s @ rev b"
    by (metis TrimSpace_def trim_right_def rev_append rev_rev_ident)
  with a show ?thesis by metis
qed

lemma TrimSpace_idem [simp]: "TrimSpace (TrimSpace s) = TrimSpace s"
proof -
  let ?t = "trim_left s"
  obtain b where "rev ?t = b @ strip (map rev space_runes) (rev ?t)" using strip_suffix by blast
  then have b: "?t = trim_right ?t @ rev b"
    by (metis trim_right_def rev_append rev_rev_ident)
  have "\<not> is_prefix p (trim_right ?t)" if "p \<in> set space_runes" "p \<noteq> []" for p
  proof
    assume "is_prefix p (trim_right ?t)"
    with b have "is_prefix p ?t" by (metis is_prefix_iff append.assoc)
    with strip_stops [OF that, of s] show False by (simp add: trim_left_def)
  qed
  then have "trim_left (trim_right ?t) = trim_right ?t"
    unfolding trim_left_def by (intro strip_id) blast
  then show ?thesis by (simp add: TrimSpace_def trim_right_def strip_idem)
qed

lemma length_TrimSpace: "length (TrimSpace s) \<le> length s"
  by (metis TrimSpace_sublist length_append le_add1 le_add2 order_trans)

subsection \<open>Decimal numbers\<close>

definition digit_val :: "char \<Rightarrow> int" where
  "digit_val c = int (byte c) - 48"

definition dec_val :: "string \<Rightarrow> int" where
  "dec_val s = foldl (\<lambda>n c. 10 * n + digit_val c) 0 s"

definition digit_char :: "nat \<Rightarrow> char" where
  "digit_char d = char_of (48 + d)"

fun nat_text :: "nat \<Rightarrow> string" where
  "nat_text n = (if n < 10 then [digit_char n] else nat_text (n div 10) @ [digit_char (n mod 10)])"

declare nat_text.simps [simp del]

definition Itoa :: "int \<Rightarrow> string" where
  "Itoa n = (if n < 0 then CHR ''-'' # nat_text (nat (- n)) else nat_text (nat n))"

text \<open>\<open>strconv.ParseInt(s, 10, 64)\<close>; \<open>strconv.Atoi\<close> is the same on a 64-bit platform.\<close>

definition ParseInt :: "string \<Rightarrow> int option" where
  "ParseInt s =
     (let neg = (s \<noteq> [] \<and> hd s = CHR ''-'');
          ds = (if s \<noteq> [] \<and> (hd s = CHR ''-'' \<or> hd s = CHR ''+'') then tl s else s);
          n = (if neg then - dec_val ds else dec_val ds)
      in if ds = [] \<or> \<not> list_all is_digit ds then None
         else if n < min_int64 \<or> max_int64 < n then None
         else Some n)"

lemma byte_digit_char: "d < 10 \<Longrightarrow> byte (digit_char d) = 48 + d"
  by (simp add: byte_def digit_char_def)

lemma digit_val_digit_char [simp]: "d < 10 \<Longrightarrow> digit_val (digit_char d) = int d"
  by (simp add: digit_val_def byte_digit_char)

lemma is_digit_digit_char [simp]: "d < 10 \<Longrightarrow> is_digit (digit_char d)"
  by (simp add: is_digit_def byte_digit_char)

lemma dec_val_snoc [simp]: "dec_val (s @ [c]) = 10 * dec_val s + digit_val c"
  by (simp add: dec_val_def)

lemma dec_val_nonneg: "list_all is_digit s \<Longrightarrow> 0 \<le> dec_val s"
proof (induction s rule: rev_induct)
  case (snoc c s)
  then show ?case by (auto simp: digit_val_def is_digit_def)
qed (simp add: dec_val_def)

lemma nat_text_val: "dec_val (nat_text n) = int n"
proof (induction n rule: nat_text.induct)
  case (1 n)
  show ?case
  proof (cases "n < 10")
    case True
    then show ?thesis by (subst nat_text.simps) (simp add: dec_val_def)
  next
    case False
    then have "dec_val (nat_text n) = 10 * int (n div 10) + int (n mod 10)"
      using 1 by (subst nat_text.simps) simp
    then show ?thesis by (simp add: zdiv_int zmod_int)
  qed
qed

lemma nat_text_digits: "list_all is_digit (nat_text n)"
proof (induction n rule: nat_text.induct)
  case (1 n)
  then show ?case by (subst nat_text.simps) simp
qed

lemma nat_text_nonempty: "nat_text n \<noteq> []"
  by (subst nat_text.simps) simp

lemma nat_text_inject: "nat_text m = nat_text n \<Longrightarrow> m = n"
  by (metis nat_text_val of_nat_eq_iff)

lemma Itoa_inject: "Itoa m = Itoa n \<Longrightarrow> m = n"
proof -
  have "hd (nat_text k) \<noteq> CHR ''-''" for k
    using nat_text_digits [of k] nat_text_nonempty [of k]
    by (cases "nat_text k") (auto simp: is_digit_def byte_def)
  then have *: "CHR ''-'' # s \<noteq> nat_text k" for s k by (metis list.sel(1))
  assume "Itoa m = Itoa n"
  then show ?thesis
    by (auto simp: Itoa_def * *[symmetric] dest: nat_text_inject split: if_splits)
qed

lemma ParseInt_Itoa: "min_int64 \<le> n \<Longrightarrow> n \<le> max_int64 \<Longrightarrow> ParseInt (Itoa n) = Some n"
proof (cases "n < 0")
  case True
  assume "min_int64 \<le> n" "n \<le> max_int64"
  with True show ?thesis
    by (simp add: ParseInt_def Itoa_def Let_def nat_text_nonempty nat_text_digits nat_text_val int64_defs)
next
  case False
  assume n: "min_int64 \<le> n" "n \<le> max_int64"
  have h: "hd (nat_text (nat n)) \<noteq> CHR ''-''" "hd (nat_text (nat n)) \<noteq> CHR ''+''"
    using nat_text_digits [of "nat n"] nat_text_nonempty [of "nat n"]
    by (cases "nat_text (nat n)"; auto simp: is_digit_def byte_def)+
  from False n h show ?thesis
    by (simp add: ParseInt_def Itoa_def Let_def nat_text_nonempty nat_text_digits nat_text_val int64_defs)
qed

end
