(* ===== verification/Model.thy ===== *)
theory Model
imports Go_Lib
begin

section \<open>Domain values and the library functions taken as parameters\<close>

text \<open>
  The structs of \<open>internal/model\<close>, the service's parameter and result structs, and the
  record of the functions this development does not define: the URL parser of \<open>net/url\<close>,
  the Unicode case-folding tables, the JSON encoder and decoder for \<open>model.URL\<close>, and the
  decoder of create requests behind a \<open>MaxBytesReader\<close> with the given limit. They
  are arguments of every definition that uses them. \<open>lib_ok\<close> states the one law the cache
  relies on: what the JSON encoder writes, the decoder reads back.
\<close>

record url =
  ID :: int
  Code :: string
  LongURL :: string
  ExpiresAt :: "time option"
  CreatedAt :: time

record daily_count =
  Day :: int
  Clicks :: int

record referrer_count =
  Referrer :: string
  RefClicks :: int

record stats_summary =
  TotalClicks :: int
  Daily :: "daily_count list"
  TopReferrers :: "referrer_count list"

text \<open>A parsed URL: the fields the service reads, and what its \<open>String\<close> method returns.\<close>

record gourl =
  Scheme :: string
  Host :: string
  Str :: string

text \<open>The body of a create request, and the two ways in which reading it can fail.\<close>

record create_url_request =
  req_URL :: string
  req_CustomCode :: string
  req_ExpiresIn :: string

datatype decode_error = MaxBytesError | DecodeError string

record golib =
  url_Parse :: "string \<Rightarrow> goerr + gourl"
  JoinPath :: "gourl \<Rightarrow> string \<Rightarrow> gourl"
  uni_fold :: "string \<Rightarrow> string \<Rightarrow> bool"
  json_Marshal :: "url \<Rightarrow> goerr + string"
  json_Unmarshal :: "string \<Rightarrow> goerr + url"
  json_Decode :: "nat \<Rightarrow> string \<Rightarrow> decode_error + create_url_request"

definition lib_ok :: "golib \<Rightarrow> bool" where
  "lib_ok L \<longleftrightarrow> (\<forall>u s. json_Marshal L u = Inr s \<longrightarrow> json_Unmarshal L s = Inr u)"

definition expired_at :: "time \<Rightarrow> url \<Rightarrow> bool" where
  \<comment> \<open>\<open>u.ExpiresAt != nil && !u.ExpiresAt.After(time.Now())\<close>\<close>
  "expired_at now u = (case ExpiresAt u of None \<Rightarrow> False | Some t \<Rightarrow> \<not> t > now)"

end
