(* ===== verification/Base62.thy ===== *)
theory Base62
imports Go_Lib
begin

section \<open>Short codes: base 62 of the row id\<close>

text \<open>
  \<open>internal/service/base62.go\<close>. \<open>EncodeBase62\<close> fills an 11-byte array from its end,
  one digit per turn of the loop. The loop is modelled over the array and the write index;
  \<open>None\<close> is the index-out-of-range panic the code would raise if 11 bytes were not enough.
  The lemmas show that it never happens, that the result is the usual positional numeral,
  that decoding inverts it, and therefore that two ids never share a code.
\<close>

definition base62Alphabet :: string where
  "base62Alphabet = ''0123456789ABCDEFGHIJKLMNOPQRSTUVWXYZabcdefghijklmnopqrstuvwxyz''"

function encode_loop :: "64 word \<Rightarrow> nat \<Rightarrow> string \<Rightarrow> string option" where
  "encode_loop n i buf =
     (if n > 0 then
        (case i of
           0 \<Rightarrow> None
         | Suc i' \<Rightarrow> encode_loop (n div 62) i' (buf[i' := base62Alphabet ! unat (n mod 62)]))
      else Some (drop i buf))"
  by pat_completeness auto
termination by (relation "measure (\<lambda>(n, i, buf). i)") auto

declare encode_loop.simps [simp del]

definition EncodeBase62 :: "64 word \<Rightarrow> string option" where
  "EncodeBase62 n =
     (if n = 0 then Some ''0'' else encode_loop n 11 (replicate 11 (CHR 0x00)))"

subsection \<open>Reference numeral and decoder\<close>

fun digits62 :: "nat \<Rightarrow> nat list" where
  "digits62 n = (if n = 0 then [] else digits62 (n div 62) @ [n mod 62])"

declare digits62.simps [simp del]

definition numeral62 :: "nat \<Rightarrow> string" where
  "numeral62 n = (if n = 0 then ''0'' else map ((!) base62Alphabet) (digits62 n))"

definition index62 :: "char \<Rightarrow> nat" where
  "index62 c = length (takeWhile (\<lambda>d. d \<noteq> c) base62Alphabet)"

definition decode62 :: "string \<Rightarrow> nat" where
  "decode62 s = foldl (\<lambda>n c. 62 * n + index62 c) 0 s"

lemma digits62_0 [simp]: "digits62 0 = []"
  by (subst digits62.simps) simp

lemma digits62_pos: "0 < n \<Longrightarrow> digits62 n = digits62 (n div 62) @ [n mod 62]"
  by (subst digits62.simps) simp

lemma digits62_bound: "\<forall>d \<in> set (digits62 n). d < 62"
proof (induction n rule: digits62.induct)
  case (1 n)
  then show ?case by (cases "n = 0") (auto simp: digits62_pos [of n])
qed

lemma digits62_value: "foldl (\<lambda>a d. 62 * a + d) 0 (digits62 n) = n"
proof (induction n rule: digits62.induct)
  case (1 n)
  then show ?case by (cases "n = 0") (auto simp: digits62_pos [of n])
qed

lemma digits62_nonempty: "digits62 n = [] \<longleftrightarrow> n = 0"
  by (cases "n = 0") (auto simp: digits62_pos [of n])

lemma digits62_hd: "0 < n \<Longrightarrow> hd (digits62 n) \<noteq> 0"
proof (induction n rule: digits62.induct)
  case (1 n)
  show ?case
  proof (cases "n div 62 = 0")
    case True
    with 1(2) show ?thesis by (simp add: digits62_pos [of n])
  next
    case False
    with 1 have "hd (digits62 (n div 62)) \<noteq> 0" "digits62 (n div 62) \<noteq> []"
      by (auto simp: digits62_nonempty)
    with 1(2) show ?thesis by (simp add: digits62_pos [of n])
  qed
qed

lemma digits62_length: "n < 62 ^ k \<Longrightarrow> length (digits62 n) \<le> k"
proof (induction k arbitrary: n)
  case (Suc k)
  show ?case
  proof (cases "n = 0")
    case False
    from Suc.prems have "n div 62 < 62 ^ k" by (simp add: less_mult_imp_div_less mult.commute)
    from Suc.IH [OF this] False show ?thesis by (simp add: digits62_pos [of n])
  qed simp
qed simp

subsection \<open>The alphabet\<close>

lemma alphabet_length [simp]: "length base62Alphabet = 62"
  by (simp add: base62Alphabet_def)

lemma all_digits_lt: "(\<forall>i < (62::nat). P i) \<longleftrightarrow> list_all P [0..<62]"
  by (auto simp: list_all_iff)

lemma alphabet_props:
  "list_all (\<lambda>i. index62 (base62Alphabet ! i) = i) [0..<62]"
  "list_all (\<lambda>c. is_digit c \<or> is_upper c \<or> is_lower c) base62Alphabet"
  by code_simp+

lemma index62_nth: "i < 62 \<Longrightarrow> index62 (base62Alphabet ! i) = i"
  using alphabet_props(1) by (auto simp: list_all_iff)

lemma alphabet_alnum: "c \<in> set base62Alphabet \<Longrightarrow> is_digit c \<or> is_upper c \<or> is_lower c"
  using alphabet_props(2) by (auto simp: list_all_iff)

subsection \<open>The loop computes the numeral\<close>

lemma encode_loop_digits:
  assumes "i \<le> length buf"
  shows "encode_loop n i buf =
    (if length (digits62 (unat n)) \<le> i
     then Some (map ((!) base62Alphabet) (digits62 (unat n)) @ drop i buf) else None)"
  using assms
proof (induction n i buf rule: encode_loop.induct)
  case (1 n i buf)
  show ?case
  proof (cases "n > 0")
    case False
    then have "n = 0" by (simp add: word_gt_0)
    then show ?thesis by (simp add: encode_loop.simps [of 0 i buf])
  next
    case True
    then have pos: "0 < unat n" by (simp add: word_gt_0 unat_gt_0)
    show ?thesis
    proof (cases i)
      case 0
      with True pos show ?thesis
        by (simp add: encode_loop.simps [of n 0 buf] digits62_nonempty)
    next
      case (Suc j)
      let ?b = "buf[j := base62Alphabet ! unat (n mod 62)]"
      have IH: "encode_loop (n div 62) j ?b =
        (if length (digits62 (unat (n div 62))) \<le> j
         then Some (map ((!) base62Alphabet) (digits62 (unat (n div 62))) @ drop j ?b) else None)"
        using 1(1) [OF True Suc] 1(2) Suc by simp
      have d: "drop j ?b = base62Alphabet ! unat (n mod 62) # drop i buf"
        using 1(2) Suc by (simp add: Cons_nth_drop_Suc [symmetric] drop_update_swap)
      have u: "unat (n div 62) = unat n div 62" "unat (n mod 62) = unat n mod 62"
        by (simp_all add: unat_div unat_mod)
      from True Suc IH d show ?thesis
        by (simp add: encode_loop.simps [of n "Suc j" buf] digits62_pos [OF pos] u)
    qed
  qed
qed

lemma word64_digits: "length (digits62 (unat (n :: 64 word))) \<le> 11"
proof (rule digits62_length)
  have "unat n < 2 ^ 64" using unsigned_less [of n, where 'a = nat] by simp
  then show "unat n < 62 ^ 11" by simp
qed

lemma EncodeBase62_eq: "EncodeBase62 n = Some (numeral62 (unat n))"
  by (simp add: EncodeBase62_def numeral62_def encode_loop_digits word64_digits unat_eq_0)

lemma decode62_numeral62 [simp]: "decode62 (numeral62 n) = n"
proof (cases "n = 0")
  case True
  have "decode62 ''0'' = 0" by code_simp
  with True show ?thesis by (simp add: numeral62_def)
next
  case False
  have "foldl (\<lambda>n c. 62 * n + index62 c) a (map ((!) base62Alphabet) ds) = foldl (\<lambda>a d. 62 * a + d) a ds"
    if "\<forall>d \<in> set ds. d < 62" for a ds
    using that by (induction ds arbitrary: a) (auto simp: index62_nth)
  from this [OF digits62_bound] False show ?thesis
    by (simp add: decode62_def numeral62_def digits62_value)
qed

lemma numeral62_inject: "numeral62 m = numeral62 n \<longleftrightarrow> m = n"
  by (metis decode62_numeral62)

lemma numeral62_set: "set (numeral62 n) \<subseteq> set base62Alphabet"
proof (cases "n = 0")
  case True
  then show ?thesis by (simp add: numeral62_def base62Alphabet_def)
next
  case False
  then show ?thesis using digits62_bound by (auto simp: numeral62_def)
qed

lemma numeral62_length: "length (numeral62 (unat (n :: 64 word))) \<in> {1..11}"
proof (cases "unat n = 0")
  case False
  then have "digits62 (unat n) \<noteq> []" by (simp add: digits62_nonempty)
  then show ?thesis using word64_digits [of n] False
    by (auto simp: numeral62_def Suc_le_eq)
qed (simp add: numeral62_def)

subsection \<open>Properties\<close>

text \<open>C37: The encoder never runs out of its 11-byte buffer: for every 64-bit id it returns a code of 1 to 11 characters, each of them one of the 62 letters and digits.\<close>

theorem EncodeBase62_total:
  "\<exists>s. EncodeBase62 n = Some s \<and> length s \<in> {1..11} \<and> set s \<subseteq> set base62Alphabet"
  using numeral62_length numeral62_set by (simp add: EncodeBase62_eq)

text \<open>C36: Decoding a code gives back the id it was made from, so distinct ids have distinct codes.\<close>

theorem EncodeBase62_roundtrip:
  "map_option decode62 (EncodeBase62 n) = Some (unat n) \<and> (EncodeBase62 m = EncodeBase62 n \<longleftrightarrow> m = n)"
  by (simp add: EncodeBase62_eq numeral62_inject word_unat_eq_iff)

text \<open>The code is the canonical numeral of the id: its digits are the id's base-62 digits, most significant first, and only the id 0 has a leading zero.\<close>

theorem EncodeBase62_canonical:
  "EncodeBase62 n = Some (numeral62 (unat n)) \<and> (hd (numeral62 (unat n)) = CHR ''0'' \<longleftrightarrow> n = 0)"
proof -
  have "hd (numeral62 k) \<noteq> CHR ''0''" if "0 < k" for k
  proof -
    from that have ne: "digits62 k \<noteq> []" by (simp add: digits62_nonempty)
    then have "hd (digits62 k) < 62" using digits62_bound [of k] by auto
    moreover have "index62 (CHR ''0'') = 0" by code_simp
    ultimately show ?thesis using digits62_hd [OF that] that ne index62_nth
      by (metis hd_map neq0_conv numeral62_def)
  qed
  then show ?thesis by (auto simp: EncodeBase62_eq numeral62_def unat_eq_0 unat_gt_0)
qed

end
