(* ===== verification/Validate.thy ===== *)
theory Validate
imports Model Base62
begin

section \<open>Validation of create requests\<close>

text \<open>
  \<open>validateLongURL\<close>, \<open>validateCustomCode\<close> and \<open>parseExpiry\<close> of
  \<open>internal/service/url.go\<close>, with the regular expressions \<open>customCodeRe\<close> and
  \<open>expiryRe\<close> as predicates on bytes. Go's \<open>$\<close> without flags matches only at the end of
  the text. Durations are multiplied in 64 bits, where they wrap around.
\<close>

definition maxURLLength :: nat where "maxURLLength = 2048"
definition maxExpiry :: dur where "maxExpiry = 365 * 24 * nano_hour"
definition minCustomCode :: nat where "minCustomCode = 3"
definition maxCustomCode :: nat where "maxCustomCode = 32"
definition maxIdemKeyLength :: nat where "maxIdemKeyLength = 256"

lemmas limit_defs = maxURLLength_def maxExpiry_def minCustomCode_def maxCustomCode_def
  maxIdemKeyLength_def

lemma maxExpiry_value: "maxExpiry = 31536000000000000"
  by (simp add: maxExpiry_def nano_hour_def)

subsection \<open>Custom codes\<close>

definition code_char :: "char \<Rightarrow> bool" where
  "code_char c \<longleftrightarrow> is_upper c \<or> is_lower c \<or> is_digit c \<or> c = CHR ''_'' \<or> c = CHR ''-''"

definition customCodeRe :: "string \<Rightarrow> bool" where
  "customCodeRe s \<longleftrightarrow>
     minCustomCode \<le> length s \<and> length s \<le> maxCustomCode \<and> list_all code_char s"

definition reservedCodes :: "string list" where
  "reservedCodes = [''api'', ''health'', ''ready'', ''metrics'']"

definition validateCustomCode :: "string \<Rightarrow> goerr option" where
  "validateCustomCode code =
     (if \<not> customCodeRe code then Some (Sentinel ErrInvalidCode)
      else if to_lower code \<in> set reservedCodes then Some (Sentinel ErrInvalidCode)
      else None)"

subsection \<open>Expiry\<close>

definition expiryRe :: "string \<Rightarrow> (string \<times> char) option" where
  "expiryRe s =
     (if 2 \<le> length s \<and> list_all is_digit (butlast s) \<and> last s \<in> set ''mhd''
      then Some (butlast s, last s) else None)"

definition expiry_duration :: "int \<Rightarrow> char \<Rightarrow> dur" where
  "expiry_duration n u =
     (if u = CHR ''m'' then wrap64 (n * nano_min)
      else if u = CHR ''h'' then wrap64 (n * nano_hour)
      else if u = CHR ''d'' then wrap64 (wrap64 (n * 24) * nano_hour)
      else 0)"

definition expiry_of :: "string \<Rightarrow> goerr + dur" where
  \<comment> \<open>\<open>parseExpiry\<close> up to the reading of the clock\<close>
  "expiry_of s =
     (case expiryRe s of
        None \<Rightarrow> Inl (Sentinel ErrInvalidExpiry)
      | Some (m1, m2) \<Rightarrow>
          (case ParseInt m1 of
             None \<Rightarrow> Inl (Sentinel ErrInvalidExpiry)
           | Some n \<Rightarrow>
               (let d = expiry_duration n m2
                in if d > maxExpiry \<or> d \<le> 0 then Inl (Sentinel ErrInvalidExpiry) else Inr d)))"

subsection \<open>Long URLs\<close>

definition validateLongURL :: "golib \<Rightarrow> string \<Rightarrow> string \<Rightarrow> goerr + string" where
  "validateLongURL L blockDomain raw0 =
     (let raw = TrimSpace raw0
      in if raw = '''' then Inl (Sentinel ErrInvalidURL)
         else if length raw > maxURLLength then Inl (Sentinel ErrURLTooLong)
         else
           (let raw' = (if \<not> contains ''://'' raw then ''http://'' @ raw else raw)
            in case url_Parse L raw' of
                 Inl e \<Rightarrow> Inl (Sentinel ErrInvalidURL)
               | Inr u \<Rightarrow>
                   (let scheme = to_lower (Scheme u)
                    in if scheme \<noteq> ''http'' \<and> scheme \<noteq> ''https'' then Inl (Sentinel ErrInvalidURL)
                       else if Host u = '''' then Inl (Sentinel ErrInvalidURL)
                       else if equal_fold (uni_fold L) (Host u) blockDomain
                            then Inl (Sentinel ErrSelfReference)
                       else Inr (Str u))))"

text \<open>
  What a stored URL is known to be: the \<open>String()\<close> of a successful parse whose scheme is
  http or https and whose host is present and is not the service's own.
\<close>

definition acceptable_url :: "golib \<Rightarrow> string \<Rightarrow> string \<Rightarrow> bool" where
  "acceptable_url L blockDomain s \<longleftrightarrow>
     (\<exists>raw u. url_Parse L raw = Inr u \<and> Str u = s
        \<and> to_lower (Scheme u) \<in> {''http'', ''https''} \<and> Host u \<noteq> ''''
        \<and> \<not> equal_fold (uni_fold L) (Host u) blockDomain)"

lemma validateLongURL_acceptable:
  "validateLongURL L bd raw = Inr s \<Longrightarrow> acceptable_url L bd s"
  unfolding validateLongURL_def acceptable_url_def Let_def
  by (auto split: if_splits sum.splits)

lemma validateLongURL_errors:
  "validateLongURL L bd raw = Inl e \<Longrightarrow>
     e \<in> {Sentinel ErrInvalidURL, Sentinel ErrURLTooLong, Sentinel ErrSelfReference}"
  unfolding validateLongURL_def Let_def
  by (auto split: if_splits sum.splits)

subsection \<open>Lemmas on codes\<close>

lemma alphabet_code_char: "c \<in> set base62Alphabet \<Longrightarrow> code_char c"
  using alphabet_alnum by (auto simp: code_char_def)

lemma numeral62_code_char: "list_all code_char (numeral62 n)"
  using numeral62_set [of n] alphabet_code_char by (auto simp: list_all_iff)

subsection \<open>Lemmas on expiries\<close>

lemma expiryRe_iff:
  "expiryRe s = Some (ds, u) \<longleftrightarrow> s = ds @ [u] \<and> ds \<noteq> [] \<and> list_all is_digit ds \<and> u \<in> set ''mhd''"
proof
  assume "expiryRe s = Some (ds, u)"
  then have h: "2 \<le> length s" "list_all is_digit ds" "u \<in> set ''mhd''" "ds = butlast s" "u = last s"
    unfolding expiryRe_def by (simp_all only: split: if_splits) auto
  then have "s \<noteq> []" "ds \<noteq> []" by (auto simp: butlast_conv_take dest: arg_cong [where f = length])
  with h show "s = ds @ [u] \<and> ds \<noteq> [] \<and> list_all is_digit ds \<and> u \<in> set ''mhd''"
    by simp
next
  assume "s = ds @ [u] \<and> ds \<noteq> [] \<and> list_all is_digit ds \<and> u \<in> set ''mhd''"
  then show "expiryRe s = Some (ds, u)"
    by (auto simp: expiryRe_def Suc_le_eq)
qed

definition unit_of :: "char \<Rightarrow> dur" where
  "unit_of u = (if u = CHR ''m'' then nano_min else if u = CHR ''h'' then nano_hour else 24 * nano_hour)"

lemma unit_of_pos: "0 < unit_of u"
  by (simp add: unit_of_def nano_defs)

lemma wrap64_mult: "wrap64 (wrap64 a * b) = wrap64 (a * b)"
  by (simp add: wrap64_def)

lemma expiry_duration_unit: "u \<in> set ''mhd'' \<Longrightarrow> expiry_duration n u = wrap64 (n * unit_of u)"
  by (auto simp: expiry_duration_def unit_of_def wrap64_mult mult.assoc)

lemma ParseInt_digits:
  "ds \<noteq> [] \<Longrightarrow> list_all is_digit ds \<Longrightarrow>
     ParseInt ds = (if dec_val ds \<le> max_int64 then Some (dec_val ds) else None)"
proof -
  assume ds: "ds \<noteq> []" "list_all is_digit ds"
  then have "hd ds \<noteq> CHR ''-''" "hd ds \<noteq> CHR ''+''"
    by (cases ds; auto simp: is_digit_def byte_def)+
  with ds dec_val_nonneg [OF ds(2)] show ?thesis
    by (simp add: ParseInt_def Let_def int64_defs)
qed

lemma expiry_of_number:
  assumes "ds \<noteq> []" "list_all is_digit ds" "u \<in> set ''mhd''"
  shows "expiry_of (ds @ [u]) =
     (if dec_val ds \<le> max_int64 \<and> 0 < wrap64 (dec_val ds * unit_of u)
         \<and> wrap64 (dec_val ds * unit_of u) \<le> maxExpiry
      then Inr (wrap64 (dec_val ds * unit_of u)) else Inl (Sentinel ErrInvalidExpiry))"
proof -
  have "expiryRe (ds @ [u]) = Some (ds, u)"
    unfolding expiryRe_iff using assms by blast
  then show ?thesis
    using assms by (simp add: expiry_of_def ParseInt_digits expiry_duration_unit Let_def not_le
        del: set_simps)
qed

subsection \<open>Properties\<close>



text \<open>Whatever string a client sends, an accepted lifetime is positive and at most 365 days, and every rejection is ErrInvalidExpiry.\<close>

theorem expiry_of_bounds:
  "case expiry_of s of Inr d \<Rightarrow> 0 < d \<and> d \<le> 31536000000000000 | Inl e \<Rightarrow> e = Sentinel ErrInvalidExpiry"
  by (auto simp: expiry_of_def Let_def maxExpiry_value split: option.splits sum.splits)

text \<open>C40: For a number whose product with its unit fits in 64 bits, parsing is exact: the lifetime is the number times the unit, and the request is rejected exactly when that is zero or more than 365 days.\<close>

theorem expiry_of_exact:
  assumes "ds \<noteq> []" "list_all is_digit ds" "u \<in> set ''mhd''" "dec_val ds * unit_of u \<le> max_int64"
  shows "expiry_of (ds @ [u]) =
     (if 0 < dec_val ds * unit_of u \<and> dec_val ds * unit_of u \<le> maxExpiry
      then Inr (dec_val ds * unit_of u) else Inl (Sentinel ErrInvalidExpiry))"
proof -
  have nn: "0 \<le> dec_val ds" by (rule dec_val_nonneg [OF assms(2)])
  have "1 \<le> unit_of u" using unit_of_pos [of u] by linarith
  with nn have "dec_val ds * 1 \<le> dec_val ds * unit_of u" by (intro mult_left_mono) auto
  moreover from this have "wrap64 (dec_val ds * unit_of u) = dec_val ds * unit_of u"
    using nn assms(4) by (intro wrap64_id) (auto simp: int64_defs)
  ultimately show ?thesis using assms by (simp add: expiry_of_number del: set_simps)
qed

theorem expiry_of_exact_witness: "expiry_of ''7d'' = Inr 604800000000000"
proof -
  have "list_all is_digit ''7''" "CHR ''d'' \<in> set ''mhd''" "dec_val ''7'' = 7" "unit_of (CHR ''d'') = 86400000000000"
    by code_simp+
  then show ?thesis using expiry_of_exact [of "''7''" "CHR ''d''"]
    by (simp add: int64_defs maxExpiry_value del: set_simps)
qed

text \<open>The 365-day limit is checked after the multiplication has wrapped: 307445735 minutes, more than 584 years, is accepted and gives a lifetime of 26.29 seconds.\<close>

theorem expiry_overflow_accepted:
  "expiry_of ''307445735m'' = Inr 26290448384 \<and> 307445735 * nano_min > maxExpiry"
proof -
  have "list_all is_digit ''307445735''" "CHR ''m'' \<in> set ''mhd''" "dec_val ''307445735'' = 307445735"
    "unit_of (CHR ''m'') = 60000000000"
    by code_simp+
  then show ?thesis using expiry_of_number [of "''307445735''" "CHR ''m''"]
    by (simp add: int64_defs maxExpiry_value wrap64_alt nano_min_def del: set_simps)
qed

text \<open>C38: An accepted long URL is the String() of a parse with scheme http or https and a non-empty host that is not the service's own domain; every rejection is one of ErrInvalidURL, ErrURLTooLong and ErrSelfReference.\<close>

theorem validateLongURL_sound:
  "case validateLongURL L bd raw of
     Inr s \<Rightarrow> acceptable_url L bd s \<and> TrimSpace raw \<noteq> '''' \<and> length (TrimSpace raw) \<le> 2048
   | Inl e \<Rightarrow> e \<in> {Sentinel ErrInvalidURL, Sentinel ErrURLTooLong, Sentinel ErrSelfReference}"
  using validateLongURL_acceptable [of L bd raw] validateLongURL_errors [of L bd raw]
  by (auto simp: validateLongURL_def Let_def maxURLLength_def split: sum.splits if_splits)

end
