(* ===== verification/Schema.thy ===== *)
theory Schema
imports Validate
begin

section \<open>The database: tables, constraints, statements\<close>

text \<open>
  The tables of \<open>migrations/0001_init.up.sql\<close> with their constraints, and the SQL
  statements the Go code sends, each as a function on the database. A statement answers with
  a result or with an error and is atomic. Its errors are the PostgreSQL codes the schema
  gives rise to: 22021 (text that is not valid UTF-8 or holds a zero byte), 2200H (identity
  exhausted), 22008 (a date out of range), 23514 (a CHECK), 23505 (a UNIQUE or PRIMARY KEY), 23503 (a foreign key), 22003
  (a count that leaves BIGINT). Any other failure of a statement is a fate of the connection
  (theory Platform). The identity column takes its next value before the constraints are
  checked, so a rejected insert uses up an id. TIMESTAMPTZ columns hold whole microseconds.
\<close>

record url_row =
  r_id :: int
  r_code :: "string option"
  r_long_url :: string
  r_expires_at :: "time option"
  r_created_at :: time

record daily_row =
  d_url_id :: int
  d_day :: int
  d_dim :: string
  d_value :: string
  d_count :: int

record idem_row =
  i_key :: string
  i_scope :: string
  i_expires_at :: time

record database =
  urls :: "url_row list"
  next_id :: int
  analytics_daily :: "daily_row list"
  idempotency_records :: "idem_row list"

definition empty_db :: database where
  "empty_db = \<lparr>urls = [], next_id = 1, analytics_daily = [], idempotency_records = []\<rparr>"

type_synonym 'r stmt = "time \<Rightarrow> database \<Rightarrow> (goerr + 'r) \<times> database"

definition pg_ts :: "time \<Rightarrow> time" where
  "pg_ts t = t - t mod 1000"

definition pg_text :: "string \<Rightarrow> bool" where
  "pg_text s \<longleftrightarrow> valid_utf8 s \<and> CHR 0x00 \<notin> set s"

definition urls_code_format :: "string \<Rightarrow> bool" where
  "urls_code_format c \<longleftrightarrow> 1 \<le> length c \<and> length c \<le> 32 \<and> list_all code_char c"

definition urls_long_url_length :: "string \<Rightarrow> bool" where
  "urls_long_url_length s \<longleftrightarrow> 1 \<le> rune_count s \<and> rune_count s \<le> 2048"

subsection \<open>Statements on urls\<close>

definition has_code :: "string \<Rightarrow> url_row \<Rightarrow> bool" where
  "has_code c r \<longleftrightarrow> r_code r = Some c"

definition row_url :: "string \<Rightarrow> url_row \<Rightarrow> url" where
  "row_url c r = \<lparr>ID = r_id r, Code = c, LongURL = r_long_url r,
     ExpiresAt = r_expires_at r, CreatedAt = r_created_at r\<rparr>"

definition new_row :: "int \<Rightarrow> string option \<Rightarrow> string \<Rightarrow> time option \<Rightarrow> time \<Rightarrow> url_row" where
  "new_row rid code long_url expires_at now =
     \<lparr>r_id = rid, r_code = code, r_long_url = long_url,
       r_expires_at = map_option pg_ts expires_at, r_created_at = pg_ts now\<rparr>"

definition insert_url :: "string option \<Rightarrow> string \<Rightarrow> time option \<Rightarrow> int stmt" where
  "insert_url code long_url expires_at now d =
     (if \<not> pg_text long_url \<or> (case code of None \<Rightarrow> False | Some c \<Rightarrow> \<not> pg_text c) then (Inl (PgError ''22021''), d)
      else if next_id d > max_int64 then (Inl (PgError ''2200H''), d)
      else
        (let id = next_id d; d1 = d\<lparr>next_id := id + 1\<rparr>
         in if (case code of None \<Rightarrow> False | Some c \<Rightarrow> \<not> urls_code_format c) \<or> \<not> urls_long_url_length long_url
            then (Inl (PgError ''23514''), d1)
            else if (case code of None \<Rightarrow> False | Some c \<Rightarrow> list_ex (has_code c) (urls d))
            then (Inl (PgError ''23505''), d1)
            else (Inr id, d1\<lparr>urls := urls d @ [new_row id code long_url expires_at now]\<rparr>)))"

definition set_row_code :: "int \<Rightarrow> string \<Rightarrow> url_row \<Rightarrow> url_row" where
  "set_row_code rid code r = (if r_id r = rid then r\<lparr>r_code := Some code\<rparr> else r)"

definition update_url_code :: "string \<Rightarrow> int \<Rightarrow> int stmt" where
  "update_url_code code rid now d =
     (if \<not> pg_text code then (Inl (PgError ''22021''), d)
      else if \<not> list_ex (\<lambda>r. r_id r = rid) (urls d) then (Inr 0, d)
      else if \<not> urls_code_format code then (Inl (PgError ''23514''), d)
      else if list_ex (\<lambda>r. has_code code r \<and> r_id r \<noteq> rid) (urls d) then (Inl (PgError ''23505''), d)
      else (Inr 1, d\<lparr>urls := map (set_row_code rid code) (urls d)\<rparr>))"

definition select_url :: "string \<Rightarrow> url stmt" where
  "select_url code now d =
     (if \<not> pg_text code then (Inl (PgError ''22021''), d)
      else case find (has_code code) (urls d) of
             None \<Rightarrow> (Inl (Sentinel PgxErrNoRows), d)
           | Some r \<Rightarrow> (Inr (row_url code r), d))"

definition select_url_id :: "string \<Rightarrow> int stmt" where
  "select_url_id code now d =
     (if \<not> pg_text code then (Inl (PgError ''22021''), d)
      else case find (has_code code) (urls d) of
             None \<Rightarrow> (Inl (Sentinel PgxErrNoRows), d)
           | Some r \<Rightarrow> (Inr (r_id r), d))"

text \<open>The foreign key of analytics_daily is ON DELETE CASCADE.\<close>

definition delete_url :: "string \<Rightarrow> int stmt" where
  "delete_url code now d =
     (if \<not> pg_text code then (Inl (PgError ''22021''), d)
      else
        (let gone = filter (has_code code) (urls d);
             ids = map r_id gone
         in (Inr (int (length gone)),
             d\<lparr>urls := filter (\<lambda>r. \<not> has_code code r) (urls d),
               analytics_daily := filter (\<lambda>a. d_url_id a \<notin> set ids) (analytics_daily d)\<rparr>)))"

subsection \<open>Statements on analytics_daily and idempotency_records\<close>

definition daily_key :: "daily_row \<Rightarrow> int \<times> int \<times> string \<times> string" where
  "daily_key a = (d_url_id a, d_day a, d_dim a, d_value a)"

definition bump_row :: "int \<times> int \<times> string \<times> string \<Rightarrow> daily_row \<Rightarrow> daily_row" where
  "bump_row k a = (if daily_key a = k then a\<lparr>d_count := d_count a + 1\<rparr> else a)"

text \<open>The days a DATE column takes: 0001-01-01 to 5874897-12-31.\<close>

definition pg_date :: "int \<Rightarrow> bool" where
  "pg_date day \<longleftrightarrow> -719162 \<le> day \<and> day \<le> 2145042905"

definition upsert_daily :: "int \<Rightarrow> int \<Rightarrow> string \<Rightarrow> string \<Rightarrow> unit stmt" where
  "upsert_daily url_id day dim val now d =
     (let k = (url_id, day, dim, val)
      in if \<not> pg_date day then (Inl (PgError ''22008''), d)
         else if \<not> pg_text val then (Inl (PgError ''22021''), d)
         else if list_ex (\<lambda>a. daily_key a = k \<and> d_count a = max_int64) (analytics_daily d)
         then (Inl (PgError ''22003''), d)
         else if list_ex (\<lambda>a. daily_key a = k) (analytics_daily d)
         then (Inr (), d\<lparr>analytics_daily := map (bump_row k) (analytics_daily d)\<rparr>)
         else if \<not> list_ex (\<lambda>r. r_id r = url_id) (urls d) then (Inl (PgError ''23503''), d)
         else (Inr (), d\<lparr>analytics_daily := analytics_daily d @
                [\<lparr>d_url_id = url_id, d_day = day, d_dim = dim, d_value = val, d_count = 1\<rparr>]\<rparr>))"

definition insert_idem :: "string \<Rightarrow> string \<Rightarrow> dur \<Rightarrow> int stmt" where
  "insert_idem key scope ttl now d =
     (if \<not> pg_text key then (Inl (PgError ''22021''), d)
      else if list_ex (\<lambda>r. i_key r = key \<and> i_scope r = scope) (idempotency_records d) then (Inr 0, d)
      else (Inr 1, d\<lparr>idempotency_records := idempotency_records d @
             [\<lparr>i_key = key, i_scope = scope, i_expires_at = pg_ts (now + ttl)\<rparr>]\<rparr>))"

lemmas stmt_defs = insert_url_def update_url_code_def select_url_def select_url_id_def
  delete_url_def upsert_daily_def insert_idem_def

subsection \<open>What the constraints keep true\<close>

definition codes :: "database \<Rightarrow> string list" where
  "codes d = List.map_filter r_code (urls d)"

definition ids :: "database \<Rightarrow> int list" where
  "ids d = map r_id (urls d)"

definition lookup_url :: "database \<Rightarrow> string \<Rightarrow> url option" where
  "lookup_url d c = map_option (row_url c) (find (has_code c) (urls d))"

definition urls_inv :: "database \<Rightarrow> bool" where
  "urls_inv d \<longleftrightarrow>
     distinct (ids d) \<and> distinct (codes d) \<and> 1 \<le> next_id d
     \<and> (\<forall>r \<in> set (urls d). 1 \<le> r_id r \<and> r_id r < next_id d \<and> r_id r \<le> max_int64)
     \<and> (\<forall>c \<in> set (codes d). urls_code_format c)
     \<and> (\<forall>r \<in> set (urls d). urls_long_url_length (r_long_url r))"

definition daily_inv :: "database \<Rightarrow> bool" where
  "daily_inv d \<longleftrightarrow>
     distinct (map daily_key (analytics_daily d))
     \<and> (\<forall>a \<in> set (analytics_daily d). d_url_id a \<in> set (ids d) \<and> 1 \<le> d_count a \<and> d_count a \<le> max_int64)"

definition idem_inv :: "database \<Rightarrow> bool" where
  "idem_inv d \<longleftrightarrow> distinct (map (\<lambda>r. (i_key r, i_scope r)) (idempotency_records d))"

definition db_inv :: "database \<Rightarrow> bool" where
  "db_inv d \<longleftrightarrow> urls_inv d \<and> daily_inv d \<and> idem_inv d"

lemma codes_set: "c \<in> set (codes d) \<longleftrightarrow> (\<exists>r \<in> set (urls d). has_code c r)"
  by (simp add: codes_def has_code_def in_map_filter)

lemma list_ex_has_code: "list_ex (has_code c) (urls d) \<longleftrightarrow> c \<in> set (codes d)"
  by (simp add: codes_set list_ex_iff)

lemma lookup_None: "lookup_url d c = None \<longleftrightarrow> c \<notin> set (codes d)"
  by (auto simp: lookup_url_def codes_set find_None_iff_all)

lemma lookup_SomeD:
  "lookup_url d c = Some u \<Longrightarrow> \<exists>r \<in> set (urls d). has_code c r \<and> u = row_url c r"
  by (auto simp: lookup_url_def dest!: find_Some_D)

lemma find_has_code:
  assumes "distinct (codes d)" "r \<in> set (urls d)" "has_code c r"
  shows "find (has_code c) (urls d) = Some r"
proof (cases "find (has_code c) (urls d)")
  case None
  with assms show ?thesis by (auto simp: find_None_iff_all)
next
  case (Some q)
  then have "q \<in> set (urls d)" "has_code c q" by (auto dest: find_Some_D)
  with assms have "q = r"
    unfolding codes_def has_code_def by (metis map_filter_distinct_unique)
  with Some show ?thesis by simp
qed

lemma lookup_iff_row:
  "distinct (codes d) \<Longrightarrow>
     lookup_url d c = Some u \<longleftrightarrow> (\<exists>r \<in> set (urls d). has_code c r \<and> u = row_url c r)"
  by (auto simp: lookup_url_def find_has_code dest!: find_Some_D)


subsection \<open>Every statement keeps the constraints\<close>

lemma new_row_sel [simp]:
  "r_id (new_row i c l e t) = i" "r_code (new_row i c l e t) = c" "r_long_url (new_row i c l e t) = l"
  "r_expires_at (new_row i c l e t) = map_option pg_ts e" "r_created_at (new_row i c l e t) = pg_ts t"
  by (simp_all add: new_row_def)

definition new_code_ok :: "database \<Rightarrow> string option \<Rightarrow> bool" where
  "new_code_ok d code = (case code of None \<Rightarrow> True | Some c \<Rightarrow> urls_code_format c \<and> c \<notin> set (codes d))"

lemma insert_url_Inr:
  assumes "insert_url code l e now d = (Inr i, d')"
  shows "i = next_id d" "i \<le> max_int64" "urls_long_url_length l" "new_code_ok d code"
    "d' = d\<lparr>next_id := next_id d + 1, urls := urls d @ [new_row (next_id d) code l e now]\<rparr>"
  using assms unfolding insert_url_def Let_def list_ex_has_code new_code_ok_def
  by (cases code; simp split: if_splits)+

lemma insert_url_Inl:
  assumes "insert_url code l e now d = (Inl err, d')"
  shows "d' = d \<or> d' = d\<lparr>next_id := next_id d + 1\<rparr>"
  using assms unfolding insert_url_def Let_def by (cases code; simp split: if_splits)

lemma db_inv_next_id: "db_inv d \<Longrightarrow> db_inv (d\<lparr>next_id := next_id d + 1\<rparr>)"
  by (fastforce simp: db_inv_def urls_inv_def daily_inv_def idem_inv_def ids_def codes_def)

lemma codes_snoc: "codes (d\<lparr>next_id := n, urls := urls d @ [r]\<rparr>) =
    codes d @ (case r_code r of None \<Rightarrow> [] | Some c \<Rightarrow> [c])"
  by (simp add: codes_def map_filter_append map_filter_simps split: option.splits)

lemma urls_inv_snoc:
  assumes "urls_inv d" "r_id r = next_id d" "next_id d \<le> max_int64" "urls_long_url_length (r_long_url r)"
    "new_code_ok d (r_code r)"
  shows "urls_inv (d\<lparr>next_id := next_id d + 1, urls := urls d @ [r]\<rparr>)"
proof -
  have "next_id d \<notin> set (ids d)" using assms(1) by (auto simp: urls_inv_def ids_def)
  then show ?thesis
    using assms by (cases "r_code r") (fastforce simp: urls_inv_def codes_snoc ids_def new_code_ok_def)+
qed

lemma insert_url_inv:
  assumes "insert_url code l e now d = (r, d')" "db_inv d"
  shows "db_inv d'"
proof (cases r)
  case (Inl err)
  with assms db_inv_next_id show ?thesis by (auto dest: insert_url_Inl)
next
  case (Inr i)
  note h = insert_url_Inr [OF assms(1) [unfolded Inr]]
  have "urls_inv d'"
    unfolding h(5) by (rule urls_inv_snoc) (use assms(2) h in \<open>auto simp: db_inv_def\<close>)
  with assms(2) h(5) show ?thesis by (auto simp: db_inv_def daily_inv_def idem_inv_def ids_def)
qed

lemma set_row_code_sel [simp]:
  "r_id (set_row_code i c r) = r_id r" "r_long_url (set_row_code i c r) = r_long_url r"
  "r_expires_at (set_row_code i c r) = r_expires_at r" "r_created_at (set_row_code i c r) = r_created_at r"
  "r_code (set_row_code i c r) = (if r_id r = i then Some c else r_code r)"
  by (auto simp: set_row_code_def)

lemma codes_set_row_code:
  "x \<in> set (List.map_filter r_code (map (set_row_code i c) rs)) \<longleftrightarrow>
     (\<exists>r \<in> set rs. if r_id r = i then x = c else r_code r = Some x)"
  by (induction rs) (auto simp: map_filter_simps set_row_code_def split: option.splits)

lemma distinct_set_row_code:
  assumes "distinct (List.map_filter r_code rs)" "distinct (map r_id rs)"
    "\<forall>r \<in> set rs. r_code r = Some c \<longrightarrow> r_id r = i"
  shows "distinct (List.map_filter r_code (map (set_row_code i c) rs))"
  using assms
proof (induction rs)
  case (Cons r rs)
  have "distinct (List.map_filter r_code rs)"
    using Cons.prems(1) by (auto simp: map_filter_simps split: option.splits)
  with Cons have IH: "distinct (List.map_filter r_code (map (set_row_code i c) rs))" by auto
  show ?case
  proof (cases "r_id r = i")
    case True
    have "c \<notin> set (List.map_filter r_code (map (set_row_code i c) rs))"
      unfolding codes_set_row_code using Cons.prems(2,3) True by (auto simp: image_iff)
    with IH True show ?thesis by (simp add: map_filter_simps)
  next
    case False
    have "x \<notin> set (List.map_filter r_code (map (set_row_code i c) rs))" if "r_code r = Some x" for x
    proof -
      have "x \<notin> set (List.map_filter r_code rs)" "x \<noteq> c"
        using Cons.prems that False by (auto simp: map_filter_simps)
      then show ?thesis unfolding codes_set_row_code in_map_filter by auto
    qed
    with IH False show ?thesis by (auto simp: map_filter_simps split: option.splits)
  qed
qed (simp add: map_filter_simps)

lemma update_url_code_inv:
  assumes "update_url_code code i now d = (r, d')" "db_inv d"
  shows "db_inv d'"
proof (cases "d' = d")
  case False
  with assms(1) have h: "urls_code_format code" "\<forall>r \<in> set (urls d). r_code r = Some code \<longrightarrow> r_id r = i"
    "d' = d\<lparr>urls := map (set_row_code i code) (urls d)\<rparr>"
    by (auto simp: update_url_code_def list_ex_False_iff has_code_def split: if_splits)
  have "distinct (codes d')"
    using assms(2) h by (simp add: codes_def distinct_set_row_code db_inv_def urls_inv_def ids_def)
  moreover have "ids d' = ids d" using h(3) by (simp add: ids_def comp_def)
  moreover have "\<forall>c \<in> set (codes d'). urls_code_format c"
    using assms(2) h(1,3) unfolding codes_def
    by (auto simp: codes_set_row_code db_inv_def urls_inv_def codes_def in_map_filter split: if_splits)
  ultimately show ?thesis
    using assms(2) h(3) by (auto simp: db_inv_def urls_inv_def daily_inv_def idem_inv_def)
qed (use assms(2) in simp)

lemma select_url_inv: "select_url code now d = (r, d') \<Longrightarrow> d' = d"
  by (auto simp: select_url_def split: if_splits option.splits)

lemma select_url_id_inv: "select_url_id code now d = (r, d') \<Longrightarrow> d' = d"
  by (auto simp: select_url_id_def split: if_splits option.splits)

lemma delete_url_inv:
  assumes "delete_url code now d = (r, d')" "db_inv d"
  shows "db_inv d'"
proof (cases "d' = d")
  case False
  with assms(1) have d': "d' = d\<lparr>urls := filter (\<lambda>r. \<not> has_code code r) (urls d),
      analytics_daily := filter (\<lambda>a. d_url_id a \<notin> r_id ` {r \<in> set (urls d). has_code code r}) (analytics_daily d)\<rparr>"
    by (auto simp: delete_url_def Let_def split: if_splits)
  have "distinct (ids d')" "distinct (codes d')"
    using assms(2) d' by (auto simp: db_inv_def urls_inv_def ids_def codes_def distinct_map_filter
        distinct_map_filter_filter)
  moreover have "set (codes d') \<subseteq> set (codes d)"
    using d' by (auto simp: codes_def in_map_filter)
  moreover have "\<forall>a \<in> set (analytics_daily d'). d_url_id a \<in> set (ids d')"
    using assms(2) d' by (fastforce simp: db_inv_def daily_inv_def ids_def)
  ultimately show ?thesis
    using assms(2) d' by (auto simp: db_inv_def urls_inv_def daily_inv_def idem_inv_def distinct_map_filter)
qed (use assms(2) in simp)

lemma bump_row_sel [simp]:
  "daily_key (bump_row k a) = daily_key a" "d_url_id (bump_row k a) = d_url_id a"
  "d_count (bump_row k a) = (if daily_key a = k then d_count a + 1 else d_count a)"
  by (auto simp: bump_row_def daily_key_def)

lemma upsert_daily_inv:
  assumes "upsert_daily i day dim val now d = (r, d')" "db_inv d"
  shows "db_inv d'"
proof (cases "d' = d")
  case False
  let ?k = "(i, day, dim, val)"
  from assms(1) False consider
      (bump) "\<forall>a \<in> set (analytics_daily d). daily_key a = ?k \<longrightarrow> d_count a \<noteq> max_int64"
        "d' = d\<lparr>analytics_daily := map (bump_row ?k) (analytics_daily d)\<rparr>"
    | (new) "\<forall>a \<in> set (analytics_daily d). daily_key a \<noteq> ?k" "\<exists>r \<in> set (urls d). r_id r = i"
        "d' = d\<lparr>analytics_daily := analytics_daily d @
            [\<lparr>d_url_id = i, d_day = day, d_dim = dim, d_value = val, d_count = 1\<rparr>]\<rparr>"
    by (auto simp: upsert_daily_def Let_def list_ex_False_iff list_ex_iff split: if_splits)
  then show ?thesis
  proof cases
    case bump
    have "\<forall>a \<in> set (analytics_daily d). d_count a < max_int64 \<or> daily_key a \<noteq> ?k"
      using assms(2) bump(1) by (fastforce simp: db_inv_def daily_inv_def)
    with assms(2) bump(2) show ?thesis
      by (fastforce simp: db_inv_def urls_inv_def daily_inv_def idem_inv_def ids_def codes_def comp_def)
  next
    case new
    with assms(2) show ?thesis
      by (auto simp: db_inv_def urls_inv_def daily_inv_def idem_inv_def ids_def codes_def daily_key_def
          int64_defs image_iff)
  qed
qed (use assms(2) in simp)

lemma insert_idem_inv:
  assumes "insert_idem key scope ttl now d = (r, d')" "db_inv d"
  shows "db_inv d'"
  using assms
  by (auto simp: insert_idem_def db_inv_def urls_inv_def daily_inv_def idem_inv_def ids_def codes_def
      list_ex_iff split: if_splits)

lemmas stmt_inv = insert_url_inv update_url_code_inv delete_url_inv upsert_daily_inv insert_idem_inv

lemma empty_db_inv: "db_inv empty_db"
  by (simp add: db_inv_def urls_inv_def daily_inv_def idem_inv_def ids_def codes_def empty_db_def
      map_filter_simps)

end
