(* ===== verification/Prog.thy ===== *)
theory Prog
imports Prelude
begin

section \<open>Programs as sequences of atomic actions\<close>

text \<open>
  A method of the service runs on a goroutine beside others that touch the same Redis server
  and the same database. Its model is a value of type \<open>('w, 'a) prog\<close>: either it returns
  (\<open>Ret\<close>), or it performs one atomic action on the shared world of type \<open>'w\<close> (one SQL
  statement, one Redis command, one reading of the clock, one counter increment) and goes on
  with what the action's answer selects (\<open>Act\<close>). \<open>run\<close> executes a program alone;
  \<open>pstep\<close> lets a pool of programs take turns, one action at a time, in any order;
  \<open>sched\<close> follows one given schedule, so that an interleaving can be evaluated.
\<close>

datatype ('w, 'a) prog = Ret 'a | Act "'w \<Rightarrow> ('w, 'a) prog \<times> 'w"

subsection \<open>Execution and sequencing\<close>

primrec run :: "('w, 'a) prog \<Rightarrow> 'w \<Rightarrow> 'a \<times> 'w" where
  "run (Ret a) = (\<lambda>w. (a, w))"
| "run (Act f) = (\<lambda>w. (\<lambda>(g, w'). g w') (map_prod run id (f w)))"

primrec bindp :: "('w, 'a) prog \<Rightarrow> ('a \<Rightarrow> ('w, 'b) prog) \<Rightarrow> ('w, 'b) prog" where
  "bindp (Ret a) k = k a"
| "bindp (Act f) k = Act (map_prod (\<lambda>p. bindp p k) id \<circ> f)"

definition act :: "('w \<Rightarrow> 'a \<times> 'w) \<Rightarrow> ('w, 'a) prog" where
  "act g = Act (\<lambda>w. case g w of (a, w') \<Rightarrow> (Ret a, w'))"

text \<open>The pattern \<open>x, err := m(); if err != nil { return err }; k(x)\<close>.\<close>

definition tryp :: "('w, 'e + 'a) prog \<Rightarrow> ('a \<Rightarrow> ('w, 'e + 'b) prog) \<Rightarrow> ('w, 'e + 'b) prog" where
  "tryp m k = bindp m (\<lambda>r. case r of Inl e \<Rightarrow> Ret (Inl e) | Inr a \<Rightarrow> k a)"

lemma run_Ret [run_simps]: "run (Ret a) w = (a, w)"
  by simp

lemma run_Act: "run (Act f) w = (case f w of (p, w') \<Rightarrow> run p w')"
  by (cases "f w") simp

lemma run_act [run_simps]: "run (act g) w = g w"
  by (cases "g w") (simp add: act_def)

lemma run_bindp [run_simps]: "run (bindp m k) w = (case run m w of (a, w') \<Rightarrow> run (k a) w')"
proof (induction m arbitrary: w)
  case (Act f)
  obtain p w' where f: "f w = (p, w')" by (cases "f w")
  then have "(p, w') \<in> range f" by (metis rangeI)
  from Act [OF this, of p] f show ?case by simp
qed simp

lemma run_tryp [run_simps]:
  "run (tryp m k) w =
     (case run m w of (Inl e, w') \<Rightarrow> (Inl e, w') | (Inr a, w') \<Rightarrow> run (k a) w')"
  by (simp add: tryp_def run_bindp split: prod.splits sum.splits)

lemma bindp_Ret_right: "bindp m Ret = m"
proof (induction m)
  case (Act f)
  have "map_prod (\<lambda>p. bindp p Ret) id (f w) = f w" for w
  proof (cases "f w")
    case (Pair p w')
    then have "(p, w') \<in> range f" by (metis rangeI)
    from Act [OF this, of p] Pair show ?thesis by simp
  qed
  then show ?case by (simp add: fun_eq_iff)
qed simp

lemma bindp_assoc: "bindp (bindp m k) h = bindp m (\<lambda>a. bindp (k a) h)"
proof (induction m)
  case (Act f)
  have "map_prod (\<lambda>p. bindp p h) id (map_prod (\<lambda>p. bindp p k) id (f w))
      = map_prod (\<lambda>p. bindp p (\<lambda>a. bindp (k a) h)) id (f w)" for w
  proof (cases "f w")
    case (Pair p w')
    then have "(p, w') \<in> range f" by (metis rangeI)
    from Act [OF this, of p] Pair show ?thesis by simp
  qed
  then show ?case by (simp add: fun_eq_iff)
qed simp

lemma bindp_act: "bindp (act g) k = Act (\<lambda>w. case g w of (a, w') \<Rightarrow> (k a, w'))"
  by (auto simp: act_def fun_eq_iff split: prod.splits)

subsection \<open>Invariants of single actions\<close>

text \<open>
  \<open>safe I Q p\<close>: from every world that satisfies \<open>I\<close>, whatever other programs did
  to it in between, each action of \<open>p\<close> keeps \<open>I\<close>, and whatever \<open>p\<close> returns
  satisfies \<open>Q\<close>.
\<close>

primrec safe :: "('w \<Rightarrow> bool) \<Rightarrow> ('a \<Rightarrow> bool) \<Rightarrow> ('w, 'a) prog \<Rightarrow> bool" where
  "safe I Q (Ret a) = Q a"
| "safe I Q (Act f) = (\<forall>w. I w \<longrightarrow> (\<lambda>(b, w'). b \<and> I w') (map_prod (safe I Q) id (f w)))"

lemma safe_Act: "safe I Q (Act f) \<longleftrightarrow> (\<forall>w p w'. I w \<longrightarrow> f w = (p, w') \<longrightarrow> safe I Q p \<and> I w')"
  unfolding safe.simps case_prod_beta fst_map_prod snd_map_prod id_apply
  by (metis prod.collapse fst_conv snd_conv)

declare safe.simps(2) [simp del]

lemma safe_ActD: "safe I Q (Act f) \<Longrightarrow> I w \<Longrightarrow> f w = (p, w') \<Longrightarrow> safe I Q p \<and> I w'"
  unfolding safe_Act by blast

lemma safe_Ret [safe_rules]: "Q a \<Longrightarrow> safe I Q (Ret a)"
  by simp

lemma safe_act [safe_rules]: "(\<And>w a w'. I w \<Longrightarrow> g w = (a, w') \<Longrightarrow> Q a \<and> I w') \<Longrightarrow> safe I Q (act g)"
  by (auto simp: act_def safe_Act split: prod.splits)

lemma safe_bindp:
  "safe I Q m \<Longrightarrow> (\<And>a. Q a \<Longrightarrow> safe I R (k a)) \<Longrightarrow> safe I R (bindp m k)"
proof (induction m)
  case (Act f)
  show ?case unfolding bindp.simps safe_Act
  proof (intro allI impI)
    fix w p w'
    assume I: "I w" and f: "(map_prod (\<lambda>p. bindp p k) id \<circ> f) w = (p, w')"
    obtain q v where q: "f w = (q, v)" by (cases "f w")
    then have r: "(q, v) \<in> range f" by (metis rangeI)
    from safe_ActD [OF Act.prems(1) I q] have "safe I Q q" "I v" by auto
    with Act.IH [OF r, of q] Act.prems(2) f q show "safe I R p \<and> I w'" by auto
  qed
qed simp

lemma safe_tryp:
  assumes "safe I Q m" and "\<And>e. Q (Inl e) \<Longrightarrow> R (Inl e)" and "\<And>a. Q (Inr a) \<Longrightarrow> safe I R (k a)"
  shows "safe I R (tryp m k)"
  unfolding tryp_def
  by (rule safe_bindp [OF assms(1)]) (auto split: sum.splits simp: assms(2,3))

lemma safe_mono: "safe I Q p \<Longrightarrow> (\<And>a. Q a \<Longrightarrow> R a) \<Longrightarrow> safe I R p"
proof (induction p)
  case (Act f)
  show ?case unfolding safe_Act
  proof (intro allI impI)
    fix w p w'
    assume I: "I w" and f: "f w = (p, w')"
    then have r: "(p, w') \<in> range f" by (metis rangeI)
    from safe_ActD [OF Act.prems(1) I f] Act.IH [OF r, of p] Act.prems(2)
    show "safe I R p \<and> I w'" by auto
  qed
qed simp

lemma safe_run: "safe I Q p \<Longrightarrow> I w \<Longrightarrow> run p w = (a, w') \<Longrightarrow> Q a \<and> I w'"
proof (induction p arbitrary: w)
  case (Act f)
  obtain q v where q: "f w = (q, v)" by (cases "f w")
  then have r: "(q, v) \<in> range f" by (metis rangeI)
  from safe_ActD [OF Act.prems(1,2) q] have "safe I Q q" "I v" by auto
  with Act.IH [OF r, of q] Act.prems(3) q show ?case by auto
qed simp

subsection \<open>Pools of programs\<close>

type_synonym ('w, 'a) pool = "'w \<times> ('w, 'a) prog list"

inductive pstep :: "('w, 'a) pool \<Rightarrow> ('w, 'a) pool \<Rightarrow> bool" where
  move: "i < length ps \<Longrightarrow> ps ! i = Act f \<Longrightarrow> f w = (p, w') \<Longrightarrow> pstep (w, ps) (w', ps[i := p])"

inductive_cases pstepE: "pstep (w, ps) c"
inductive_simps pstep_iff: "pstep (w, ps) (w', ps')"

definition pool_inv :: "('w \<Rightarrow> bool) \<Rightarrow> (nat \<Rightarrow> 'a \<Rightarrow> bool) \<Rightarrow> ('w, 'a) pool \<Rightarrow> bool" where
  "pool_inv I Q c \<longleftrightarrow> I (fst c) \<and> (\<forall>i < length (snd c). safe I (Q i) (snd c ! i))"

lemma pstep_pool_inv: "pstep c d \<Longrightarrow> pool_inv I Q c \<Longrightarrow> pool_inv I Q d"
proof (induction rule: pstep.induct)
  case (move i ps f w p w')
  from move.prems move.hyps(1) have "I w" "safe I (Q i) (Act f)"
    by (auto simp: pool_inv_def move.hyps(2) dest!: spec [of _ i])
  from safe_ActD [OF this(2,1) move.hyps(3)] have "safe I (Q i) p" "I w'" by auto
  with move.prems show ?case
    by (auto simp: pool_inv_def nth_list_update move.hyps(1))
qed

lemma psteps_pool_inv: "pstep\<^sup>*\<^sup>* c d \<Longrightarrow> pool_inv I Q c \<Longrightarrow> pool_inv I Q d"
  by (induction rule: rtranclp_induct) (auto intro: pstep_pool_inv)

lemma psteps_length: "pstep\<^sup>*\<^sup>* c d \<Longrightarrow> length (snd d) = length (snd c)"
  by (induction rule: rtranclp_induct) (auto elim!: pstep.cases)

lemma pool_result:
  assumes "pstep\<^sup>*\<^sup>* (w, ps) (w', ps')" and "pool_inv I Q (w, ps)" and "i < length ps'" and "ps' ! i = Ret a"
  shows "Q i a \<and> I w'"
proof -
  from psteps_pool_inv [OF assms(1,2)] have "safe I (Q i) (ps' ! i)" "I w'"
    using assms(3) by (auto simp: pool_inv_def)
  with assms(4) show ?thesis by simp
qed

subsection \<open>Schedules\<close>

fun sched :: "nat list \<Rightarrow> ('w, 'a) pool \<Rightarrow> ('w, 'a) pool" where
  "sched [] c = c"
| "sched (i # is) (w, ps) =
     (if i < length ps
      then case ps ! i of
             Ret a \<Rightarrow> sched is (w, ps)
           | Act f \<Rightarrow> (case f w of (p, w') \<Rightarrow> sched is (w', ps[i := p]))
      else sched is (w, ps))"

lemma sched_psteps: "pstep\<^sup>*\<^sup>* c (sched is c)"
proof (induction "is" c rule: sched.induct)
  case (2 i "is" w ps)
  show ?case
  proof (cases "i < length ps")
    case True
    show ?thesis
    proof (cases "ps ! i")
      case (Ret a)
      with True 2(1) [OF True Ret] show ?thesis by simp
    next
      case (Act f)
      obtain p w' where f: "f w = (p, w')" by (cases "f w")
      have "pstep (w, ps) (w', ps[i := p])"
        by (rule pstep.move [where f = f]) (use True Act f in auto)
      with True 2(2) [OF True Act f [symmetric]] Act f show ?thesis
        by (auto intro: converse_rtranclp_into_rtranclp)
    qed
  next
    case False
    with 2(3) show ?thesis by simp
  qed
qed simp

text \<open>A program that runs while the others of its pool wait behaves as \<open>run\<close> says.\<close>

lemma run_psteps_at:
  "run p w = (a, w') \<Longrightarrow> i < length ps \<Longrightarrow> ps ! i = p \<Longrightarrow> pstep\<^sup>*\<^sup>* (w, ps) (w', ps[i := Ret a])"
proof (induction p arbitrary: w ps)
  case (Ret b)
  then have "w' = w" "ps[i := Ret a] = ps" by (auto simp: list_update_same_conv)
  then show ?case by simp
next
  case (Act f)
  obtain q v where q: "f w = (q, v)" by (cases "f w")
  then have r: "(q, v) \<in> range f" by (metis rangeI)
  have "pstep (w, ps) (v, ps[i := q])"
    using pstep.move [OF Act.prems(2,3) q] .
  moreover have "pstep\<^sup>*\<^sup>* (v, ps[i := q]) (w', ps[i := q, i := Ret a])"
    using Act.IH [OF r, of q v "ps[i := q]"] Act.prems q by simp
  ultimately show ?case by simp
qed

lemma run_psteps: "run p w = (a, w') \<Longrightarrow> pstep\<^sup>*\<^sup>* (w, [p]) (w', [Ret a])"
  using run_psteps_at [of p w a w' 0 "[p]"] by simp

lemma sched_reaches: "snd (sched is c) = ps \<Longrightarrow> pstep\<^sup>*\<^sup>* c (fst (sched is c), ps)"
  by (metis prod.collapse sched_psteps)

lemma safe_conj: "safe I Q p \<Longrightarrow> safe I R p \<Longrightarrow> safe I (\<lambda>a. Q a \<and> R a) p"
proof (induction p)
  case (Act f)
  show ?case unfolding safe_Act
  proof (intro allI impI)
    fix w p w'
    assume I: "I w" and f: "f w = (p, w')"
    then have r: "(p, w') \<in> range f" by (metis rangeI)
    from safe_ActD [OF Act.prems(1) I f] safe_ActD [OF Act.prems(2) I f] Act.IH [OF r, of p]
    show "safe I (\<lambda>a. Q a \<and> R a) p \<and> I w'" by auto
  qed
qed simp

end
