(* ===== verification/Platform.thy ===== *)
theory Platform
imports Schema Prog
begin

section \<open>What the processes run on: clock, Redis, the connection to PostgreSQL\<close>

text \<open>
  Redis, the network and the clock are not part of the repository. They are a parameter: a
  record of the operations the Go code calls through go-redis, pgx, \<open>context\<close> and
  \<open>time\<close>, over an abstract state \<open>'x\<close>. Nothing is assumed of it in the definitions. An operation may fail;
  an SQL statement may be refused, executed, or executed with its answer lost.

  The world the programs share is the database, the platform's state, the Prometheus
  counters of \<open>internal/metrics\<close> and the channel of the analytics recorder
  (\<open>buffer\<close>, oldest event first). Logging is left out.
\<close>

datatype fate = Executed | Refused string | Unacked string

record xmessage =
  msg_ID :: string
  msg_Values :: "(string \<times> string) list"

record 'x platform =
  p_now :: "'x \<Rightarrow> time \<times> 'x"
  p_sleep :: "dur \<Rightarrow> 'x \<Rightarrow> 'x"
  p_ctx_err :: "'x \<Rightarrow> string option \<times> 'x"
  p_sql :: "'x \<Rightarrow> fate \<times> 'x"
  p_sql_now :: "'x \<Rightarrow> time"
  p_get :: "string \<Rightarrow> 'x \<Rightarrow> (goerr + string) \<times> 'x"
  p_set :: "string \<Rightarrow> string \<Rightarrow> dur \<Rightarrow> 'x \<Rightarrow> goerr option \<times> 'x"
  p_setnx :: "string \<Rightarrow> string \<Rightarrow> dur \<Rightarrow> 'x \<Rightarrow> (goerr + bool) \<times> 'x"
  p_del :: "string \<Rightarrow> 'x \<Rightarrow> goerr option \<times> 'x"
  p_incr :: "string \<Rightarrow> 'x \<Rightarrow> (goerr + int) \<times> 'x"
  p_expire :: "string \<Rightarrow> dur \<Rightarrow> 'x \<Rightarrow> goerr option \<times> 'x"
  p_xadd :: "string \<Rightarrow> (string \<times> string) list \<Rightarrow> 'x \<Rightarrow> (goerr + string) \<times> 'x"
  p_xreadgroup :: "string \<Rightarrow> nat \<Rightarrow> bool \<Rightarrow> 'x \<Rightarrow> (goerr + xmessage list) \<times> 'x"
  p_xack :: "string \<Rightarrow> string \<Rightarrow> 'x \<Rightarrow> goerr option \<times> 'x"
  p_xgroup :: "string \<Rightarrow> 'x \<Rightarrow> goerr option \<times> 'x"
  p_ping_db :: "'x \<Rightarrow> goerr option \<times> 'x"
  p_rand :: "nat \<Rightarrow> 'x \<Rightarrow> string option \<times> 'x"

subsection \<open>Counters and the world\<close>

text \<open>
  \<open>internal/metrics/metrics.go\<close>: the counters; the cache counters carry the one label the
  code uses. Of the latency histogram \<open>HTTPRequests\<close> the number of observations is kept.
\<close>

datatype metric =
    CacheHits | CacheMisses | CacheFailOpen | RateLimitFailOpen
  | EventsPublished | EventsDropped | EventsFailed
  | AnalyticsProcessed | AnalyticsDeduped
  | IdempotencyReplays | IdempotencySkipped
  | HTTPRequests

text \<open>An analytics event, as \<open>internal/analytics/recorder.go\<close> has it.\<close>

record event =
  ev_Code :: string
  ev_Referrer :: string
  ev_TS :: time

record 'x world =
  db :: database
  ext :: 'x
  counters :: "metric \<Rightarrow> nat"
  buffer :: "event list"

definition inc_metric :: "metric \<Rightarrow> 'x world \<Rightarrow> 'x world" where
  "inc_metric m w = w\<lparr>counters := (counters w)(m := Suc (counters w m))\<rparr>"

subsection \<open>The atomic actions\<close>

definition ext_act :: "('x \<Rightarrow> 'r \<times> 'x) \<Rightarrow> ('x world, 'r) prog" where
  "ext_act g = act (\<lambda>w. case g (ext w) of (r, x) \<Rightarrow> (r, w\<lparr>ext := x\<rparr>))"

definition Inc :: "metric \<Rightarrow> ('x world, unit) prog" where
  "Inc m = act (\<lambda>w. ((), inc_metric m w))"

definition time_Now :: "'x platform \<Rightarrow> ('x world, time) prog" where
  "time_Now P = ext_act (p_now P)"

definition time_Sleep :: "'x platform \<Rightarrow> dur \<Rightarrow> ('x world, unit) prog" where
  "time_Sleep P d = ext_act (\<lambda>x. ((), p_sleep P d x))"

definition ctx_Err :: "'x platform \<Rightarrow> ('x world, goerr option) prog" where
  "ctx_Err P = ext_act (\<lambda>x. map_prod (map_option Plain) id (p_ctx_err P x))"

definition sql_step :: "'x platform \<Rightarrow> 'r stmt \<Rightarrow> 'x world \<Rightarrow> (goerr + 'r) \<times> 'x world" where
  "sql_step P st w =
     (case p_sql P (ext w) of (f, x) \<Rightarrow>
        (case f of
           Refused m \<Rightarrow> (Inl (Plain m), w\<lparr>ext := x\<rparr>)
         | Executed \<Rightarrow>
             (case st (p_sql_now P x) (db w) of (r, d) \<Rightarrow> (r, w\<lparr>db := d, ext := x\<rparr>))
         | Unacked m \<Rightarrow>
             (case st (p_sql_now P x) (db w) of (r, d) \<Rightarrow> (Inl (Plain m), w\<lparr>db := d, ext := x\<rparr>))))"

definition SQL :: "'x platform \<Rightarrow> 'r stmt \<Rightarrow> ('x world, goerr + 'r) prog" where
  "SQL P st = act (sql_step P st)"

lemma run_ext_act [run_simps]: "run (ext_act g) w = (case g (ext w) of (r, x) \<Rightarrow> (r, w\<lparr>ext := x\<rparr>))"
  by (simp add: ext_act_def run_act)

lemma run_Inc [run_simps]: "run (Inc m) w = ((), inc_metric m w)"
  by (simp add: Inc_def run_act)

lemma run_SQL [run_simps]: "run (SQL P st) w = sql_step P st w"
  by (simp add: SQL_def run_act)

lemma inc_metric_sel [simp]:
  "db (inc_metric m w) = db w" "ext (inc_metric m w) = ext w" "buffer (inc_metric m w) = buffer w"
  "counters (inc_metric m w) k = (if k = m then Suc (counters w k) else counters w k)"
  by (simp_all add: inc_metric_def)

lemmas act_defs = time_Now_def time_Sleep_def ctx_Err_def

lemma sql_step_cases:
  assumes "sql_step P st w = (r, w')"
  obtains (refused) m x where "p_sql P (ext w) = (Refused m, x)" "r = Inl (Plain m)" "w' = w\<lparr>ext := x\<rparr>"
    | (executed) x d where "p_sql P (ext w) = (Executed, x)" "st (p_sql_now P x) (db w) = (r, d)" "w' = w\<lparr>db := d, ext := x\<rparr>"
    | (unacked) m x q d where "p_sql P (ext w) = (Unacked m, x)" "st (p_sql_now P x) (db w) = (q, d)"
        "r = Inl (Plain m)" "w' = w\<lparr>db := d, ext := x\<rparr>"
  using assms unfolding sql_step_def by (auto split: prod.splits fate.splits)

lemma sql_step_frame: "sql_step P st w = (r, w') \<Longrightarrow> counters w' = counters w"
  by (erule sql_step_cases) auto

text \<open>The action-level rules: what a statement and a platform operation keep.\<close>

lemma safe_SQL:
  assumes "\<And>w x fate r d. I w \<Longrightarrow> p_sql P (ext w) = (fate, x) \<Longrightarrow> st (p_sql_now P x) (db w) = (r, d)
      \<Longrightarrow> Q r \<and> I (w\<lparr>db := d, ext := x\<rparr>)"
    and "\<And>m. Q (Inl (Plain m))"
    and "\<And>w x fate. I w \<Longrightarrow> p_sql P (ext w) = (fate, x) \<Longrightarrow> I (w\<lparr>ext := x\<rparr>)"
  shows "safe I Q (SQL P st)"
  unfolding SQL_def
proof (rule safe_act)
  fix w a w'
  assume "I w" and "sql_step P st w = (a, w')"
  from this(2,1) show "Q a \<and> I w'"
    by (cases rule: sql_step_cases) (use assms in blast)+
qed

lemma safe_ext_act:
  assumes "\<And>w r x. I w \<Longrightarrow> g (ext w) = (r, x) \<Longrightarrow> Q r \<and> I (w\<lparr>ext := x\<rparr>)"
  shows "safe I Q (ext_act g)"
  unfolding ext_act_def by (rule safe_act) (auto split: prod.splits simp: assms)

lemma safe_Inc: "(\<And>w. I w \<Longrightarrow> I (inc_metric m w)) \<Longrightarrow> Q () \<Longrightarrow> safe I Q (Inc m)"
  unfolding Inc_def by (rule safe_act) auto

subsection \<open>Keys with a deadline\<close>

text \<open>
  The abstract view of the string keys of a Redis server: each key's value and the instant
  at which it disappears, if any. \<open>live\<close> is what a reader sees at time \<open>t\<close>.
\<close>

type_synonym kv = "string \<Rightarrow> (string \<times> time option) option"

definition live :: "kv \<Rightarrow> time \<Rightarrow> string \<Rightarrow> string option" where
  "live m t k =
     (case m k of
        None \<Rightarrow> None
      | Some (v, None) \<Rightarrow> Some v
      | Some (v, Some dl) \<Rightarrow> if t < dl then Some v else None)"

lemma live_upd_same [simp]: "live (m(k \<mapsto> (v, Some dl))) t k = (if t < dl then Some v else None)"
  by (simp add: live_def)

lemma live_upd_other [simp]: "k' \<noteq> k \<Longrightarrow> live (m(k := e)) t k' = live m t k'"
  by (simp add: live_def)

lemma live_del_same [simp]: "live (m(k := None)) t k = None"
  by (simp add: live_def)

lemma live_Some_raw: "live m t k = Some v \<Longrightarrow> \<exists>dl. m k = Some (v, dl)"
  by (auto simp: live_def split: option.splits if_splits)

text \<open>A value set with a time to live: Redis keeps deadlines in milliseconds.\<close>

definition set_with :: "kv \<Rightarrow> string \<Rightarrow> string \<Rightarrow> dur \<Rightarrow> time \<Rightarrow> time \<Rightarrow> kv \<Rightarrow> bool" where
  "set_with m k v ttl t t' m' \<longleftrightarrow>
     (\<exists>dl. t + ttl - nano_ms \<le> dl \<and> dl \<le> t' + max ttl nano_ms \<and> m' = m(k \<mapsto> (v, Some dl)))"

text \<open>What INCR does when it answers \<open>n\<close>.\<close>

definition incremented :: "kv \<Rightarrow> time \<Rightarrow> string \<Rightarrow> int \<Rightarrow> kv \<Rightarrow> bool" where
  "incremented m now k n m' \<longleftrightarrow>
     (case live m now k of
        None \<Rightarrow> n = 1 \<and> m' = m(k \<mapsto> (Itoa 1, None))
      | Some v \<Rightarrow> ParseInt v = Some (n - 1) \<and> m' = m(k \<mapsto> (Itoa n, snd (the (m k)))))"

text \<open>
  INCR run once or, when the client did not get the answer and sent the command again, several
  times between \<open>t\<close> and \<open>t'\<close>; the answer is that of the last run.
\<close>

inductive incr_runs :: "kv \<Rightarrow> time \<Rightarrow> time \<Rightarrow> string \<Rightarrow> int \<Rightarrow> kv \<Rightarrow> bool" where
  once: "t \<le> u \<Longrightarrow> u \<le> t' \<Longrightarrow> incremented m u k n m' \<Longrightarrow> incr_runs m t t' k n m'"
| again: "t \<le> u \<Longrightarrow> u \<le> t' \<Longrightarrow> incremented m u k j m1 \<Longrightarrow> incr_runs m1 u t' k n m' \<Longrightarrow> incr_runs m t t' k n m'"

text \<open>What EXPIRE does to a key that exists.\<close>

definition deadline_set :: "kv \<Rightarrow> string \<Rightarrow> dur \<Rightarrow> time \<Rightarrow> time \<Rightarrow> kv \<Rightarrow> bool" where
  "deadline_set m k ttl t t' m' \<longleftrightarrow>
     (\<exists>v dl. live m t' k = Some v \<and> t + ttl \<le> dl \<and> dl \<le> t' + ttl \<and> m' = m(k \<mapsto> (v, Some dl)))"

subsection \<open>The laws of the server\<close>

text \<open>
  \<open>kv_server\<close> collects the documented behaviour of the Redis commands and of the clock
  that the service relies on: \<open>raw\<close> is the server's key space and \<open>tick\<close> the current
  instant. GET answers with the live value or \<open>redis.Nil\<close>; SET, SET NX and DEL that
  report success have been applied, and one that reports an error may or may not have been;
  INCR adds one to the decimal in its key, or starts at one, and keeps the deadline; EXPIRE
  sets the deadline of a key that exists; each touches one key. Nothing else touches the key
  space; time does not run backwards.

  Both clients repeat a command whose answer they did not get (\<open>MaxRetries\<close> in the two main
  files). So an INCR that answers has run at least once, one that reports an error any number of
  times, and a SET NX that answers false may have set the key itself, in a run whose answer was
  lost.
\<close>

locale kv_server =
  fixes P :: "'x platform" and raw :: "'x \<Rightarrow> kv" and tick :: "'x \<Rightarrow> time"
  assumes now_law: "p_now P x = (t, x') \<Longrightarrow> t = tick x' \<and> raw x' = raw x \<and> tick x \<le> tick x'"
    and sleep_law: "raw (p_sleep P d x) = raw x \<and> tick x \<le> tick (p_sleep P d x)"
    and ctx_law: "p_ctx_err P x = (c, x') \<Longrightarrow> raw x' = raw x \<and> tick x \<le> tick x'"
    and sql_law: "p_sql P x = (f, x') \<Longrightarrow> raw x' = raw x \<and> tick x \<le> tick x'"
    and get_law: "p_get P k x = (r, x') \<Longrightarrow> raw x' = raw x \<and> tick x \<le> tick x'
      \<and> (r = Inl (Sentinel RedisNil) \<longrightarrow> live (raw x) (tick x') k = None)
      \<and> (\<forall>v. r = Inr v \<longrightarrow> live (raw x) (tick x') k = Some v)"
    and set_law: "p_set P k v ttl x = (e, x') \<Longrightarrow> tick x \<le> tick x'
      \<and> (set_with (raw x) k v ttl (tick x) (tick x') (raw x') \<or> e \<noteq> None \<and> raw x' = raw x)"
    and setnx_law: "p_setnx P k v ttl x = (rb, x') \<Longrightarrow> tick x \<le> tick x'
      \<and> (case rb of
           Inr b \<Rightarrow> if b then live (raw x) (tick x') k = None \<and> set_with (raw x) k v ttl (tick x) (tick x') (raw x')
                     else live (raw x) (tick x') k \<noteq> None \<and> raw x' = raw x
                       \<or> live (raw x) (tick x') k = None \<and> set_with (raw x) k v ttl (tick x) (tick x') (raw x')
         | Inl err \<Rightarrow> raw x' = raw x
             \<or> live (raw x) (tick x') k = None \<and> set_with (raw x) k v ttl (tick x) (tick x') (raw x'))"
    and del_law: "p_del P k x = (e, x') \<Longrightarrow> tick x \<le> tick x'
      \<and> (raw x' = (raw x)(k := None) \<or> e \<noteq> None \<and> raw x' = raw x)"
    and incr_law: "p_incr P k x = (ri, x') \<Longrightarrow> tick x \<le> tick x' \<and> (\<forall>k'. k' \<noteq> k \<longrightarrow> raw x' k' = raw x k')
      \<and> (case ri of
           Inr n \<Rightarrow> incr_runs (raw x) (tick x) (tick x') k n (raw x')
         | Inl err \<Rightarrow> raw x' = raw x \<or> (\<exists>n. incr_runs (raw x) (tick x) (tick x') k n (raw x')))"
    and expire_law: "p_expire P k ttl x = (e, x') \<Longrightarrow> tick x \<le> tick x' \<and> (\<forall>k'. k' \<noteq> k \<longrightarrow> raw x' k' = raw x k')
      \<and> (raw x' = raw x \<or> deadline_set (raw x) k ttl (tick x) (tick x') (raw x'))"
    and xadd_law: "p_xadd P s vs x = (rs, x') \<Longrightarrow> tick x \<le> tick x' \<and> raw x' = raw x"
    and xread_law: "p_xreadgroup P s n b x = (ms, x') \<Longrightarrow> tick x \<le> tick x' \<and> raw x' = raw x"
    and xack_law: "p_xack P s mid x = (e, x') \<Longrightarrow> tick x \<le> tick x' \<and> raw x' = raw x"
    and xgroup_law: "p_xgroup P s x = (e, x') \<Longrightarrow> tick x \<le> tick x' \<and> raw x' = raw x"
    and ping_law: "p_ping_db P x = (e, x') \<Longrightarrow> tick x \<le> tick x' \<and> raw x' = raw x"
    and rand_law: "p_rand P i x = (bs, x') \<Longrightarrow> tick x \<le> tick x' \<and> raw x' = raw x"

text \<open>
  \<open>kv_server_up\<close> adds states, closed under every operation, in which nothing fails: each
  statement is executed, each Redis command succeeds, the request is not cancelled.
\<close>

locale kv_server_up = kv_server P raw tick
  for P :: "'x platform" and raw :: "'x \<Rightarrow> kv" and tick :: "'x \<Rightarrow> time" +
  fixes up :: "'x \<Rightarrow> bool"
  assumes now_up: "up x \<Longrightarrow> up (snd (p_now P x))"
    and sleep_up: "up x \<Longrightarrow> up (p_sleep P d x)"
    and ctx_up: "up x \<Longrightarrow> up (snd (p_ctx_err P x)) \<and> fst (p_ctx_err P x) = None"
    and sql_up: "up x \<Longrightarrow> up (snd (p_sql P x)) \<and> fst (p_sql P x) = Executed"
    and get_up: "up x \<Longrightarrow> up (snd (p_get P k x)) \<and> (\<forall>e. fst (p_get P k x) = Inl e \<longrightarrow> e = Sentinel RedisNil)"
    and set_up: "up x \<Longrightarrow> up (snd (p_set P k v ttl x)) \<and> (0 < ttl \<longrightarrow> fst (p_set P k v ttl x) = None)"
    and setnx_up: "up x \<Longrightarrow> up (snd (p_setnx P k v ttl x)) \<and> (\<exists>b. fst (p_setnx P k v ttl x) = Inr b)"
    and del_up: "up x \<Longrightarrow> up (snd (p_del P k x)) \<and> fst (p_del P k x) = None"
    and incr_up: "up x \<Longrightarrow> up (snd (p_incr P k x))
      \<and> ((\<forall>v t. live (raw x) t k = Some v \<longrightarrow> (\<exists>m. v = Itoa m \<and> 0 \<le> m \<and> m < max_int64)) \<longrightarrow> (\<exists>n. fst (p_incr P k x) = Inr n))"
    and expire_up: "up x \<Longrightarrow> up (snd (p_expire P k ttl x)) \<and> fst (p_expire P k ttl x) = None"
    and xadd_up: "up x \<Longrightarrow> up (snd (p_xadd P s vs x)) \<and> (\<exists>i. fst (p_xadd P s vs x) = Inr i)"
    and xack_up: "up x \<Longrightarrow> up (snd (p_xack P s mid x)) \<and> fst (p_xack P s mid x) = None"

end
