(* ===== verification/Store_Iface.thy ===== *)
theory Store_Iface
imports Platform
begin

section \<open>The interface URLStore\<close>

text \<open>
  \<open>URLStore\<close> of \<open>internal/service/url.go\<close>: the operations the service calls on its
  store, as a record of programs, and the contract between the two as a locale. The abstract
  state of a store has two parts: \<open>coded\<close> maps a short code to its URL, \<open>pending\<close> holds
  the rows that were inserted without a code and wait for \<open>SetCode\<close>. Every operation may
  fail; the contract says what a success means, what the two errors the service tells apart
  (\<open>ErrNotFound\<close>, \<open>ErrConflict\<close>) mean, and that any other failure leaves the store
  either untouched or with the operation applied.
\<close>

record 'w url_store =
  Create :: "string \<Rightarrow> time option \<Rightarrow> ('w, goerr + int) prog"
  CreateWithCode :: "string \<Rightarrow> string \<Rightarrow> time option \<Rightarrow> ('w, goerr + int) prog"
  SetCode :: "int \<Rightarrow> string \<Rightarrow> ('w, goerr + unit) prog"
  GetByCode :: "string \<Rightarrow> ('w, goerr + url) prog"
  DeleteByCode :: "string \<Rightarrow> ('w, goerr + unit) prog"
  StatsByURLID :: "int \<Rightarrow> ('w, goerr + stats_summary) prog"

type_synonym coded_map = "string \<Rightarrow> url option"
type_synonym pending_map = "int \<Rightarrow> url option"

definition fresh_url :: "int \<Rightarrow> string \<Rightarrow> string \<Rightarrow> time option \<Rightarrow> time \<Rightarrow> url" where
  "fresh_url i c l e t = \<lparr>ID = i, Code = c, LongURL = l, ExpiresAt = map_option pg_ts e, CreatedAt = t\<rparr>"

lemma fresh_url_sel [simp]:
  "ID (fresh_url i c l e t) = i" "Code (fresh_url i c l e t) = c" "LongURL (fresh_url i c l e t) = l"
  "ExpiresAt (fresh_url i c l e t) = map_option pg_ts e" "CreatedAt (fresh_url i c l e t) = t"
  by (simp_all add: fresh_url_def)

text \<open>The sentinels a store may put into an error: never one of the service's own.\<close>

definition store_error :: "goerr \<Rightarrow> bool" where
  "store_error err \<longleftrightarrow> (\<forall>s. errors_Is err s \<longrightarrow> s = RepoErrNotFound \<or> s = RepoErrConflict)"

locale url_store_laws =
  fixes st :: "'w url_store"
    and coded :: "'w \<Rightarrow> coded_map" and pending :: "'w \<Rightarrow> pending_map" and wf :: "'w \<Rightarrow> bool"
  assumes coded_code: "wf w \<Longrightarrow> coded w c = Some u \<Longrightarrow> Code u = c"
    and create_law: "wf w \<Longrightarrow> run (Create st l e) w = (r, w') \<Longrightarrow> wf w' \<and> coded w' = coded w
      \<and> (\<forall>i. r = Inr i \<longrightarrow> (\<exists>t. pending w' i = Some (fresh_url i '''' l e t)))"
    and with_code_law: "wf w \<Longrightarrow> run (CreateWithCode st c l e) w = (r, w') \<Longrightarrow> wf w'
      \<and> (case r of
           Inr i \<Rightarrow> coded w c = None \<and> (\<exists>t. coded w' = (coded w)(c \<mapsto> fresh_url i c l e t))
         | Inl err \<Rightarrow>
             if errors_Is err RepoErrConflict then coded w c \<noteq> None \<and> coded w' = coded w
             else coded w' = coded w \<or> coded w c = None \<and> (\<exists>i t. coded w' = (coded w)(c \<mapsto> fresh_url i c l e t)))"
    and set_code_law: "wf w \<Longrightarrow> pending w i = Some u \<Longrightarrow> run (SetCode st i c) w = (z, w') \<Longrightarrow> wf w'
      \<and> (case z of
           Inr _ \<Rightarrow> coded w c = None \<and> coded w' = (coded w)(c \<mapsto> u\<lparr>Code := c\<rparr>)
         | Inl err \<Rightarrow>
             if errors_Is err RepoErrConflict then coded w c \<noteq> None \<and> coded w' = coded w
             else coded w' = coded w \<or> coded w c = None \<and> coded w' = (coded w)(c \<mapsto> u\<lparr>Code := c\<rparr>))"
    and get_law: "wf w \<Longrightarrow> run (GetByCode st c) w = (q, w') \<Longrightarrow> wf w' \<and> coded w' = coded w
      \<and> (case q of
           Inr u \<Rightarrow> coded w c = Some u
         | Inl err \<Rightarrow> errors_Is err RepoErrNotFound \<longrightarrow> coded w c = None)"
    and delete_law: "wf w \<Longrightarrow> run (DeleteByCode st c) w = (z, w') \<Longrightarrow> wf w'
      \<and> (case z of
           Inr _ \<Rightarrow> coded w c \<noteq> None \<and> coded w' = (coded w)(c := None)
         | Inl err \<Rightarrow>
             if errors_Is err RepoErrNotFound then coded w c = None \<and> coded w' = coded w
             else coded w' = coded w \<or> coded w' = (coded w)(c := None))"
    and stats_law: "wf w \<Longrightarrow> run (StatsByURLID st i) w = (s, w') \<Longrightarrow> wf w' \<and> coded w' = coded w"
    and create_error: "run (Create st l e) w = (Inl err, w') \<Longrightarrow> store_error err"
    and with_code_error: "run (CreateWithCode st c l e) w = (Inl err, w') \<Longrightarrow> store_error err"
    and set_code_error: "run (SetCode st i c) w = (Inl err, w') \<Longrightarrow> store_error err"
    and get_error: "run (GetByCode st c) w = (Inl err, w') \<Longrightarrow> store_error err"
    and delete_error: "run (DeleteByCode st c) w = (Inl err, w') \<Longrightarrow> store_error err"
    and stats_error: "run (StatsByURLID st i) w = (Inl err, w') \<Longrightarrow> store_error err"

end
