(* ===== verification/Url_Repo.thy ===== *)
theory Url_Repo
imports Store_Iface
begin

section \<open>The PostgreSQL repository\<close>

text \<open>
  \<open>internal/repository/url_repo.go\<close> and \<open>stats_repo.go\<close>: every method is one SQL
  statement (three for the statistics) and the translation of its error. The record
  \<open>URLRepository\<close> puts them behind the interface \<open>URLStore\<close>; the interpretation at the
  end shows that it keeps the interface's contract on every platform.
\<close>

definition isUniqueViolation :: "goerr \<Rightarrow> bool" where
  "isUniqueViolation err \<longleftrightarrow> pg_code err = Some ''23505''"

definition repo_Create :: "'x platform \<Rightarrow> string \<Rightarrow> time option \<Rightarrow> ('x world, goerr + int) prog" where
  "repo_Create P longURL expiresAt =
     bindp (SQL P (insert_url None longURL expiresAt)) (\<lambda>r.
       case r of
         Inl err \<Rightarrow> Ret (Inl (WrapPre ''insert url'' err))
       | Inr i \<Rightarrow> Ret (Inr i))"

definition repo_CreateWithCode ::
  "'x platform \<Rightarrow> string \<Rightarrow> string \<Rightarrow> time option \<Rightarrow> ('x world, goerr + int) prog" where
  "repo_CreateWithCode P code longURL expiresAt =
     bindp (SQL P (insert_url (Some code) longURL expiresAt)) (\<lambda>r.
       case r of
         Inl err \<Rightarrow>
           if isUniqueViolation err
           then Ret (Inl (WrapSuf (Sentinel RepoErrConflict) (''code '' @ go_quote code)))
           else Ret (Inl (WrapPre ''insert url with code'' err))
       | Inr i \<Rightarrow> Ret (Inr i))"

definition repo_SetCode :: "'x platform \<Rightarrow> int \<Rightarrow> string \<Rightarrow> ('x world, goerr + unit) prog" where
  "repo_SetCode P i code =
     bindp (SQL P (update_url_code code i)) (\<lambda>r.
       case r of
         Inl err \<Rightarrow>
           if isUniqueViolation err
           then Ret (Inl (WrapSuf (Sentinel RepoErrConflict) (''code '' @ go_quote code)))
           else Ret (Inl (WrapPre ''set code'' err))
       | Inr n \<Rightarrow>
           if n = 0 then Ret (Inl (WrapSuf (Sentinel RepoErrNotFound) (''id '' @ Itoa i)))
           else Ret (Inr ()))"

definition repo_GetByCode :: "'x platform \<Rightarrow> string \<Rightarrow> ('x world, goerr + url) prog" where
  "repo_GetByCode P code =
     bindp (SQL P (select_url code)) (\<lambda>r.
       case r of
         Inl err \<Rightarrow>
           if errors_Is err PgxErrNoRows then Ret (Inl (Sentinel RepoErrNotFound))
           else Ret (Inl (WrapPre ''get url by code'' err))
       | Inr u \<Rightarrow> Ret (Inr u))"

definition repo_DeleteByCode :: "'x platform \<Rightarrow> string \<Rightarrow> ('x world, goerr + unit) prog" where
  "repo_DeleteByCode P code =
     bindp (SQL P (delete_url code)) (\<lambda>r.
       case r of
         Inl err \<Rightarrow> Ret (Inl (WrapPre ''delete url'' err))
       | Inr n \<Rightarrow> if n = 0 then Ret (Inl (Sentinel RepoErrNotFound)) else Ret (Inr ()))"

subsection \<open>Statistics\<close>

text \<open>
  The three queries of \<open>StatsByURLID\<close>. PostgreSQL leaves the order of equal sort keys
  open; the model keeps the order of the table. A sum that leaves \<open>int64\<close> fails to scan.
  A connection that fails while rows arrive gives the error of \<open>rows.Err()\<close> in the code and
  that of \<open>Query\<close> here: the two differ only in the text put before the cause.
\<close>

definition dim_rows :: "database \<Rightarrow> int \<Rightarrow> string \<Rightarrow> daily_row list" where
  "dim_rows d i dim = filter (\<lambda>a. d_url_id a = i \<and> d_dim a = dim) (analytics_daily d)"

definition scan_int64 :: "int \<Rightarrow> goerr + int" where
  "scan_int64 n = (if n > max_int64 then Inl (Plain ''cannot scan numeric'') else Inr n)"

definition select_total :: "int \<Rightarrow> int stmt" where
  "select_total i now d = (scan_int64 (sum_list (map d_count (dim_rows d i ''total''))), d)"

definition select_daily :: "int \<Rightarrow> daily_count list stmt" where
  "select_daily i now d =
     (Inr (map (\<lambda>a. \<lparr>Day = d_day a, Clicks = d_count a\<rparr>)
            (sort_key d_day (dim_rows d i ''total''))), d)"

definition value_total :: "daily_row list \<Rightarrow> string \<Rightarrow> int" where
  "value_total as v = sum_list (map d_count (filter (\<lambda>a. d_value a = v) as))"

definition ranked_referrers :: "daily_row list \<Rightarrow> (string \<times> int) list" where
  "ranked_referrers as = take 10 (sort_key (\<lambda>g. - snd g)
     (map (\<lambda>v. (v, value_total as v)) (remdups (map d_value as))))"

definition select_referrers :: "int \<Rightarrow> (string \<times> int) list stmt" where
  "select_referrers i now d = (Inr (ranked_referrers (dim_rows d i ''referrer'')), d)"

definition scan_referrers :: "(string \<times> int) list \<Rightarrow> goerr + referrer_count list" where
  "scan_referrers gs =
     (if list_ex (\<lambda>(v, n). n > max_int64) gs then Inl (Plain ''cannot scan numeric'')
      else Inr (map (\<lambda>(v, n). \<lparr>Referrer = v, RefClicks = n\<rparr>) gs))"

definition repo_StatsByURLID :: "'x platform \<Rightarrow> int \<Rightarrow> ('x world, goerr + stats_summary) prog" where
  "repo_StatsByURLID P i =
     bindp (SQL P (select_total i)) (\<lambda>r1.
       case r1 of
         Inl err \<Rightarrow> Ret (Inl (WrapPre ''sum total clicks'' err))
       | Inr clicks \<Rightarrow>
           bindp (SQL P (select_daily i)) (\<lambda>r2.
             case r2 of
               Inl err \<Rightarrow> Ret (Inl (WrapPre ''query daily clicks'' err))
             | Inr daily \<Rightarrow>
                 bindp (SQL P (select_referrers i)) (\<lambda>r3.
                   case r3 of
                     Inl err \<Rightarrow> Ret (Inl (WrapPre ''query referrers'' err))
                   | Inr gs \<Rightarrow>
                       (case scan_referrers gs of
                          Inl err \<Rightarrow> Ret (Inl (WrapPre ''scan referrer'' err))
                        | Inr refs \<Rightarrow>
                            Ret (Inr \<lparr>TotalClicks = clicks, Daily = daily, TopReferrers = refs\<rparr>)))))"

definition URLRepository :: "'x platform \<Rightarrow> 'x world url_store" where
  "URLRepository P = \<lparr>
     Create = repo_Create P,
     CreateWithCode = repo_CreateWithCode P,
     SetCode = repo_SetCode P,
     GetByCode = repo_GetByCode P,
     DeleteByCode = repo_DeleteByCode P,
     StatsByURLID = repo_StatsByURLID P\<rparr>"

lemma URLRepository_sel [simp]:
  "Create (URLRepository P) = repo_Create P"
  "CreateWithCode (URLRepository P) = repo_CreateWithCode P"
  "SetCode (URLRepository P) = repo_SetCode P"
  "GetByCode (URLRepository P) = repo_GetByCode P"
  "DeleteByCode (URLRepository P) = repo_DeleteByCode P"
  "StatsByURLID (URLRepository P) = repo_StatsByURLID P"
  by (simp_all add: URLRepository_def)

lemmas repo_defs = repo_Create_def repo_CreateWithCode_def repo_SetCode_def repo_GetByCode_def
  repo_DeleteByCode_def repo_StatsByURLID_def

subsection \<open>The abstract state of the repository\<close>

definition db_coded :: "database \<Rightarrow> coded_map" where
  "db_coded d c = lookup_url d c"

definition db_pending :: "database \<Rightarrow> pending_map" where
  "db_pending d i =
     map_option (row_url '''') (find (\<lambda>r. r_id r = i \<and> r_code r = None) (urls d))"

lemma find_append: "find Q (xs @ ys) = (case find Q xs of None \<Rightarrow> find Q ys | Some x \<Rightarrow> Some x)"
  by (induction xs) auto

lemma db_coded_code: "db_coded d c = Some u \<Longrightarrow> Code u = c"
  by (auto simp: db_coded_def lookup_url_def row_url_def)

lemma db_coded_next_id [simp]: "db_coded (d\<lparr>next_id := n\<rparr>) = db_coded d"
  by (simp add: db_coded_def lookup_url_def fun_eq_iff)

lemma db_coded_snoc:
  "db_coded (d\<lparr>next_id := n, urls := urls d @ [r]\<rparr>) c =
     (case db_coded d c of Some u \<Rightarrow> Some u
      | None \<Rightarrow> if has_code c r then Some (row_url c r) else None)"
  by (simp add: db_coded_def lookup_url_def find_append split: option.splits)

lemma db_coded_None: "db_coded d c = None \<longleftrightarrow> c \<notin> set (codes d)"
  by (simp add: db_coded_def lookup_None)

lemma row_url_new_row: "row_url c (new_row i co l e t) = fresh_url i c l e (pg_ts t)"
  by (simp add: row_url_def fresh_url_def)

lemma insert_coded:
  assumes "insert_url (Some c) l e now d = (Inr i, d')"
  shows "db_coded d c = None" "db_coded d' = (db_coded d)(c \<mapsto> fresh_url i c l e (pg_ts now))"
proof -
  note h = insert_url_Inr [OF assms]
  show n: "db_coded d c = None" using h(4) by (simp add: db_coded_None new_code_ok_def)
  show "db_coded d' = (db_coded d)(c \<mapsto> fresh_url i c l e (pg_ts now))"
    unfolding h(5) using n h(1)
    by (auto simp: fun_eq_iff db_coded_snoc has_code_def row_url_new_row split: option.splits)
qed

lemma insert_uncoded:
  assumes "insert_url None l e now d = (Inr i, d')" "urls_inv d"
  shows "db_coded d' = db_coded d" "db_pending d' i = Some (fresh_url i '''' l e (pg_ts now))"
proof -
  note h = insert_url_Inr [OF assms(1)]
  show "db_coded d' = db_coded d"
    unfolding h(5) by (auto simp: fun_eq_iff db_coded_snoc has_code_def split: option.splits)
  have "find (\<lambda>r. r_id r = i \<and> r_code r = None) (urls d) = None"
    using assms(2) h(1) by (auto simp: find_None_iff_all urls_inv_def)
  then show "db_pending d' i = Some (fresh_url i '''' l e (pg_ts now))"
    using h(1,5) by (simp add: db_pending_def find_append row_url_new_row)
qed

lemma insert_failed: "insert_url co l e now d = (Inl err, d') \<Longrightarrow> db_coded d' = db_coded d"
  by (auto dest: insert_url_Inl)

lemma insert_conflict:
  "insert_url (Some c) l e now d = (Inl err, d') \<Longrightarrow> isUniqueViolation err \<Longrightarrow> db_coded d c \<noteq> None"
  unfolding insert_url_def Let_def list_ex_has_code
  by (auto simp: isUniqueViolation_def db_coded_None split: if_splits)

lemma update_coded:
  assumes inv: "urls_inv d" and pend: "db_pending d i = Some u"
    and upd: "update_url_code c i now d = (r, d')"
  shows "(r = Inr 1 \<and> db_coded d c = None \<and> db_coded d' = (db_coded d)(c \<mapsto> u\<lparr>Code := c\<rparr>))
    \<or> (\<exists>e. r = Inl (PgError e) \<and> d' = d \<and> (e = ''23505'' \<longrightarrow> db_coded d c \<noteq> None))"
proof -
  from pend obtain row where row: "row \<in> set (urls d)" "r_id row = i" "r_code row = None" "u = row_url '''' row"
    by (auto simp: db_pending_def dest!: find_Some_D)
  have uniq: "q = row" if "q \<in> set (urls d)" "r_id q = i" for q
    using inv row(1,2) that by (auto simp: urls_inv_def ids_def distinct_map inj_on_def)
  show ?thesis
  proof (cases "d' = d \<and> (\<exists>e. r = Inl e)")
    case True
    with upd row show ?thesis
      by (auto simp: update_url_code_def db_coded_None codes_set list_ex_iff has_code_def split: if_splits)
  next
    case False
    with upd row(1,2) have r: "r = Inr 1" and d': "d' = d\<lparr>urls := map (set_row_code i c) (urls d)\<rparr>"
      and no: "\<forall>q \<in> set (urls d). has_code c q \<longrightarrow> r_id q = i"
      by (auto simp: update_url_code_def list_ex_False_iff split: if_splits)
    have nc: "\<not> has_code c q" if "q \<in> set (urls d)" for q
      using no uniq [OF that] that row(3) by (auto simp: has_code_def)
    have "db_coded d' k = ((db_coded d)(c \<mapsto> u\<lparr>Code := c\<rparr>)) k" for k
    proof -
      have "find (has_code k) (map (set_row_code i c) qs) =
          (if k = c then map_option (set_row_code i c) (find (\<lambda>q. q = row) qs) else find (has_code k) qs)"
        if "set qs \<subseteq> set (urls d)" for qs
        using that
      proof (induction qs)
        case (Cons q qs)
        then have q: "q \<in> set (urls d)" by simp
        have "has_code k (set_row_code i c q) = (if k = c then q = row else has_code k q)"
          using uniq [OF q] nc [OF q] row by (auto simp: has_code_def)
        moreover have "k \<noteq> c \<Longrightarrow> has_code k q \<Longrightarrow> set_row_code i c q = q"
          using uniq [OF q] row(3) by (auto simp: set_row_code_def has_code_def)
        ultimately show ?case using Cons by (auto simp: row(1))
      qed simp
      from this [of "urls d"] show ?thesis
        using row find_eq_self [OF row(1)]
        by (auto simp: d' db_coded_def lookup_url_def row_url_def)
    qed
    then show ?thesis using r nc by (auto simp: db_coded_None codes_set fun_eq_iff)
  qed
qed

lemma select_coded: "select_url c now d = (Inr u, d') \<Longrightarrow> db_coded d c = Some u"
  by (auto simp: select_url_def db_coded_def lookup_url_def split: if_splits option.splits)

lemma select_no_rows:
  "select_url c now d = (Inl err, d') \<Longrightarrow> errors_Is err PgxErrNoRows \<Longrightarrow> db_coded d c = None"
  by (auto simp: select_url_def db_coded_def lookup_url_def split: if_splits option.splits)

lemma delete_coded:
  assumes "delete_url c now d = (Inr n, d')"
  shows "db_coded d' = (db_coded d)(c := None)" "n = 0 \<longleftrightarrow> db_coded d c = None"
proof -
  have n: "n = int (length (filter (has_code c) (urls d)))"
    and u: "urls d' = filter (\<lambda>r. \<not> has_code c r) (urls d)"
    using assms by (auto simp: delete_url_def Let_def split: if_splits)
  show "n = 0 \<longleftrightarrow> db_coded d c = None"
    unfolding n db_coded_None codes_set by (auto simp: filter_empty_conv)
  have "find (has_code k) (filter (\<lambda>r. \<not> has_code c r) qs) = (if k = c then None else find (has_code k) qs)" for k qs
    by (induction qs) (auto simp: has_code_def [abs_def])
  then show "db_coded d' = (db_coded d)(c := None)"
    by (auto simp: db_coded_def lookup_url_def u fun_eq_iff)
qed

lemma delete_failed: "delete_url c now d = (Inl err, d') \<Longrightarrow> d' = d \<and> \<not> errors_Is err s"
  by (auto simp: delete_url_def Let_def split: if_splits)


subsection \<open>The repository keeps the contract\<close>

lemma pg_plain [simp]: "\<not> isUniqueViolation (Plain m)"
  by (simp add: isUniqueViolation_def)

lemma store_error_simps [simp]:
  "store_error (WrapPre m e) = store_error e"
  "store_error (WrapSuf e m) = store_error e"
  "store_error (PgError c)" "store_error (Plain m)" "store_error (Panicked m)"
  "store_error (Sentinel s) = (s = RepoErrNotFound \<or> s = RepoErrConflict)"
  by (auto simp: store_error_def)

text \<open>The errors a statement of this schema can answer with.\<close>

definition pg_err :: "goerr \<Rightarrow> bool" where
  "pg_err e \<longleftrightarrow> (\<exists>c. e = PgError c) \<or> (\<exists>m. e = Plain m)"

lemma pg_err_store [simp]: "pg_err e \<Longrightarrow> store_error e"
  by (auto simp: pg_err_def)

lemma pg_err_not_sentinel [simp]: "pg_err e \<Longrightarrow> \<not> errors_Is e s"
  by (auto simp: pg_err_def)

lemma pg_err_simps [simp]: "pg_err (PgError c)" "pg_err (Plain m)" "\<not> pg_err (Sentinel s)"
  by (auto simp: pg_err_def)

lemma insert_err: "insert_url co l e now d = (Inl err, d') \<Longrightarrow> pg_err err"
  by (auto simp: insert_url_def Let_def split: if_splits)

lemma update_err: "update_url_code c i now d = (Inl err, d') \<Longrightarrow> pg_err err"
  by (auto simp: update_url_code_def split: if_splits)

lemma delete_err: "delete_url c now d = (Inl err, d') \<Longrightarrow> pg_err err"
  by (auto simp: delete_url_def Let_def split: if_splits)

lemma select_err: "select_url c now d = (Inl err, d') \<Longrightarrow> pg_err err \<or> err = Sentinel PgxErrNoRows"
  by (auto simp: select_url_def split: if_splits option.splits)

lemma select_stats_frame:
  "select_total i now d = (r1, d') \<Longrightarrow> d' = d"
  "select_daily i now d = (r2, d') \<Longrightarrow> d' = d"
  "select_referrers i now d = (r3, d') \<Longrightarrow> d' = d"
  by (auto simp: select_total_def select_daily_def select_referrers_def Let_def)

lemma select_stats_err:
  "select_total i now d = (Inl err, d') \<Longrightarrow> pg_err err"
  "select_daily i now d = (Inl err, d') \<Longrightarrow> pg_err err"
  "select_referrers i now d = (Inl err, d') \<Longrightarrow> pg_err err"
  by (auto simp: select_total_def select_daily_def select_referrers_def scan_int64_def Let_def split: if_splits)

lemma scan_err: "scan_referrers gs = Inl err \<Longrightarrow> pg_err err"
  by (auto simp: scan_referrers_def split: if_splits)

lemma sql_step_err: "sql_step P st w = (Inl err, w') \<Longrightarrow> (\<And>now d err d'. st now d = (Inl err, d') \<Longrightarrow> pg_err err) \<Longrightarrow> pg_err err"
  by (erule sql_step_cases) auto

lemma sql_step_read:
  assumes "sql_step P st w = (r, w')"
    and "\<And>now d r d'. st now d = (r, d') \<Longrightarrow> d' = d \<and> (\<forall>err. r = Inl err \<longrightarrow> pg_err err)"
  shows "db w' = db w \<and> (\<forall>err. r = Inl err \<longrightarrow> pg_err err)"
  using assms(1) by (rule sql_step_cases) (use assms(2) in \<open>force\<close>)+

lemma total_step: "sql_step P (select_total i) w = (r, w') \<Longrightarrow> db w' = db w \<and> (\<forall>err. r = Inl err \<longrightarrow> pg_err err)"
  by (erule sql_step_read) (use select_stats_frame(1) select_stats_err(1) in blast)

lemma daily_step: "sql_step P (select_daily i) w = (r, w') \<Longrightarrow> db w' = db w \<and> (\<forall>err. r = Inl err \<longrightarrow> pg_err err)"
  by (erule sql_step_read) (use select_stats_frame(2) select_stats_err(2) in blast)

lemma referrers_step: "sql_step P (select_referrers i) w = (r, w') \<Longrightarrow> db w' = db w \<and> (\<forall>err. r = Inl err \<longrightarrow> pg_err err)"
  by (erule sql_step_read) (use select_stats_frame(3) select_stats_err(3) in blast)

lemmas stats_step = total_step daily_step referrers_step

lemma repo_stats_run:
  assumes "run (repo_StatsByURLID P i) w = (s, w')"
  shows "db w' = db w \<and> (\<forall>err. s = Inl err \<longrightarrow> store_error err)"
  using assms unfolding repo_StatsByURLID_def
  by (auto simp: run_simps split: prod.splits sum.splits dest!: stats_step scan_err)

lemma db_inv_parts: "db_inv d \<Longrightarrow> urls_inv d \<and> distinct (codes d)"
  by (simp add: db_inv_def urls_inv_def)

text \<open>What one statement does to the abstract state, whatever the connection does.\<close>

lemma repo_create_run:
  assumes "run (repo_Create P l e) w = (r, w')" "db_inv (db w)"
  shows "db_inv (db w') \<and> db_coded (db w') = db_coded (db w)
    \<and> (\<forall>i. r = Inr i \<longrightarrow> (\<exists>t. db_pending (db w') i = Some (fresh_url i '''' l e t)))
    \<and> (\<forall>err. r = Inl err \<longrightarrow> store_error err)"
proof -
  obtain q where s: "sql_step P (insert_url None l e) w = (q, w')"
    and r: "r = (case q of Inl err \<Rightarrow> Inl (WrapPre ''insert url'' err) | Inr i \<Rightarrow> Inr i)"
    using assms(1) by (auto simp: repo_Create_def run_simps split: prod.splits sum.splits)
  have stm: "db_inv d' \<and> db_coded d' = db_coded (db w)" if "insert_url None l e t (db w) = (a, d')" for t a d'
    using insert_url_inv [OF that assms(2)] that db_inv_parts [OF assms(2)]
    by (cases a) (auto dest: insert_failed insert_uncoded)
  from s show ?thesis
  proof (cases rule: sql_step_cases)
    case (executed x d)
    with stm [OF executed(2)] db_inv_parts [OF assms(2)] show ?thesis
      by (auto simp: r split: sum.splits dest: insert_uncoded insert_err)
  qed (use assms(2) in \<open>auto simp: r dest: stm\<close>)
qed

lemma repo_with_code_run:
  assumes "run (repo_CreateWithCode P c l e) w = (r, w')" "db_inv (db w)"
  shows "db_inv (db w')
      \<and> (case r of
           Inr i \<Rightarrow> db_coded (db w) c = None \<and> (\<exists>t. db_coded (db w') = (db_coded (db w))(c \<mapsto> fresh_url i c l e t))
         | Inl err \<Rightarrow> store_error err \<and>
             (if errors_Is err RepoErrConflict then db_coded (db w) c \<noteq> None \<and> db_coded (db w') = db_coded (db w)
             else db_coded (db w') = db_coded (db w)
               \<or> db_coded (db w) c = None \<and> (\<exists>i t. db_coded (db w') = (db_coded (db w))(c \<mapsto> fresh_url i c l e t))))"
proof -
  obtain q where s: "sql_step P (insert_url (Some c) l e) w = (q, w')"
    and r: "r = (case q of Inl err \<Rightarrow> if isUniqueViolation err
            then Inl (WrapSuf (Sentinel RepoErrConflict) (''code '' @ go_quote c))
            else Inl (WrapPre ''insert url with code'' err) | Inr i \<Rightarrow> Inr i)"
    using assms(1) by (auto simp: repo_CreateWithCode_def run_simps split: prod.splits sum.splits if_splits)
  have stm: "db_inv d' \<and> (case a of
      Inr i \<Rightarrow> db_coded (db w) c = None \<and> db_coded d' = (db_coded (db w))(c \<mapsto> fresh_url i c l e (pg_ts t))
    | Inl err \<Rightarrow> pg_err err \<and> db_coded d' = db_coded (db w)
        \<and> (isUniqueViolation err \<longrightarrow> db_coded (db w) c \<noteq> None))" if "insert_url (Some c) l e t (db w) = (a, d')" for t a d'
    using insert_url_inv [OF that assms(2)] that
    by (cases a) (use insert_failed insert_conflict insert_err insert_coded in \<open>auto; blast\<close>)+
  from s show ?thesis
  proof (cases rule: sql_step_cases)
    case (executed x d)
    with stm [OF executed(2)] show ?thesis by (auto simp: r split: sum.splits)
  next
    case (unacked m x a d)
    with stm [OF unacked(2)] show ?thesis by (auto simp: r split: sum.splits; blast)
  qed (use assms(2) in \<open>auto simp: r\<close>)
qed

lemma repo_set_code_run:
  assumes "run (repo_SetCode P i c) w = (z, w')" "db_inv (db w)" "db_pending (db w) i = Some u"
  shows "db_inv (db w')
      \<and> (case z of
           Inr _ \<Rightarrow> db_coded (db w) c = None \<and> db_coded (db w') = (db_coded (db w))(c \<mapsto> u\<lparr>Code := c\<rparr>)
         | Inl err \<Rightarrow>
             (if errors_Is err RepoErrConflict then db_coded (db w) c \<noteq> None \<and> db_coded (db w') = db_coded (db w)
             else db_coded (db w') = db_coded (db w)
               \<or> db_coded (db w) c = None \<and> db_coded (db w') = (db_coded (db w))(c \<mapsto> u\<lparr>Code := c\<rparr>)))"
proof -
  obtain q where s: "sql_step P (update_url_code c i) w = (q, w')"
    and z: "z = (case q of Inl err \<Rightarrow> if isUniqueViolation err
            then Inl (WrapSuf (Sentinel RepoErrConflict) (''code '' @ go_quote c))
            else Inl (WrapPre ''set code'' err)
         | Inr n \<Rightarrow> if n = 0 then Inl (WrapSuf (Sentinel RepoErrNotFound) (''id '' @ Itoa i)) else Inr ())"
    using assms(1) by (auto simp: repo_SetCode_def run_simps split: prod.splits sum.splits if_splits)
  note stm = update_coded [OF conjunct1 [OF db_inv_parts [OF assms(2)]] assms(3)] update_url_code_inv [OF _ assms(2)]
  from s show ?thesis
  proof (cases rule: sql_step_cases)
    case (executed x d)
    with stm [OF executed(2)] show ?thesis by (auto simp: z isUniqueViolation_def)
  next
    case (unacked m x a d)
    with stm [OF unacked(2)] show ?thesis by (auto simp: z)
  qed (use assms(2) in \<open>auto simp: z\<close>)
qed

lemma repo_set_code_err: "run (repo_SetCode P i c) w = (Inl err, w') \<Longrightarrow> store_error err"
  unfolding repo_SetCode_def
  by (auto simp: run_simps split: prod.splits sum.splits if_splits dest!: sql_step_err [OF _ update_err])

lemma repo_get_run:
  assumes "run (repo_GetByCode P c) w = (q, w')"
  shows "db w' = db w
      \<and> (case q of
           Inr u \<Rightarrow> db_coded (db w) c = Some u
         | Inl err \<Rightarrow> store_error err \<and> (errors_Is err RepoErrNotFound \<longrightarrow> db_coded (db w) c = None))"
proof -
  obtain a where s: "sql_step P (select_url c) w = (a, w')"
    and q: "q = (case a of Inl err \<Rightarrow> if errors_Is err PgxErrNoRows then Inl (Sentinel RepoErrNotFound)
              else Inl (WrapPre ''get url by code'' err) | Inr u \<Rightarrow> Inr u)"
    using assms(1) by (auto simp: repo_GetByCode_def run_simps split: prod.splits sum.splits if_splits)
  from s show ?thesis
  proof (cases rule: sql_step_cases)
    case (executed x d)
    then show ?thesis
      by (auto simp: q split: sum.splits dest: select_url_inv select_coded select_no_rows select_err)
  next
    case (unacked m x b d)
    then show ?thesis by (auto simp: q dest: select_url_inv)
  qed (auto simp: q)
qed

lemma repo_delete_run:
  assumes "run (repo_DeleteByCode P c) w = (z, w')" "db_inv (db w)"
  shows "db_inv (db w')
      \<and> (case z of
           Inr _ \<Rightarrow> db_coded (db w) c \<noteq> None \<and> db_coded (db w') = (db_coded (db w))(c := None)
         | Inl err \<Rightarrow> store_error err \<and>
             (if errors_Is err RepoErrNotFound then db_coded (db w) c = None \<and> db_coded (db w') = db_coded (db w)
             else db_coded (db w') = db_coded (db w) \<or> db_coded (db w') = (db_coded (db w))(c := None)))"
proof -
  obtain q where s: "sql_step P (delete_url c) w = (q, w')"
    and z: "z = (case q of Inl err \<Rightarrow> Inl (WrapPre ''delete url'' err)
         | Inr n \<Rightarrow> if n = 0 then Inl (Sentinel RepoErrNotFound) else Inr ())"
    using assms(1) by (auto simp: repo_DeleteByCode_def run_simps split: prod.splits sum.splits if_splits)
  have stm: "db_inv d' \<and> (case a of
      Inr n \<Rightarrow> db_coded d' = (db_coded (db w))(c := None) \<and> (n = 0 \<longleftrightarrow> db_coded (db w) c = None)
    | Inl err \<Rightarrow> pg_err err \<and> d' = db w)" if "delete_url c t (db w) = (a, d')" for t a d'
    using delete_url_inv [OF that assms(2)] that
    by (cases a) (auto dest: delete_failed delete_err delete_coded)
  from s show ?thesis
  proof (cases rule: sql_step_cases)
    case (executed x d)
    with stm [OF executed(2)] show ?thesis by (auto simp: z fun_upd_idem split: sum.splits)
  next
    case (unacked m x a d)
    with stm [OF unacked(2)] show ?thesis by (auto simp: z split: sum.splits)
  qed (use assms(2) in \<open>auto simp: z\<close>)
qed

lemma repo_delete_err: "run (repo_DeleteByCode P c) w = (Inl err, w') \<Longrightarrow> store_error err"
  unfolding repo_DeleteByCode_def
  by (auto simp: run_simps split: prod.splits sum.splits if_splits dest!: sql_step_err [OF _ delete_err])

lemma repo_create_err:
  "run (repo_Create P l e) w = (Inl err, w') \<Longrightarrow> store_error err"
  "run (repo_CreateWithCode P c l e) w = (Inl err, w') \<Longrightarrow> store_error err"
  unfolding repo_Create_def repo_CreateWithCode_def
  by (auto simp: run_simps split: prod.splits sum.splits if_splits dest!: sql_step_err [OF _ insert_err])

interpretation repo: url_store_laws "URLRepository P" "\<lambda>w. db_coded (db w)" "\<lambda>w. db_pending (db w)"
  "\<lambda>w. db_inv (db w)"
  for P :: "'x platform"
proof unfold_locales
  fix w w' :: "'x world" and c i l e u r z q s err
  show "db_inv (db w) \<Longrightarrow> db_coded (db w) c = Some u \<Longrightarrow> Code u = c"
    by (rule db_coded_code)
  show "db_inv (db w) \<Longrightarrow> run (CreateWithCode (URLRepository P) c l e) w = (r, w') \<Longrightarrow> db_inv (db w')
      \<and> (case r of
           Inr i \<Rightarrow> db_coded (db w) c = None \<and> (\<exists>t. db_coded (db w') = (db_coded (db w))(c \<mapsto> fresh_url i c l e t))
         | Inl err \<Rightarrow>
             if errors_Is err RepoErrConflict then db_coded (db w) c \<noteq> None \<and> db_coded (db w') = db_coded (db w)
             else db_coded (db w') = db_coded (db w)
               \<or> db_coded (db w) c = None \<and> (\<exists>i t. db_coded (db w') = (db_coded (db w))(c \<mapsto> fresh_url i c l e t)))"
    using repo_with_code_run [of P c l e w r w'] by (auto split: sum.splits)
  show "db_inv (db w) \<Longrightarrow> run (DeleteByCode (URLRepository P) c) w = (z, w') \<Longrightarrow> db_inv (db w')
      \<and> (case z of
           Inr _ \<Rightarrow> db_coded (db w) c \<noteq> None \<and> db_coded (db w') = (db_coded (db w))(c := None)
         | Inl err \<Rightarrow>
             if errors_Is err RepoErrNotFound then db_coded (db w) c = None \<and> db_coded (db w') = db_coded (db w)
             else db_coded (db w') = db_coded (db w) \<or> db_coded (db w') = (db_coded (db w))(c := None))"
    using repo_delete_run [of P c w z w'] by (auto split: sum.splits)
  show "db_inv (db w) \<Longrightarrow> run (GetByCode (URLRepository P) c) w = (q, w') \<Longrightarrow> db_inv (db w') \<and> db_coded (db w') = db_coded (db w)
      \<and> (case q of
           Inr u \<Rightarrow> db_coded (db w) c = Some u
         | Inl err \<Rightarrow> errors_Is err RepoErrNotFound \<longrightarrow> db_coded (db w) c = None)"
    using repo_get_run [of P c w q w'] by (auto split: sum.splits)
  show "db_inv (db w) \<Longrightarrow> run (Create (URLRepository P) l e) w = (r, w') \<Longrightarrow> db_inv (db w') \<and> db_coded (db w') = db_coded (db w)
      \<and> (\<forall>i. r = Inr i \<longrightarrow> (\<exists>t. db_pending (db w') i = Some (fresh_url i '''' l e t)))"
    using repo_create_run [of P l e w r w'] by auto
  show "db_inv (db w) \<Longrightarrow> db_pending (db w) i = Some u \<Longrightarrow> run (SetCode (URLRepository P) i c) w = (z, w') \<Longrightarrow> db_inv (db w')
      \<and> (case z of
           Inr _ \<Rightarrow> db_coded (db w) c = None \<and> db_coded (db w') = (db_coded (db w))(c \<mapsto> u\<lparr>Code := c\<rparr>)
         | Inl err \<Rightarrow>
             if errors_Is err RepoErrConflict then db_coded (db w) c \<noteq> None \<and> db_coded (db w') = db_coded (db w)
             else db_coded (db w') = db_coded (db w) \<or> db_coded (db w) c = None \<and> db_coded (db w') = (db_coded (db w))(c \<mapsto> u\<lparr>Code := c\<rparr>))"
    using repo_set_code_run [of P i c w z w' u] by simp
qed (auto dest: repo_stats_run repo_set_code_err repo_create_err repo_delete_err repo_get_run)

end
