(* ===== verification/Platform_Sim.thy ===== *)
theory Platform_Sim
imports Platform
begin

section \<open>An executable platform\<close>

text \<open>
  A reference implementation of the platform: Redis string keys with deadlines, one stream
  with one consumer group, a clock, and two scripts that say which operations fail and how.
  An exhausted script means that everything works. It satisfies the laws of
  \<open>kv_server_up\<close>, so they are consistent, and the examples of the other theories run on it.
\<close>

datatype rfault = ROk | RDropped | RLost | RRepeated

record sim =
  s_kv :: kv
  s_clock :: time
  s_stream :: "xmessage list"
  s_delivered :: nat
  s_acked :: "string list"
  s_next :: nat
  s_faults :: "rfault list"
  s_fates :: "fate list"
  s_cancelled :: bool

definition sim0 :: "time \<Rightarrow> sim" where
  "sim0 t = \<lparr>s_kv = Map.empty, s_clock = t, s_stream = [], s_delivered = 0, s_acked = [],
     s_next = 1, s_faults = [], s_fates = [], s_cancelled = False\<rparr>"

definition io_timeout :: goerr where
  "io_timeout = Plain ''i/o timeout''"

definition next_fault :: "sim \<Rightarrow> rfault \<times> sim" where
  "next_fault s = (case s_faults s of [] \<Rightarrow> (ROk, s) | f # fs \<Rightarrow> (f, s\<lparr>s_faults := fs\<rparr>))"

text \<open>
  A Redis command: dropped before it ran, or run with the answer lost, or answered, or run with
  the answer lost and repeated by the client.
\<close>

definition redis_cmd :: "(sim \<Rightarrow> (goerr + 'r) \<times> sim) \<Rightarrow> sim \<Rightarrow> (goerr + 'r) \<times> sim" where
  "redis_cmd c s =
     (case next_fault s of
        (ROk, s') \<Rightarrow> c s'
      | (RDropped, s') \<Rightarrow> (Inl io_timeout, s')
      | (RLost, s') \<Rightarrow> (Inl io_timeout, snd (c s'))
      | (RRepeated, s') \<Rightarrow> c (snd (c s')))"

definition ok_only :: "(goerr + unit) \<times> sim \<Rightarrow> goerr option \<times> sim" where
  "ok_only p = (case p of (Inl e, s) \<Rightarrow> (Some e, s) | (Inr u, s) \<Rightarrow> (None, s))"

definition sim_get :: "string \<Rightarrow> sim \<Rightarrow> (goerr + string) \<times> sim" where
  "sim_get k = redis_cmd (\<lambda>s. (case live (s_kv s) (s_clock s) k of
       None \<Rightarrow> Inl (Sentinel RedisNil) | Some v \<Rightarrow> Inr v, s))"

definition put_kv :: "string \<Rightarrow> string \<Rightarrow> dur \<Rightarrow> sim \<Rightarrow> sim" where
  "put_kv k v ttl s = s\<lparr>s_kv := (s_kv s)(k \<mapsto> (v, Some (s_clock s + max ttl nano_ms)))\<rparr>"

definition sim_set :: "string \<Rightarrow> string \<Rightarrow> dur \<Rightarrow> sim \<Rightarrow> goerr option \<times> sim" where
  "sim_set k v ttl s = ok_only (redis_cmd (\<lambda>s. (Inr (), put_kv k v ttl s)) s)"

definition sim_setnx :: "string \<Rightarrow> string \<Rightarrow> dur \<Rightarrow> sim \<Rightarrow> (goerr + bool) \<times> sim" where
  "sim_setnx k v ttl = redis_cmd (\<lambda>s.
     if live (s_kv s) (s_clock s) k = None then (Inr True, put_kv k v ttl s) else (Inr False, s))"

definition sim_del :: "string \<Rightarrow> sim \<Rightarrow> goerr option \<times> sim" where
  "sim_del k s = ok_only (redis_cmd (\<lambda>s. (Inr (), s\<lparr>s_kv := (s_kv s)(k := None)\<rparr>)) s)"

definition incr_once :: "string \<Rightarrow> sim \<Rightarrow> (goerr + int) \<times> sim" where
  "incr_once k s =
    (case live (s_kv s) (s_clock s) k of
       None \<Rightarrow> (Inr 1, s\<lparr>s_kv := (s_kv s)(k \<mapsto> (Itoa 1, None))\<rparr>)
     | Some v \<Rightarrow>
         (case ParseInt v of
            None \<Rightarrow> (Inl (Plain ''ERR value is not an integer or out of range''), s)
          | Some n \<Rightarrow>
              if n = max_int64 then (Inl (Plain ''ERR increment or decrement would overflow''), s)
              else (Inr (n + 1), s\<lparr>s_kv := (s_kv s)(k \<mapsto> (Itoa (n + 1), snd (the (s_kv s k))))\<rparr>)))"

definition sim_incr :: "string \<Rightarrow> sim \<Rightarrow> (goerr + int) \<times> sim" where
  "sim_incr k = redis_cmd (incr_once k)"

definition sim_expire :: "string \<Rightarrow> dur \<Rightarrow> sim \<Rightarrow> goerr option \<times> sim" where
  "sim_expire k ttl s = ok_only (redis_cmd (\<lambda>s.
     case live (s_kv s) (s_clock s) k of
       None \<Rightarrow> (Inr (), s)
     | Some v \<Rightarrow> (Inr (), s\<lparr>s_kv := (s_kv s)(k \<mapsto> (v, Some (s_clock s + ttl)))\<rparr>)) s)"

definition sim_xadd :: "string \<Rightarrow> (string \<times> string) list \<Rightarrow> sim \<Rightarrow> (goerr + string) \<times> sim" where
  "sim_xadd st vs = redis_cmd (\<lambda>s.
     (let i = nat_text (s_next s) @ ''-0''
      in (Inr i, s\<lparr>s_stream := s_stream s @ [\<lparr>msg_ID = i, msg_Values = vs\<rparr>], s_next := Suc (s_next s)\<rparr>)))"

text \<open>Reading \<open>">"\<close> hands out the entries not yet delivered to the group, at most \<open>n\<close>.\<close>

definition sim_xreadgroup :: "string \<Rightarrow> nat \<Rightarrow> bool \<Rightarrow> sim \<Rightarrow> (goerr + xmessage list) \<times> sim" where
  "sim_xreadgroup st n block = redis_cmd (\<lambda>s.
     (let ms = take n (drop (s_delivered s) (s_stream s))
      in if ms = [] then (Inl (Sentinel RedisNil), s)
         else (Inr ms, s\<lparr>s_delivered := s_delivered s + length ms\<rparr>)))"

definition sim_xack :: "string \<Rightarrow> string \<Rightarrow> sim \<Rightarrow> goerr option \<times> sim" where
  "sim_xack st i s = ok_only (redis_cmd (\<lambda>s. (Inr (), s\<lparr>s_acked := s_acked s @ [i]\<rparr>)) s)"

definition sim_sql :: "sim \<Rightarrow> fate \<times> sim" where
  "sim_sql s = (case s_fates s of [] \<Rightarrow> (Executed, s) | f # fs \<Rightarrow> (f, s\<lparr>s_fates := fs\<rparr>))"

definition sim_platform :: "sim platform" where
  "sim_platform = \<lparr>
     p_now = (\<lambda>s. (s_clock s, s)),
     p_sleep = (\<lambda>d s. s\<lparr>s_clock := s_clock s + max 0 d\<rparr>),
     p_ctx_err = (\<lambda>s. (if s_cancelled s then Some ''context canceled'' else None, s)),
     p_sql = sim_sql,
     p_sql_now = s_clock,
     p_get = sim_get, p_set = sim_set, p_setnx = sim_setnx, p_del = sim_del,
     p_incr = sim_incr, p_expire = sim_expire,
     p_xadd = sim_xadd, p_xreadgroup = sim_xreadgroup, p_xack = sim_xack,
     p_xgroup = (\<lambda>st s. (None, s)),
     p_ping_db = (\<lambda>s. (None, s)),
     p_rand = (\<lambda>n s. (Some (replicate n (CHR 0x2A)), s))\<rparr>"

definition sim_up :: "sim \<Rightarrow> bool" where
  "sim_up s \<longleftrightarrow> s_faults s = [] \<and> s_fates s = [] \<and> \<not> s_cancelled s"

lemmas sim_ops = sim_get_def sim_set_def sim_setnx_def sim_del_def sim_incr_def incr_once_def sim_expire_def
  sim_xadd_def sim_xreadgroup_def sim_xack_def sim_sql_def

lemmas sim_defs = sim_ops redis_cmd_def next_fault_def ok_only_def put_kv_def

lemma sim_platform_sel [simp]:
  "p_now sim_platform = (\<lambda>s. (s_clock s, s))"
  "p_sleep sim_platform = (\<lambda>d s. s\<lparr>s_clock := s_clock s + max 0 d\<rparr>)"
  "p_ctx_err sim_platform = (\<lambda>s. (if s_cancelled s then Some ''context canceled'' else None, s))"
  "p_sql sim_platform = sim_sql" "p_sql_now sim_platform = s_clock"
  "p_get sim_platform = sim_get" "p_set sim_platform = sim_set" "p_setnx sim_platform = sim_setnx"
  "p_del sim_platform = sim_del" "p_incr sim_platform = sim_incr" "p_expire sim_platform = sim_expire"
  "p_xadd sim_platform = sim_xadd" "p_xreadgroup sim_platform = sim_xreadgroup"
  "p_xack sim_platform = sim_xack" "p_xgroup sim_platform = (\<lambda>st s. (None, s))"
  "p_ping_db sim_platform = (\<lambda>s. (None, s))" "p_rand sim_platform = (\<lambda>n s. (Some (replicate n (CHR 0x2A)), s))"
  by (simp_all add: sim_platform_def)

lemma set_with_exact: "0 \<le> d \<Longrightarrow> set_with m k v ttl t (t + d) (m(k \<mapsto> (v, Some (t + max ttl nano_ms))))"
  unfolding set_with_def by (rule exI [of _ "t + max ttl nano_ms"]) (auto simp: nano_ms_def)

lemma set_with_now [simp]: "set_with m k v ttl t t (m(k \<mapsto> (v, Some (t + max ttl nano_ms))))"
  using set_with_exact [of 0] by simp

lemma redis_cmd_cases:
  assumes "redis_cmd c s = (r, s')"
  obtains (ok) s1 where "c s1 = (r, s')" "s1 = s \<or> (\<exists>f fs. s_faults s = f # fs \<and> s1 = s\<lparr>s_faults := fs\<rparr>)"
    | (dropped) fs where "r = Inl io_timeout" "s' = s\<lparr>s_faults := fs\<rparr>"
    | (lost) fs q where "r = Inl io_timeout" "c (s\<lparr>s_faults := fs\<rparr>) = (q, s')"
    | (repeated) fs q s1 where "c (s\<lparr>s_faults := fs\<rparr>) = (q, s1)" "c s1 = (r, s')"
  using assms unfolding redis_cmd_def next_fault_def
  by (auto split: list.splits rfault.splits prod.splits) (metis prod.collapse)+

lemma incremented_now [simp]:
  "live m t k = None \<Longrightarrow> incremented m t k 1 (m(k \<mapsto> (Itoa 1, None)))"
  "live m t k = Some v \<Longrightarrow> ParseInt v = Some n \<Longrightarrow> incremented m t k (n + 1) (m(k \<mapsto> (Itoa (n + 1), snd (the (m k)))))"
  by (simp_all add: incremented_def)

lemma deadline_set_now [simp]:
  "live m t k = Some v \<Longrightarrow> deadline_set m k ttl t t (m(k \<mapsto> (v, Some (t + ttl))))"
  by (auto simp: deadline_set_def)

lemma io_timeout_not_nil [simp]: "io_timeout \<noteq> Sentinel RedisNil" "Sentinel RedisNil \<noteq> io_timeout"
  by (simp_all add: io_timeout_def)

lemma incr_once_law:
  assumes "incr_once k x = (r, x')"
  shows "s_clock x' = s_clock x \<and> (\<forall>k'. k' \<noteq> k \<longrightarrow> s_kv x' k' = s_kv x k')
    \<and> (case r of Inr n \<Rightarrow> incremented (s_kv x) (s_clock x) k n (s_kv x') | Inl err \<Rightarrow> s_kv x' = s_kv x)"
proof (cases "live (s_kv x) (s_clock x) k")
  case None
  with assms incremented_now(1) [OF None] show ?thesis by (auto simp: incr_once_def simp del: incremented_now)
next
  case (Some v)
  with assms incremented_now(2) [OF Some] show ?thesis
    by (auto simp: incr_once_def simp del: incremented_now split: option.splits if_splits)
qed

lemma incr_runs_now: "incremented m t k n m' \<Longrightarrow> incr_runs m t t k n m'"
  by (rule incr_runs.once) simp_all

lemma incr_runs_twice: "incremented m t k j m1 \<Longrightarrow> incremented m1 t k n m' \<Longrightarrow> incr_runs m t t k n m'"
  by (rule incr_runs.again [OF _ _ _ incr_runs_now]) simp_all

lemma sim_law: "kv_server sim_platform s_kv s_clock"
proof unfold_locales
  fix k :: string and v :: string and ttl :: dur and x x' :: sim and rb
  show "p_get sim_platform k x = (r, x') \<Longrightarrow> s_kv x' = s_kv x \<and> s_clock x \<le> s_clock x'
      \<and> (r = Inl (Sentinel RedisNil) \<longrightarrow> live (s_kv x) (s_clock x') k = None)
      \<and> (\<forall>v. r = Inr v \<longrightarrow> live (s_kv x) (s_clock x') k = Some v)" for r
    by (auto simp: sim_get_def elim!: redis_cmd_cases split: option.splits)
  show "p_setnx sim_platform k v ttl x = (rb, x') \<Longrightarrow> s_clock x \<le> s_clock x'
      \<and> (case rb of
           Inr b \<Rightarrow> if b then live (s_kv x) (s_clock x') k = None \<and> set_with (s_kv x) k v ttl (s_clock x) (s_clock x') (s_kv x')
                     else live (s_kv x) (s_clock x') k \<noteq> None \<and> s_kv x' = s_kv x
                       \<or> live (s_kv x) (s_clock x') k = None \<and> set_with (s_kv x) k v ttl (s_clock x) (s_clock x') (s_kv x')
         | Inl err \<Rightarrow> s_kv x' = s_kv x
             \<or> live (s_kv x) (s_clock x') k = None \<and> set_with (s_kv x) k v ttl (s_clock x) (s_clock x') (s_kv x'))"
    by (auto simp: sim_setnx_def put_kv_def elim!: redis_cmd_cases split: if_splits)
  show "p_incr sim_platform k x = (ri, x') \<Longrightarrow> s_clock x \<le> s_clock x' \<and> (\<forall>k'. k' \<noteq> k \<longrightarrow> s_kv x' k' = s_kv x k')
      \<and> (case ri of
           Inr n \<Rightarrow> incr_runs (s_kv x) (s_clock x) (s_clock x') k n (s_kv x')
         | Inl err \<Rightarrow> s_kv x' = s_kv x \<or> (\<exists>n. incr_runs (s_kv x) (s_clock x) (s_clock x') k n (s_kv x')))" for ri
    unfolding sim_platform_sel sim_incr_def
  proof (erule redis_cmd_cases, goal_cases)
    case (1 s1)
    from incr_once_law [OF 1(1)] 1(2) show ?case by (auto split: sum.splits intro: incr_runs_now)
  next
    case (3 fs q)
    from incr_once_law [OF 3(2)] 3(1) incr_runs_now [of "s_kv x" "s_clock x" k _ "s_kv x'"] show ?case
      by (cases q) auto
  next
    case (4 fs q s1)
    note once = incr_once_law [OF 4(1)] and again = incr_once_law [OF 4(2)]
    show ?case
    proof (cases q)
      case (Inl e)
      with once again show ?thesis by (auto split: sum.splits intro: incr_runs_now)
    next
      case (Inr j)
      with once have j: "incremented (s_kv x) (s_clock x) k j (s_kv s1)" by simp
      show ?thesis
      proof (cases ri)
        case (Inl e)
        with once again incr_runs_now [OF j] show ?thesis by auto
      next
        case (Inr n)
        with once again incr_runs_twice [OF j] show ?thesis by simp
      qed
    qed
  qed simp
qed (auto simp: sim_set_def sim_del_def sim_expire_def sim_xadd_def sim_xreadgroup_def sim_xack_def
      sim_sql_def put_kv_def ok_only_def Let_def
      elim!: redis_cmd_cases split: prod.splits sum.splits option.splits list.splits if_splits)

interpretation sim: kv_server_up sim_platform s_kv s_clock sim_up
proof (rule kv_server_up.intro [OF sim_law], unfold_locales)
  fix x :: sim and k
  assume u: "sim_up x"
  show "sim_up (snd (p_incr sim_platform k x)) \<and>
      ((\<forall>v t. live (s_kv x) t k = Some v \<longrightarrow> (\<exists>m. v = Itoa m \<and> 0 \<le> m \<and> m < max_int64)) \<longrightarrow>
       (\<exists>n. fst (p_incr sim_platform k x) = Inr n))"
  proof (cases "live (s_kv x) (s_clock x) k")
    case None
    with u show ?thesis by (simp add: sim_up_def sim_defs)
  next
    case (Some v)
    have "ParseInt v \<noteq> None \<and> ParseInt v \<noteq> Some max_int64"
      if "\<forall>v t. live (s_kv x) t k = Some v \<longrightarrow> (\<exists>m. v = Itoa m \<and> 0 \<le> m \<and> m < max_int64)"
      using that Some ParseInt_Itoa by (force simp: int64_defs)
    moreover have "sim_up (snd (p_incr sim_platform k x))"
      using u Some by (simp add: sim_up_def sim_defs split: option.splits)
    moreover have "ParseInt v \<noteq> None \<and> ParseInt v \<noteq> Some max_int64 \<Longrightarrow> \<exists>n. fst (p_incr sim_platform k x) = Inr n"
      using u Some by (auto simp: sim_up_def sim_defs)
    ultimately show ?thesis by blast
  qed
qed (auto simp: sim_up_def sim_defs Let_def split: option.splits)

end
