(* ===== verification/Lib_Sim.thy ===== *)
theory Lib_Sim
imports Model
begin

section \<open>An executable library\<close>

text \<open>
  A concrete value of the library parameter, used where an example has to run: a URL parser
  that splits \<open>scheme://host/path\<close>, a request decoder that takes the whole body as the
  URL, and a codec for \<open>model.URL\<close> that writes each field
  with its length in front. The codec satisfies \<open>lib_ok\<close>, so that law can hold.
\<close>

definition enc_field :: "string \<Rightarrow> string" where
  "enc_field s = nat_text (length s) @ '':'' @ s"

definition dec_field :: "string \<Rightarrow> string \<times> string" where
  "dec_field s =
     (let ds = takeWhile is_digit s; rest = tl (dropWhile is_digit s); n = nat (dec_val ds)
      in (take n rest, drop n rest))"

lemma dec_enc_field [simp]: "dec_field (enc_field s @ t) = (s, t)"
proof -
  have c: "\<not> is_digit (CHR '':'')" by (simp add: is_digit_def byte_def)
  have d: "\<forall>x \<in> set (nat_text n). is_digit x" for n
    using nat_text_digits [of n] by (simp add: list_all_iff)
  have "takeWhile is_digit (nat_text n @ CHR '':'' # r) = nat_text n"
    "dropWhile is_digit (nat_text n @ CHR '':'' # r) = CHR '':'' # r" for n r
    using d c by (simp_all add: takeWhile_append2 dropWhile_append2)
  then show ?thesis by (simp add: dec_field_def enc_field_def Let_def nat_text_val)
qed

definition enc_time :: "time option \<Rightarrow> string" where
  "enc_time t = (case t of None \<Rightarrow> [] | Some n \<Rightarrow> Itoa n)"

definition int_of_text :: "string \<Rightarrow> int" where
  "int_of_text s = (if s \<noteq> [] \<and> hd s = CHR ''-'' then - dec_val (tl s) else dec_val s)"

definition dec_time :: "string \<Rightarrow> time option" where
  "dec_time s = (if s = [] then None else Some (int_of_text s))"

lemma hd_nat_text: "hd (nat_text n) \<noteq> CHR ''-''"
  using nat_text_digits [of n] nat_text_nonempty [of n]
  by (cases "nat_text n") (auto simp: is_digit_def byte_def)

lemma int_of_Itoa [simp]: "int_of_text (Itoa n) = n"
  by (simp add: int_of_text_def Itoa_def hd_nat_text nat_text_val nat_text_nonempty)

lemma Itoa_nonempty [simp]: "Itoa n \<noteq> []"
  by (simp add: Itoa_def nat_text_nonempty)

lemma dec_enc_time [simp]: "dec_time (enc_time t) = t"
  by (simp add: dec_time_def enc_time_def split: option.splits)

definition enc_url :: "url \<Rightarrow> string" where
  "enc_url u = enc_field (Itoa (ID u)) @ enc_field (Code u) @ enc_field (LongURL u)
     @ enc_field (enc_time (ExpiresAt u)) @ enc_field (Itoa (CreatedAt u))"

definition dec_url :: "string \<Rightarrow> url" where
  "dec_url s0 =
     (let (i, s1) = dec_field s0; (c, s2) = dec_field s1; (l, s3) = dec_field s2;
          (e, s4) = dec_field s3; (t, s5) = dec_field s4
      in \<lparr>ID = int_of_text i, Code = c, LongURL = l, ExpiresAt = dec_time e, CreatedAt = int_of_text t\<rparr>)"

lemma dec_enc_url [simp]: "dec_url (enc_url u) = u"
proof -
  have "dec_field (enc_field s) = (s, [])" for s using dec_enc_field [of s "[]"] by simp
  then show ?thesis by (simp add: dec_url_def enc_url_def)
qed

fun split_at :: "string \<Rightarrow> string \<Rightarrow> (string \<times> string) option" where
  "split_at p [] = None"
| "split_at p (c # s) =
     (if is_prefix p (c # s) then Some ([], drop (length p) (c # s))
      else map_option (\<lambda>(a, b). (c # a, b)) (split_at p s))"

definition demo_Parse :: "string \<Rightarrow> goerr + gourl" where
  "demo_Parse s =
     (case split_at ''://'' s of
        None \<Rightarrow> Inl (Plain ''parse'')
      | Some (sch, rest) \<Rightarrow>
          Inr \<lparr>Scheme = to_lower sch, Host = takeWhile (\<lambda>c. c \<noteq> CHR ''/'') rest, Str = s\<rparr>)"

definition demo_lib :: golib where
  "demo_lib = \<lparr>url_Parse = demo_Parse,
     JoinPath = (\<lambda>u p. u\<lparr>Str := Str u @ ''/'' @ p\<rparr>),
     uni_fold = (\<lambda>s t. s = t),
     json_Marshal = (\<lambda>u. Inr (enc_url u)),
     json_Unmarshal = (\<lambda>s. Inr (dec_url s)),
     json_Decode = (\<lambda>n s.
       if length s > n then Inl MaxBytesError
       else if s = [] then Inl (DecodeError ''EOF'')
       else Inr \<lparr>req_URL = s, req_CustomCode = [], req_ExpiresIn = []\<rparr>)\<rparr>"

lemma demo_lib_ok: "lib_ok demo_lib"
  by (simp add: lib_ok_def demo_lib_def)

end
