(* ===== verification/Url_Cache.thy ===== *)
theory Url_Cache
imports Platform_Sim Lib_Sim
begin

section \<open>The URL cache\<close>

text \<open>
  \<open>internal/cache/url_cache.go\<close>: JSON copies of rows in Redis under
  \<open>keyBase ++ "url:" ++ code\<close> for at most 60 seconds. The locale \<open>lookup_cache\<close> is the
  contract the service relies on: a cache hands out only what was put under that code, and
  after a successful delete nothing. The locale \<open>redis_cache\<close> gives it for \<open>URLCache\<close>
  on every server that keeps the laws of \<open>kv_server\<close>. The per-operation timeout of 200 ms
  is one of the ways a command can fail.
\<close>

record url_cache =
  cache_keyBase :: string

definition cacheTTL :: dur where "cacheTTL = 60 * nano_s"

definition NewURLCache :: "string \<Rightarrow> url_cache" where
  "NewURLCache keyBase = \<lparr>cache_keyBase = keyBase\<rparr>"

definition URLKey :: "url_cache \<Rightarrow> string \<Rightarrow> string" where
  "URLKey c code = cache_keyBase c @ ''url:'' @ code"

definition cache_Get ::
  "'x platform \<Rightarrow> golib \<Rightarrow> url_cache \<Rightarrow> string \<Rightarrow> ('x world, goerr + url option) prog" where
  "cache_Get P L c code =
     bindp (ext_act (p_get P (URLKey c code))) (\<lambda>r.
       case r of
         Inl err \<Rightarrow>
           if err = Sentinel RedisNil then bindp (Inc CacheMisses) (\<lambda>_. Ret (Inr None))
           else Ret (Inl err)
       | Inr raw \<Rightarrow>
           (case json_Unmarshal L raw of
              Inl err \<Rightarrow> Ret (Inl err)
            | Inr u \<Rightarrow> bindp (Inc CacheHits) (\<lambda>_. Ret (Inr (Some u)))))"

definition cache_put ::
  "'x platform \<Rightarrow> url_cache \<Rightarrow> string \<Rightarrow> string \<Rightarrow> dur \<Rightarrow> ('x world, goerr option) prog" where
  "cache_put P c code raw ttl =
     (if ttl \<le> 0 then Ret None else ext_act (p_set P (URLKey c code) raw ttl))"

definition cache_Set ::
  "'x platform \<Rightarrow> golib \<Rightarrow> url_cache \<Rightarrow> string \<Rightarrow> url \<Rightarrow> ('x world, goerr option) prog" where
  "cache_Set P L c code u =
     (case json_Marshal L u of
        Inl err \<Rightarrow> Ret (Some err)
      | Inr raw \<Rightarrow>
          (case ExpiresAt u of
             None \<Rightarrow> cache_put P c code raw cacheTTL
           | Some t \<Rightarrow>
               bindp (time_Now P) (\<lambda>now.
                 let remain = t - now
                 in cache_put P c code raw (if remain < cacheTTL then remain else cacheTTL))))"

definition cache_Delete :: "'x platform \<Rightarrow> url_cache \<Rightarrow> string \<Rightarrow> ('x world, goerr option) prog" where
  "cache_Delete P c code = ext_act (p_del P (URLKey c code))"

lemma URLKey_inject [simp]: "URLKey c a = URLKey c b \<longleftrightarrow> a = b"
  by (simp add: URLKey_def)

subsection \<open>The contract\<close>

locale lookup_cache =
  fixes cget :: "string \<Rightarrow> ('w, goerr + url option) prog"
    and cset :: "string \<Rightarrow> url \<Rightarrow> ('w, goerr option) prog"
    and cdel :: "string \<Rightarrow> ('w, goerr option) prog"
    and holds :: "'w \<Rightarrow> string \<Rightarrow> url \<Rightarrow> bool"
  assumes get_hit: "run (cget c) w = (Inr (Some u), w') \<Longrightarrow> holds w c u"
    and get_frame: "run (cget c) w = (r, w') \<Longrightarrow> holds w' = holds w"
    and set_adds: "run (cset c u) w = (e, w') \<Longrightarrow> holds w' c' u' \<Longrightarrow> holds w c' u' \<or> c' = c \<and> u' = u"
    and del_drops: "run (cdel c) w = (None, w') \<Longrightarrow> \<not> holds w' c u"
    and del_frame: "run (cdel c) w = (e, w') \<Longrightarrow> holds w' c' u' \<Longrightarrow> holds w c' u'"
begin

text \<open>
  A property \<open>Good c u\<close> of entries that every \<open>Set\<close> respects holds of every answer:
  the induction over the operations a cache has seen, done once.
\<close>

definition all_good :: "(string \<Rightarrow> url \<Rightarrow> bool) \<Rightarrow> 'w \<Rightarrow> bool" where
  "all_good Good w \<longleftrightarrow> (\<forall>c u. holds w c u \<longrightarrow> Good c u)"

lemma good_get: "all_good Good w \<Longrightarrow> run (cget c) w = (r, w') \<Longrightarrow>
    all_good Good w' \<and> (\<forall>u. r = Inr (Some u) \<longrightarrow> Good c u)"
  using get_hit get_frame unfolding all_good_def by metis

lemma good_set: "all_good Good w \<Longrightarrow> Good c u \<Longrightarrow> run (cset c u) w = (e, w') \<Longrightarrow> all_good Good w'"
  using set_adds unfolding all_good_def by blast

lemma good_del: "all_good Good w \<Longrightarrow> run (cdel c) w = (e, w') \<Longrightarrow> all_good Good w'"
  using del_frame unfolding all_good_def by blast

end

subsection \<open>URLCache keeps the contract\<close>

definition kv_holds :: "golib \<Rightarrow> url_cache \<Rightarrow> kv \<Rightarrow> string \<Rightarrow> url \<Rightarrow> bool" where
  "kv_holds L C m c u \<longleftrightarrow> (\<exists>s dl. m (URLKey C c) = Some (s, dl) \<and> json_Unmarshal L s = Inr u)"

lemma kv_holds_set_with:
  assumes "set_with m k v ttl t t' m'" "kv_holds L C m' c u"
  shows "kv_holds L C m c u \<or> URLKey C c = k \<and> json_Unmarshal L v = Inr u"
  using assms by (auto simp: set_with_def kv_holds_def split: if_splits)

locale redis_cache = kv_server P raw tick
  for P :: "'x platform" and raw :: "'x \<Rightarrow> kv" and tick :: "'x \<Rightarrow> time" +
  fixes L :: golib and C :: url_cache
  assumes lib: "lib_ok L"
begin

lemma cache_Get_run:
  assumes "run (cache_Get P L C c) w = (r, w')"
  shows "raw (ext w') = raw (ext w)" "tick (ext w) \<le> tick (ext w')" "db w' = db w"
    "\<And>u. r = Inr (Some u) \<Longrightarrow>
       \<exists>s. live (raw (ext w)) (tick (ext w')) (URLKey C c) = Some s \<and> json_Unmarshal L s = Inr u"
    "r = Inr None \<Longrightarrow> live (raw (ext w)) (tick (ext w')) (URLKey C c) = None"
  using assms unfolding cache_Get_def
  by (auto simp: run_simps split: prod.splits sum.splits if_splits dest!: get_law)

lemma cache_put_run:
  assumes "run (cache_put P C c s ttl) w = (e, w')"
  shows "db w' = db w" "counters w' = counters w" "tick (ext w) \<le> tick (ext w')"
    "raw (ext w') = raw (ext w) \<or>
       0 < ttl \<and> set_with (raw (ext w)) (URLKey C c) s ttl (tick (ext w)) (tick (ext w')) (raw (ext w'))"
  using assms unfolding cache_put_def
  by (auto simp: run_simps split: prod.splits if_splits dest!: set_law)

lemma cache_Set_run:
  assumes "run (cache_Set P L C c u) w = (e, w')"
  shows "db w' = db w" "counters w' = counters w" "tick (ext w) \<le> tick (ext w')"
    "raw (ext w') = raw (ext w) \<or>
       (\<exists>s t ttl. json_Marshal L u = Inr s \<and> 0 < ttl \<and> ttl \<le> cacheTTL
          \<and> tick (ext w) \<le> t \<and> (\<forall>x. ExpiresAt u = Some x \<longrightarrow> t + ttl \<le> x)
          \<and> set_with (raw (ext w)) (URLKey C c) s ttl t (tick (ext w')) (raw (ext w')))"
proof -
  have "db w' = db w \<and> counters w' = counters w \<and> tick (ext w) \<le> tick (ext w') \<and>
    (raw (ext w') = raw (ext w) \<or>
       (\<exists>s t ttl. json_Marshal L u = Inr s \<and> 0 < ttl \<and> ttl \<le> cacheTTL
          \<and> tick (ext w) \<le> t \<and> (\<forall>x. ExpiresAt u = Some x \<longrightarrow> t + ttl \<le> x)
          \<and> set_with (raw (ext w)) (URLKey C c) s ttl t (tick (ext w')) (raw (ext w'))))"
  proof (cases "json_Marshal L u")
    case (Inl err)
    with assms show ?thesis by (simp add: cache_Set_def)
  next
    case (Inr s)
    show ?thesis
    proof (cases "ExpiresAt u")
      case None
      with Inr assms have "run (cache_put P C c s cacheTTL) w = (e, w')" by (simp add: cache_Set_def)
      from cache_put_run [OF this] Inr None show ?thesis by fastforce
    next
      case (Some x)
      obtain t y where t: "p_now P (ext w) = (t, y)" by (cases "p_now P (ext w)")
      let ?ttl = "if x - t < cacheTTL then x - t else cacheTTL"
      let ?v = "w\<lparr>ext := y\<rparr>"
      have "run (cache_put P C c s ?ttl) ?v = (e, w')"
        using assms Inr Some t by (simp add: cache_Set_def run_simps act_defs Let_def)
      note p = cache_put_run [OF this]
      from now_law [OF t] have n: "t = tick y" "raw y = raw (ext w)" "tick (ext w) \<le> tick y" by auto
      have "?ttl \<le> cacheTTL" "t + ?ttl \<le> x" by auto
      with p n Inr Some show ?thesis by (force simp: )
    qed
  qed
  then show "db w' = db w" "counters w' = counters w" "tick (ext w) \<le> tick (ext w')"
    "raw (ext w') = raw (ext w) \<or>
       (\<exists>s t ttl. json_Marshal L u = Inr s \<and> 0 < ttl \<and> ttl \<le> cacheTTL
          \<and> tick (ext w) \<le> t \<and> (\<forall>x. ExpiresAt u = Some x \<longrightarrow> t + ttl \<le> x)
          \<and> set_with (raw (ext w)) (URLKey C c) s ttl t (tick (ext w')) (raw (ext w')))"
    by blast+
qed

lemma cache_Delete_run:
  assumes "run (cache_Delete P C c) w = (e, w')"
  shows "db w' = db w" "counters w' = counters w" "tick (ext w) \<le> tick (ext w')"
    "raw (ext w') = (raw (ext w))(URLKey C c := None) \<or> e \<noteq> None \<and> raw (ext w') = raw (ext w)"
  using assms unfolding cache_Delete_def
  by (auto simp: run_simps split: prod.splits dest!: del_law)

end

sublocale redis_cache \<subseteq> cache: lookup_cache "cache_Get P L C" "cache_Set P L C" "cache_Delete P C"
  "\<lambda>w. kv_holds L C (raw (ext w))"
proof unfold_locales
  fix c :: string and w w' :: "'x world" and u
  assume "run (cache_Get P L C c) w = (Inr (Some u), w')"
  from cache_Get_run(4) [OF this] show "kv_holds L C (raw (ext w)) c u"
    by (auto simp: kv_holds_def dest!: live_Some_raw)
next
  fix c :: string and w w' :: "'x world" and r
  assume "run (cache_Get P L C c) w = (r, w')"
  from cache_Get_run(1) [OF this] show "kv_holds L C (raw (ext w')) = kv_holds L C (raw (ext w))"
    by simp
next
  fix c c' :: string and w w' :: "'x world" and u u' e
  assume "run (cache_Set P L C c u) w = (e, w')" and h: "kv_holds L C (raw (ext w')) c' u'"
  from cache_Set_run(4) [OF this(1)] show "kv_holds L C (raw (ext w)) c' u' \<or> c' = c \<and> u' = u"
    using h lib by (auto simp: lib_ok_def dest!: kv_holds_set_with)
next
  fix c :: string and w w' :: "'x world" and u
  assume "run (cache_Delete P C c) w = (None, w')"
  from cache_Delete_run(4) [OF this] show "\<not> kv_holds L C (raw (ext w')) c u"
    by (auto simp: kv_holds_def)
next
  fix c c' :: string and w w' :: "'x world" and u' e
  assume "run (cache_Delete P C c) w = (e, w')" and h: "kv_holds L C (raw (ext w')) c' u'"
  from cache_Delete_run(4) [OF this(1)] h show "kv_holds L C (raw (ext w)) c' u'"
    by (auto simp: kv_holds_def split: if_splits)
qed

interpretation sim_cache: redis_cache sim_platform s_kv s_clock demo_lib "NewURLCache kb"
  for kb :: string
  by unfold_locales (rule demo_lib_ok)

end
