(* ===== verification/Idem_Store.thy ===== *)
theory Idem_Store
imports Platform_Sim
begin

section \<open>The idempotency store\<close>

text \<open>
  \<open>internal/idempotency/store.go\<close>: for each idempotency key a response record (the short
  code, 24 hours) and a lock (10 seconds, SET NX). \<open>idem_Get\<close> returns the code, or
  \<open>None\<close> for an unknown key (the Go result \<open>ok = false\<close>), or an error when the store
  cannot be reached.
\<close>

record idem_store =
  idem_keyBase :: string
  RespTTL :: dur
  LockTTL :: dur

definition respTTL :: dur where "respTTL = 24 * nano_hour"
definition lockTTL :: dur where "lockTTL = 10 * nano_s"

definition NewStore :: "string \<Rightarrow> idem_store" where
  "NewStore keyBase = \<lparr>idem_keyBase = keyBase, RespTTL = respTTL, LockTTL = lockTTL\<rparr>"

definition respKey :: "idem_store \<Rightarrow> string \<Rightarrow> string" where
  "respKey s key = idem_keyBase s @ ''idem:resp:'' @ key"

definition lockKey :: "idem_store \<Rightarrow> string \<Rightarrow> string" where
  "lockKey s key = idem_keyBase s @ ''idem:lock:'' @ key"

definition idem_Get ::
  "'x platform \<Rightarrow> idem_store \<Rightarrow> string \<Rightarrow> ('x world, goerr + string option) prog" where
  "idem_Get P s key =
     bindp (ext_act (p_get P (respKey s key))) (\<lambda>r.
       case r of
         Inl err \<Rightarrow> if err = Sentinel RedisNil then Ret (Inr None) else Ret (Inl err)
       | Inr raw \<Rightarrow> Ret (Inr (Some raw)))"

definition idem_Set :: "'x platform \<Rightarrow> idem_store \<Rightarrow> string \<Rightarrow> string \<Rightarrow> ('x world, goerr option) prog" where
  "idem_Set P s key code = ext_act (p_set P (respKey s key) code (RespTTL s))"

definition idem_Claim :: "'x platform \<Rightarrow> idem_store \<Rightarrow> string \<Rightarrow> ('x world, goerr + bool) prog" where
  "idem_Claim P s key = ext_act (p_setnx P (lockKey s key) ''1'' (LockTTL s))"

definition idem_Release :: "'x platform \<Rightarrow> idem_store \<Rightarrow> string \<Rightarrow> ('x world, goerr option) prog" where
  "idem_Release P s key = ext_act (p_del P (lockKey s key))"

lemmas idem_defs = idem_Get_def idem_Set_def idem_Claim_def idem_Release_def

lemma idem_keys [simp]:
  "respKey s a = respKey s b \<longleftrightarrow> a = b" "lockKey s a = lockKey s b \<longleftrightarrow> a = b"
  "respKey s a \<noteq> lockKey s b" "lockKey s b \<noteq> respKey s a"
  by (simp_all add: respKey_def lockKey_def)

subsection \<open>What the operations do on a lawful server\<close>

context kv_server begin

lemma idem_Get_run:
  assumes "run (idem_Get P s k) w = (r, w')"
  shows "raw (ext w') = raw (ext w)" "tick (ext w) \<le> tick (ext w')" "db w' = db w" "counters w' = counters w"
    "\<And>v. r = Inr v \<Longrightarrow> live (raw (ext w)) (tick (ext w')) (respKey s k) = v"
  using assms unfolding idem_Get_def
  by (auto simp: run_simps split: prod.splits sum.splits if_splits dest!: get_law)

lemma idem_Set_run:
  assumes "run (idem_Set P s k c) w = (e, w')"
  shows "tick (ext w) \<le> tick (ext w')" "db w' = db w" "counters w' = counters w"
    "set_with (raw (ext w)) (respKey s k) c (RespTTL s) (tick (ext w)) (tick (ext w')) (raw (ext w'))
      \<or> e \<noteq> None \<and> raw (ext w') = raw (ext w)"
  using assms unfolding idem_Set_def
  by (auto simp: run_simps split: prod.splits dest!: set_law)

lemma idem_Claim_run:
  assumes "run (idem_Claim P s k) w = (r, w')"
  shows "tick (ext w) \<le> tick (ext w')" "db w' = db w" "counters w' = counters w"
    "r = Inr True \<Longrightarrow> live (raw (ext w)) (tick (ext w')) (lockKey s k) = None
        \<and> set_with (raw (ext w)) (lockKey s k) ''1'' (LockTTL s) (tick (ext w)) (tick (ext w')) (raw (ext w'))"
    "k' \<noteq> lockKey s k \<Longrightarrow> raw (ext w') k' = raw (ext w) k'"
  using assms unfolding idem_Claim_def
  by (auto simp: run_simps set_with_def split: prod.splits sum.splits if_splits dest!: setnx_law)

lemma idem_Release_run:
  assumes "run (idem_Release P s k) w = (e, w')"
  shows "tick (ext w) \<le> tick (ext w')" "db w' = db w" "counters w' = counters w"
    "k' \<noteq> lockKey s k \<Longrightarrow> raw (ext w') k' = raw (ext w) k'"
    "e = None \<Longrightarrow> raw (ext w') (lockKey s k) = None"
  using assms unfolding idem_Release_def
  by (auto simp: run_simps split: prod.splits dest!: del_law)

end

end
