(* ===== verification/Url_Service.thy ===== *)
theory Url_Service
imports Url_Repo Url_Cache Idem_Store
begin

section \<open>The URL service\<close>

text \<open>
  \<open>internal/service/url.go\<close>: the service struct, its constructor and its methods. The
  store is any value of the interface \<open>URLStore\<close>; the cache and the idempotency store are
  optional, as in the code. Each method is a program whose actions stand in the order of the
  source, with every early return.
\<close>

record 'w url_service =
  store :: "'w url_store"
  cache :: "url_cache option"
  idem :: "idem_store option"
  baseURL :: gourl
  blockDomain :: string

record create_params =
  in_URL :: string
  in_CustomCode :: string
  in_ExpiresIn :: string
  in_IdempotencyKey :: string

record create_result =
  res_URL :: url
  res_ShortURL :: string
  res_Replayed :: bool

definition idemWaitPolls :: nat where "idemWaitPolls = 5"
definition idemWaitStep :: dur where "idemWaitStep = 200 * nano_ms"

definition NewURLService ::
  "golib \<Rightarrow> 'w url_store \<Rightarrow> url_cache option \<Rightarrow> idem_store option \<Rightarrow> string \<Rightarrow> goerr + 'w url_service" where
  "NewURLService L st cacheSvc idm base =
     (case url_Parse L base of
        Inl err \<Rightarrow> Inl (WrapPre (''parse base url '' @ go_quote base) err)
      | Inr bu \<Rightarrow>
          if Scheme bu \<noteq> ''http'' \<and> Scheme bu \<noteq> ''https'' then Inl (Plain ''base url must be http(s)'')
          else if Host bu = '''' then Inl (Plain ''base url has no host'')
          else Inr \<lparr>store = st, cache = cacheSvc, idem = idm, baseURL = bu, blockDomain = Host bu\<rparr>)"

definition shortURLFor :: "golib \<Rightarrow> 'w url_service \<Rightarrow> string \<Rightarrow> string" where
  "shortURLFor L s code = Str (JoinPath L (baseURL s) code)"

definition parseExpiry :: "'x platform \<Rightarrow> string \<Rightarrow> ('x world, goerr + time) prog" where
  "parseExpiry P inp =
     (case expiry_of inp of
        Inl err \<Rightarrow> Ret (Inl err)
      | Inr d \<Rightarrow> bindp (time_Now P) (\<lambda>now. Ret (Inr (now + d))))"

subsection \<open>Create\<close>

definition createOne ::
  "golib \<Rightarrow> 'w url_service \<Rightarrow> create_params \<Rightarrow> string \<Rightarrow> time option \<Rightarrow> ('w, goerr + create_result) prog" where
  "createOne L s inp longURL expiresAt =
     tryp
       (if in_CustomCode inp \<noteq> '''' then
          (case validateCustomCode (in_CustomCode inp) of
             Some err \<Rightarrow> Ret (Inl err)
           | None \<Rightarrow>
               bindp (CreateWithCode (store s) (in_CustomCode inp) longURL expiresAt) (\<lambda>r.
                 case r of
                   Inl err \<Rightarrow>
                     if errors_Is err RepoErrConflict
                     then Ret (Inl (WrapSuf (Sentinel ErrCodeTaken) (go_quote (in_CustomCode inp))))
                     else Ret (Inl err)
                 | Inr _ \<Rightarrow> Ret (Inr (in_CustomCode inp))))
        else
          tryp (Create (store s) longURL expiresAt) (\<lambda>i.
            case EncodeBase62 (word_of_int i) of
              None \<Rightarrow> Ret (Inl (Panicked ''index out of range''))
            | Some code \<Rightarrow>
                bindp (SetCode (store s) i code) (\<lambda>r.
                  case r of
                    Inl err \<Rightarrow>
                      if errors_Is err RepoErrConflict
                      then Ret (Inl (WrapPre ''codegen collision (database state inconsistent)'' err))
                      else Ret (Inl err)
                  | Inr _ \<Rightarrow> Ret (Inr code))))
       (\<lambda>code.
          tryp (GetByCode (store s) code) (\<lambda>created.
            Ret (Inr \<lparr>res_URL = created, res_ShortURL = shortURLFor L s code, res_Replayed = False\<rparr>)))"

definition replay :: "golib \<Rightarrow> 'w url_service \<Rightarrow> string \<Rightarrow> ('w, goerr + create_result) prog" where
  "replay L s code =
     bindp (GetByCode (store s) code) (\<lambda>r.
       case r of
         Inl err \<Rightarrow>
           if errors_Is err RepoErrNotFound then Ret (Inl (Sentinel ErrNotFound)) else Ret (Inl err)
       | Inr u \<Rightarrow>
           Ret (Inr \<lparr>res_URL = u, res_ShortURL = shortURLFor L s (Code u), res_Replayed = True\<rparr>))"

fun wait_for_winner ::
  "'x platform \<Rightarrow> golib \<Rightarrow> 'x world url_service \<Rightarrow> idem_store \<Rightarrow> string \<Rightarrow> nat
     \<Rightarrow> ('x world, goerr + create_result) prog" where
  "wait_for_winner P L s st key 0 = Ret (Inl (Sentinel ErrInFlight))"
| "wait_for_winner P L s st key (Suc i) =
     bindp (ctx_Err P) (\<lambda>c.
       case c of
         Some err \<Rightarrow> Ret (Inl err)
       | None \<Rightarrow>
           bindp (time_Sleep P idemWaitStep) (\<lambda>_.
           bindp (idem_Get P st key) (\<lambda>r.
             case r of
               Inr (Some code) \<Rightarrow> bindp (Inc IdempotencyReplays) (\<lambda>_. replay L s code)
             | _ \<Rightarrow> wait_for_winner P L s st key i)))"

definition createIdempotent ::
  "'x platform \<Rightarrow> golib \<Rightarrow> 'x world url_service \<Rightarrow> create_params \<Rightarrow> string \<Rightarrow> time option
     \<Rightarrow> ('x world, goerr + create_result) prog" where
  "createIdempotent P L s inp longURL expiresAt =
     (let key = in_IdempotencyKey inp
      in if length key > maxIdemKeyLength then Ret (Inl (Sentinel ErrIdemKeyTooLong))
         else case idem s of
                None \<Rightarrow> createOne L s inp longURL expiresAt
              | Some st \<Rightarrow>
                  bindp (idem_Get P st key) (\<lambda>r.
                    case r of
                      Inl err \<Rightarrow>
                        bindp (Inc IdempotencySkipped) (\<lambda>_. createOne L s inp longURL expiresAt)
                    | Inr (Some code) \<Rightarrow> bindp (Inc IdempotencyReplays) (\<lambda>_. replay L s code)
                    | Inr None \<Rightarrow>
                        bindp (idem_Claim P st key) (\<lambda>c.
                          case c of
                            Inl err \<Rightarrow>
                              bindp (Inc IdempotencySkipped) (\<lambda>_. createOne L s inp longURL expiresAt)
                          | Inr True \<Rightarrow>
                              tryp (createOne L s inp longURL expiresAt) (\<lambda>res.
                                bindp (idem_Set P st key (Code (res_URL res))) (\<lambda>_.
                                bindp (idem_Release P st key) (\<lambda>_.
                                  Ret (Inr res))))
                          | Inr False \<Rightarrow> wait_for_winner P L s st key idemWaitPolls)))"

definition service_Create ::
  "'x platform \<Rightarrow> golib \<Rightarrow> 'x world url_service \<Rightarrow> create_params \<Rightarrow> ('x world, goerr + create_result) prog" where
  "service_Create P L s inp =
     (case validateLongURL L (blockDomain s) (in_URL inp) of
        Inl err \<Rightarrow> Ret (Inl err)
      | Inr longURL \<Rightarrow>
          tryp
            (if in_ExpiresIn inp \<noteq> ''''
             then tryp (parseExpiry P (in_ExpiresIn inp)) (\<lambda>t. Ret (Inr (Some t)))
             else Ret (Inr None))
            (\<lambda>expiresAt.
               let inp' = inp\<lparr>in_IdempotencyKey := TrimSpace (in_IdempotencyKey inp)\<rparr>
               in if in_IdempotencyKey inp' \<noteq> ''''
                  then createIdempotent P L s inp' longURL expiresAt
                  else tryp (createOne L s inp' longURL expiresAt) (\<lambda>res.
                         Ret (Inr \<lparr>res_URL = res_URL res, res_ShortURL = res_ShortURL res,
                                   res_Replayed = False\<rparr>))))"

subsection \<open>Resolve, Delete, GetStats\<close>

definition resolve_store ::
  "'x platform \<Rightarrow> golib \<Rightarrow> 'x world url_service \<Rightarrow> string \<Rightarrow> ('x world, goerr + url) prog" where
  \<comment> \<open>\<open>Resolve\<close> from the store lookup on\<close>
  "resolve_store P L s code =
     bindp (GetByCode (store s) code) (\<lambda>r.
       case r of
         Inl err \<Rightarrow>
           if errors_Is err RepoErrNotFound then Ret (Inl (Sentinel ErrNotFound)) else Ret (Inl err)
       | Inr u \<Rightarrow>
           (case ExpiresAt u of
              None \<Rightarrow>
                (case cache s of
                   None \<Rightarrow> Ret (Inr u)
                 | Some c \<Rightarrow> bindp (cache_Set P L c code u) (\<lambda>_. Ret (Inr u)))
            | Some t \<Rightarrow>
                bindp (time_Now P) (\<lambda>now.
                  if \<not> t > now then Ret (Inl (Sentinel ErrExpired))
                  else case cache s of
                         None \<Rightarrow> Ret (Inr u)
                       | Some c \<Rightarrow> bindp (cache_Set P L c code u) (\<lambda>_. Ret (Inr u)))))"

definition Resolve ::
  "'x platform \<Rightarrow> golib \<Rightarrow> 'x world url_service \<Rightarrow> string \<Rightarrow> ('x world, goerr + url) prog" where
  "Resolve P L s code =
     (case cache s of
        None \<Rightarrow> resolve_store P L s code
      | Some c \<Rightarrow>
          bindp (cache_Get P L c code) (\<lambda>r.
            case r of
              Inr (Some cached) \<Rightarrow>
                (case ExpiresAt cached of
                   None \<Rightarrow> Ret (Inr cached)
                 | Some t \<Rightarrow>
                     bindp (time_Now P) (\<lambda>now.
                       if \<not> t > now
                       then bindp (cache_Delete P c code) (\<lambda>_. resolve_store P L s code)
                       else Ret (Inr cached)))
            | Inr None \<Rightarrow> resolve_store P L s code
            | Inl err \<Rightarrow> bindp (Inc CacheFailOpen) (\<lambda>_. resolve_store P L s code)))"

definition service_Delete ::
  "'x platform \<Rightarrow> 'x world url_service \<Rightarrow> string \<Rightarrow> ('x world, goerr option) prog" where
  "service_Delete P s code =
     bindp (DeleteByCode (store s) code) (\<lambda>r.
       case r of
         Inl err \<Rightarrow>
           if errors_Is err RepoErrNotFound then Ret (Some (Sentinel ErrNotFound)) else Ret (Some err)
       | Inr _ \<Rightarrow>
           (case cache s of
              None \<Rightarrow> Ret None
            | Some c \<Rightarrow> bindp (cache_Delete P c code) (\<lambda>_. Ret None)))"

definition GetStats ::
  "'x platform \<Rightarrow> golib \<Rightarrow> 'x world url_service \<Rightarrow> string \<Rightarrow> ('x world, goerr + stats_summary) prog" where
  "GetStats P L s code = tryp (Resolve P L s code) (\<lambda>u. StatsByURLID (store s) (ID u))"

end
