(* ===== verification/Create_Spec.thy ===== *)
theory Create_Spec
imports Url_Service
begin

section \<open>What Create does\<close>

text \<open>
  The methods of the service that write, proved first for any store that keeps the contract of
  \<open>URLStore\<close> and then for the PostgreSQL repository: a create that reports success has
  added exactly one code that was free, a failed one has added at most the row it was asked
  for, and an error names the reason.
\<close>

definition stored_new :: "coded_map \<Rightarrow> coded_map \<Rightarrow> url \<Rightarrow> bool" where
  "stored_new m m' u \<longleftrightarrow> m (Code u) = None \<and> m' = m(Code u \<mapsto> u)"

definition maybe_stored :: "string \<Rightarrow> time option \<Rightarrow> coded_map \<Rightarrow> coded_map \<Rightarrow> bool" where
  "maybe_stored l e m m' \<longleftrightarrow>
     m' = m \<or> (\<exists>u. stored_new m m' u \<and> LongURL u = l \<and> ExpiresAt u = map_option pg_ts e)"

text \<open>What the record returned by a fresh create says.\<close>

definition fresh_result ::
  "golib \<Rightarrow> 'w url_service \<Rightarrow> create_params \<Rightarrow> string \<Rightarrow> time option \<Rightarrow> create_result \<Rightarrow> bool" where
  "fresh_result L s inp l e res \<longleftrightarrow>
     LongURL (res_URL res) = l \<and> ExpiresAt (res_URL res) = map_option pg_ts e
     \<and> res_ShortURL res = shortURLFor L s (Code (res_URL res)) \<and> \<not> res_Replayed res
     \<and> (if in_CustomCode inp \<noteq> ''''
        then Code (res_URL res) = in_CustomCode inp \<and> validateCustomCode (in_CustomCode inp) = None
        else EncodeBase62 (word_of_int (ID (res_URL res))) = Some (Code (res_URL res)))"

lemma EncodeBase62_Some: "\<exists>c. EncodeBase62 n = Some c"
  by (simp add: EncodeBase62_eq)

lemma validateCustomCode_cases:
  obtains "validateCustomCode c = None" | "validateCustomCode c = Some (Sentinel ErrInvalidCode)"
  unfolding validateCustomCode_def by (cases "customCodeRe c"; cases "to_lower c \<in> set reservedCodes") auto

lemma maybe_stored_same [simp]: "maybe_stored l e m m"
  by (simp add: maybe_stored_def)

lemma maybe_stored_fresh:
  "m c = None \<Longrightarrow> maybe_stored l e m (m(c \<mapsto> fresh_url i c l e t))"
  unfolding maybe_stored_def stored_new_def
  by (rule disjI2, rule exI [of _ "fresh_url i c l e t"]) simp

lemma fresh_url_recode: "(fresh_url i a l e t)\<lparr>Code := c\<rparr> = fresh_url i c l e t"
  by (simp add: fresh_url_def)

definition create_error_ok :: "'w url_service \<Rightarrow> create_params \<Rightarrow> coded_map \<Rightarrow> goerr \<Rightarrow> bool" where
  \<comment> \<open>the sentinels \<open>createOne\<close> can report, and what they tell\<close>
  "create_error_ok s inp m err \<longleftrightarrow>
     (\<forall>x. errors_Is err x \<longrightarrow> x \<in> {ErrInvalidCode, ErrCodeTaken, RepoErrNotFound, RepoErrConflict})
     \<and> (errors_Is err ErrInvalidCode \<longrightarrow> validateCustomCode (in_CustomCode inp) \<noteq> None)
     \<and> (errors_Is err ErrCodeTaken \<longrightarrow> m (in_CustomCode inp) \<noteq> None)"

lemma store_error_ok: "store_error err \<Longrightarrow> create_error_ok s inp m err"
  unfolding create_error_ok_def store_error_def by blast

lemma taken_ok: "m (in_CustomCode inp) = Some u \<Longrightarrow> create_error_ok s inp m (WrapSuf (Sentinel ErrCodeTaken) x)"
  by (simp add: create_error_ok_def)

lemma invalid_ok: "validateCustomCode (in_CustomCode inp) = Some x \<Longrightarrow> create_error_ok s inp m (Sentinel ErrInvalidCode)"
  by (simp add: create_error_ok_def)

lemma wrap_ok: "store_error err \<Longrightarrow> create_error_ok s inp m (WrapPre x err)"
  by (rule store_error_ok) (simp add: store_error_def)

lemmas create_oks = store_error_ok taken_ok invalid_ok wrap_ok

context url_store_laws begin

lemma createOne_tail:
  assumes "wf w" "coded w c = Some u" "run (GetByCode st c) w = (q, w')"
  shows "wf w' \<and> coded w' = coded w \<and> (\<forall>v. q = Inr v \<longrightarrow> v = u) \<and> (\<forall>err. q = Inl err \<longrightarrow> store_error err)"
  using get_law [OF assms(1,3)] assms(2,3) get_error by (auto split: sum.splits)

lemma createOne_custom:
  assumes wf: "wf w" and st: "store s = st" and c: "in_CustomCode inp \<noteq> ''''"
    and r: "run (createOne L s inp l e) w = (r, w')"
  shows "wf w' \<and> maybe_stored l e (coded w) (coded w')
    \<and> (case r of
         Inr res \<Rightarrow> fresh_result L s inp l e res \<and> stored_new (coded w) (coded w') (res_URL res)
       | Inl err \<Rightarrow> create_error_ok s inp (coded w) err)"
proof (cases rule: validateCustomCode_cases [of "in_CustomCode inp"])
  case 2
  with r c wf show ?thesis by (auto simp: createOne_def run_simps create_oks)
next
  case 1
  let ?c = "in_CustomCode inp"
  obtain q v where q: "run (CreateWithCode st ?c l e) w = (q, v)" by (cases "run (CreateWithCode st ?c l e) w")
  note law = with_code_law [OF wf q]
  show ?thesis
  proof (cases q)
    case (Inl err)
    with with_code_error q have "store_error err" by blast
    with law Inl r q c st 1 show ?thesis
      by (auto simp: createOne_def run_simps create_oks intro: maybe_stored_fresh split: if_splits)
  next
    case (Inr i)
    with law obtain t where new: "coded w ?c = None" "coded v = (coded w)(?c \<mapsto> fresh_url i ?c l e t)" "wf v" by auto
    obtain g x where g: "run (GetByCode st ?c) v = (g, x)" by (cases "run (GetByCode st ?c) v")
    from createOne_tail [OF new(3) _ g, of "fresh_url i ?c l e t"] new
    have t: "wf x \<and> coded x = coded v \<and> (\<forall>u. g = Inr u \<longrightarrow> u = fresh_url i ?c l e t) \<and> (\<forall>err. g = Inl err \<longrightarrow> store_error err)"
      by simp
    with new r q g Inr c st 1 show ?thesis
      by (cases g) (auto simp: createOne_def run_simps create_oks fresh_result_def stored_new_def intro: maybe_stored_fresh)
  qed
qed

lemma createOne_auto:
  assumes wf: "wf w" and st: "store s = st" and c: "in_CustomCode inp = ''''"
    and r: "run (createOne L s inp l e) w = (r, w')"
  shows "wf w' \<and> maybe_stored l e (coded w) (coded w')
    \<and> (case r of
         Inr res \<Rightarrow> fresh_result L s inp l e res \<and> stored_new (coded w) (coded w') (res_URL res)
       | Inl err \<Rightarrow> create_error_ok s inp (coded w) err)"
proof -
  obtain q v where q: "run (Create st l e) w = (q, v)" by (cases "run (Create st l e) w")
  note law = create_law [OF wf q]
  show ?thesis
  proof (cases q)
    case (Inl err)
    with create_error q have "store_error err" by blast
    with law Inl r q c st show ?thesis by (auto simp: createOne_def run_simps create_oks)
  next
    case (Inr i)
    with law obtain t where p: "pending v i = Some (fresh_url i '''' l e t)" "wf v" "coded v = coded w" by auto
    obtain k where k: "EncodeBase62 (word_of_int i) = Some k" using EncodeBase62_Some by blast
    obtain z y where z: "run (SetCode st i k) v = (z, y)" by (cases "run (SetCode st i k) v")
    note law2 = set_code_law [OF p(2,1) z, unfolded fresh_url_recode p(3)]
    show ?thesis
    proof (cases z)
      case (Inl err)
      with set_code_error z have "store_error err" by blast
      with law2 Inl Inr r q z k c st show ?thesis
        by (auto simp: createOne_def run_simps create_oks intro: maybe_stored_fresh split: if_splits)
    next
      case (Inr un)
      with law2 have new: "coded w k = None" "coded y = (coded w)(k \<mapsto> fresh_url i k l e t)" "wf y" by auto
      obtain g x where g: "run (GetByCode st k) y = (g, x)" by (cases "run (GetByCode st k) y")
      from createOne_tail [OF new(3) _ g, of "fresh_url i k l e t"] new
      have t: "wf x \<and> coded x = coded y \<and> (\<forall>u. g = Inr u \<longrightarrow> u = fresh_url i k l e t) \<and> (\<forall>err. g = Inl err \<longrightarrow> store_error err)"
        by simp
      with new r q z g k Inr \<open>q = Inr i\<close> c st show ?thesis
        by (cases g) (auto simp: createOne_def run_simps create_oks fresh_result_def stored_new_def intro: maybe_stored_fresh)
    qed
  qed
qed



end

subsection \<open>The repository leaves Redis alone\<close>

text \<open>
  Whatever is true of the platform and kept by the statements stays true over every method of
  the repository, and over the create that is built from them.
\<close>

definition sql_kept :: "'x platform \<Rightarrow> ('x \<Rightarrow> bool) \<Rightarrow> bool" where
  "sql_kept P J \<longleftrightarrow> (\<forall>x. J x \<longrightarrow> J (snd (p_sql P x)))"

lemma safe_sql_kept: "sql_kept P J \<Longrightarrow> safe (\<lambda>w. J (ext w)) (\<lambda>_. True) (SQL P stm)"
proof (rule safe_SQL)
  fix w x fate and d :: database
  assume k: "sql_kept P J" and "J (ext w)" "p_sql P (ext w) = (fate, x)"
  moreover have "J (ext w) \<longrightarrow> J (snd (p_sql P (ext w)))" using k by (simp add: sql_kept_def)
  ultimately show "J (ext (w\<lparr>ext := x\<rparr>))" "True \<and> J (ext (w\<lparr>db := d, ext := x\<rparr>))" by simp_all
qed simp

lemma safe_any_bindp:
  "safe I (\<lambda>_. True) m \<Longrightarrow> (\<And>a. safe I (\<lambda>_. True) (k a)) \<Longrightarrow> safe I (\<lambda>_. True) (bindp m k)"
  by (rule safe_bindp) auto

lemma safe_any_tryp:
  "safe I (\<lambda>_. True) m \<Longrightarrow> (\<And>a. safe I (\<lambda>_. True) (k a)) \<Longrightarrow> safe I (\<lambda>_. True) (tryp m k)"
  by (rule safe_tryp) auto

lemmas safe_any = safe_any_bindp safe_any_tryp

lemma safe_repo_kept:
  assumes "sql_kept P J"
  shows "safe (\<lambda>w. J (ext w)) (\<lambda>_. True) (repo_Create P l e)"
    "safe (\<lambda>w. J (ext w)) (\<lambda>_. True) (repo_CreateWithCode P c l e)"
    "safe (\<lambda>w. J (ext w)) (\<lambda>_. True) (repo_SetCode P i c)"
    "safe (\<lambda>w. J (ext w)) (\<lambda>_. True) (repo_GetByCode P c)"
    "safe (\<lambda>w. J (ext w)) (\<lambda>_. True) (repo_DeleteByCode P c)"
    "safe (\<lambda>w. J (ext w)) (\<lambda>_. True) (repo_StatsByURLID P i)"
  unfolding repo_defs
  by (auto intro!: safe_any_bindp safe_sql_kept [OF assms] split: sum.splits)

lemma safe_createOne_kept:
  assumes "sql_kept P J" "store s = URLRepository P"
  shows "safe (\<lambda>w. J (ext w)) (\<lambda>_. True) (createOne L s inp l e)"
  unfolding createOne_def using assms(2)
  by (auto intro!: safe_any safe_repo_kept [OF assms(1)] split: sum.splits option.splits)

lemma safe_replay_kept:
  assumes "sql_kept P J" "store s = URLRepository P"
  shows "safe (\<lambda>w. J (ext w)) (\<lambda>_. True) (replay L s c)"
  unfolding replay_def using assms(2)
  by (auto intro!: safe_any safe_repo_kept [OF assms(1)] split: sum.splits)

context kv_server begin

lemma sql_kept_kv: "sql_kept P (\<lambda>x. raw x = R \<and> T \<le> tick x)"
  unfolding sql_kept_def using sql_law by (metis order_trans prod.collapse)

lemma kv_frame:
  assumes "safe (\<lambda>w. raw (ext w) = raw (ext v) \<and> tick (ext v) \<le> tick (ext w)) (\<lambda>_. True) m" "run m v = (r, w')"
  shows "raw (ext w') = raw (ext v)" "tick (ext v) \<le> tick (ext w')"
  using safe_run [OF assms(1) _ assms(2)] by auto

lemmas repo_kv = safe_repo_kept [OF sql_kept_kv]

lemma createOne_kv:
  "store s = URLRepository P \<Longrightarrow> run (createOne L s inp l e) w = (r, w') \<Longrightarrow>
     raw (ext w') = raw (ext w) \<and> tick (ext w) \<le> tick (ext w')"
  using kv_frame [OF safe_createOne_kept [OF sql_kept_kv]] by blast

lemma replay_kv:
  "store s = URLRepository P \<Longrightarrow> run (replay L s c) w = (r, w') \<Longrightarrow>
     raw (ext w') = raw (ext w) \<and> tick (ext w) \<le> tick (ext w')"
  using kv_frame [OF safe_replay_kept [OF sql_kept_kv]] by blast

lemma GetByCode_kv:
  "run (repo_GetByCode P c) w = (r, w') \<Longrightarrow> raw (ext w') = raw (ext w) \<and> tick (ext w) \<le> tick (ext w')"
  using kv_frame [OF repo_kv(4)] by blast

lemma DeleteByCode_kv:
  "run (repo_DeleteByCode P c) w = (r, w') \<Longrightarrow> raw (ext w') = raw (ext w) \<and> tick (ext w) \<le> tick (ext w')"
  using kv_frame [OF repo_kv(5)] by blast

end

context kv_server_up begin

lemma sql_kept_up: "sql_kept P up"
  unfolding sql_kept_def using sql_up by blast

lemma up_kept:
  assumes "safe (\<lambda>w. up (ext w)) (\<lambda>_. True) m" "up (ext v)" "run m v = (r, w')"
  shows "up (ext w')"
  using safe_run [OF assms(1) _ assms(3)] assms(2) by auto

lemmas createOne_up = up_kept [OF safe_createOne_kept [OF sql_kept_up]]
lemmas replay_up = up_kept [OF safe_replay_kept [OF sql_kept_up]]
lemmas GetByCode_up = up_kept [OF safe_repo_kept(4) [OF sql_kept_up]]
lemmas DeleteByCode_up = up_kept [OF safe_repo_kept(5) [OF sql_kept_up]]

end

subsection \<open>Why a create fails\<close>

text \<open>
  \<open>create_reason L s inp m x\<close>: what must have been the case, of the request and of the
  codes \<open>m\<close> in the table, for Create to answer with the sentinel \<open>x\<close>.
\<close>

fun create_reason :: "golib \<Rightarrow> 'w url_service \<Rightarrow> create_params \<Rightarrow> coded_map \<Rightarrow> sentinel \<Rightarrow> bool" where
  "create_reason L s inp m ErrInvalidURL =
     (validateLongURL L (blockDomain s) (in_URL inp) = Inl (Sentinel ErrInvalidURL))"
| "create_reason L s inp m ErrURLTooLong =
     (validateLongURL L (blockDomain s) (in_URL inp) = Inl (Sentinel ErrURLTooLong))"
| "create_reason L s inp m ErrSelfReference =
     (validateLongURL L (blockDomain s) (in_URL inp) = Inl (Sentinel ErrSelfReference))"
| "create_reason L s inp m ErrInvalidExpiry =
     (in_ExpiresIn inp \<noteq> '''' \<and> expiry_of (in_ExpiresIn inp) = Inl (Sentinel ErrInvalidExpiry))"
| "create_reason L s inp m ErrIdemKeyTooLong = (length (TrimSpace (in_IdempotencyKey inp)) > 256)"
| "create_reason L s inp m ErrInvalidCode = (validateCustomCode (in_CustomCode inp) \<noteq> None)"
| "create_reason L s inp m ErrCodeTaken = (m (in_CustomCode inp) \<noteq> None)"
| "create_reason L s inp m ErrInFlight = (idem s \<noteq> None \<and> TrimSpace (in_IdempotencyKey inp) \<noteq> '''')"
| "create_reason L s inp m ErrNotFound = (idem s \<noteq> None \<and> TrimSpace (in_IdempotencyKey inp) \<noteq> '''')"
| "create_reason L s inp m ErrExpired = False"
| "create_reason L s inp m RedisNil = False"
| "create_reason L s inp m PgxErrNoRows = False"
| "create_reason L s inp m RepoErrNotFound = True"
| "create_reason L s inp m RepoErrConflict = True"

definition explained :: "golib \<Rightarrow> 'w url_service \<Rightarrow> create_params \<Rightarrow> coded_map \<Rightarrow> goerr \<Rightarrow> bool" where
  "explained L s inp m err \<longleftrightarrow> (\<forall>x. errors_Is err x \<longrightarrow> create_reason L s inp m x)"

lemma explained_Sentinel [simp]: "explained L s inp m (Sentinel x) = create_reason L s inp m x"
  by (simp add: explained_def)

lemma explained_create: "create_error_ok s inp m err \<Longrightarrow> explained L s inp m err"
  unfolding explained_def create_error_ok_def by (metis create_reason.simps insert_iff empty_iff)

lemma explained_trim [simp]:
  "explained L s (inp\<lparr>in_IdempotencyKey := TrimSpace (in_IdempotencyKey inp)\<rparr>) m err = explained L s inp m err"
proof -
  have "create_reason L s (inp\<lparr>in_IdempotencyKey := TrimSpace (in_IdempotencyKey inp)\<rparr>) m x
      = create_reason L s inp m x" for x
    by (cases x) simp_all
  then show ?thesis by (simp add: explained_def)
qed

text \<open>What a call of Create leaves behind and returns, given the validated URL and expiry.\<close>

definition create_post ::
  "golib \<Rightarrow> 'w url_service \<Rightarrow> create_params \<Rightarrow> string \<Rightarrow> time option \<Rightarrow> coded_map \<Rightarrow> coded_map
     \<Rightarrow> goerr + create_result \<Rightarrow> bool" where
  "create_post L s inp l e m m' r =
     (case r of
        Inl err \<Rightarrow> maybe_stored l e m m' \<and> explained L s inp m err
      | Inr res \<Rightarrow>
          res_ShortURL res = shortURLFor L s (Code (res_URL res))
          \<and> m' (Code (res_URL res)) = Some (res_URL res)
          \<and> (if res_Replayed res then m' = m \<and> idem s \<noteq> None \<and> TrimSpace (in_IdempotencyKey inp) \<noteq> ''''
             else fresh_result L s inp l e res \<and> stored_new m m' (res_URL res)))"

lemma createOne_post:
  assumes "db_inv (db w)" "store s = URLRepository P" "run (createOne L s inp l e) w = (r, w')"
  shows "db_inv (db w') \<and> create_post L s inp l e (db_coded (db w)) (db_coded (db w')) r
    \<and> (\<forall>res. r = Inr res \<longrightarrow> \<not> res_Replayed res)"
  using repo.createOne_custom [OF assms(1,2) _ assms(3)] repo.createOne_auto [OF assms(1,2) _ assms(3)]
  by (cases "in_CustomCode inp = ''''")
     (auto simp: create_post_def explained_create fresh_result_def stored_new_def split: sum.splits)

lemma replay_run:
  assumes "store s = URLRepository P" "run (replay L s c) w = (r, w')"
  shows "db w' = db w"
    "r = Inr res \<Longrightarrow> res_Replayed res \<and> db_coded (db w) c = Some (res_URL res)
       \<and> res_ShortURL res = shortURLFor L s (Code (res_URL res)) \<and> Code (res_URL res) = c"
    "r = Inl err \<Longrightarrow> errors_Is err x \<Longrightarrow> x = ErrNotFound \<and> db_coded (db w) c = None \<or> x = RepoErrConflict"
proof -
  obtain q where q: "run (repo_GetByCode P c) w = (q, w')"
    and r: "r = (case q of Inl err \<Rightarrow> if errors_Is err RepoErrNotFound then Inl (Sentinel ErrNotFound) else Inl err
              | Inr u \<Rightarrow> Inr \<lparr>res_URL = u, res_ShortURL = shortURLFor L s (Code u), res_Replayed = True\<rparr>)"
    using assms by (auto simp: replay_def run_simps split: prod.splits sum.splits if_splits)
  note g = repo_get_run [OF q]
  show "db w' = db w" using g by simp
  show "r = Inr res \<Longrightarrow> res_Replayed res \<and> db_coded (db w) c = Some (res_URL res)
       \<and> res_ShortURL res = shortURLFor L s (Code (res_URL res)) \<and> Code (res_URL res) = c"
    using g r db_coded_code [of "db w" c] by (auto split: sum.splits if_splits)
  show "r = Inl err \<Longrightarrow> errors_Is err x \<Longrightarrow> x = ErrNotFound \<and> db_coded (db w) c = None \<or> x = RepoErrConflict"
    using g r unfolding store_error_def by (auto split: sum.splits if_splits)
qed

lemma replay_post:
  assumes "store s = URLRepository P" "run (replay L s c) w = (r, w')"
    "idem s \<noteq> None" "TrimSpace (in_IdempotencyKey inp) \<noteq> ''''"
  shows "db w' = db w \<and> create_post L s inp l e (db_coded (db w)) (db_coded (db w')) r"
proof (cases r)
  case (Inl err)
  have "explained L s inp (db_coded (db w)) err"
    unfolding explained_def using replay_run(3) [OF assms(1,2) Inl] assms(3,4) by fastforce
  with replay_run(1) [OF assms(1,2)] Inl show ?thesis by (simp add: create_post_def)
next
  case (Inr res)
  with replay_run(1,2) [OF assms(1,2)] assms(3,4) show ?thesis by (simp add: create_post_def)
qed

subsection \<open>Create with an idempotency key\<close>

text \<open>A call that began in \<open>w\<close> ends in \<open>w'\<close> with \<open>r\<close>, as the specification says.\<close>

definition create_done ::
  "('x \<Rightarrow> time) \<Rightarrow> golib \<Rightarrow> 'x world url_service \<Rightarrow> create_params \<Rightarrow> string \<Rightarrow> time option
     \<Rightarrow> 'x world \<Rightarrow> goerr + create_result \<Rightarrow> 'x world \<Rightarrow> bool" where
  "create_done tick L s inp l e w r w' \<longleftrightarrow>
     db_inv (db w') \<and> tick (ext w) \<le> tick (ext w')
     \<and> create_post L s inp l e (db_coded (db w)) (db_coded (db w')) r"

lemma create_done_mono:
  "create_done tick L s inp l e v r w' \<Longrightarrow> db v = db w \<Longrightarrow> tick (ext w) \<le> tick (ext v)
     \<Longrightarrow> create_done tick L s inp l e w r w'"
  by (auto simp: create_done_def)

context kv_server begin

lemma createOne_done:
  assumes "store s = URLRepository P" "db_inv (db w)" "run (createOne L s inp l e) w = (r, w')"
  shows "create_done tick L s inp l e w r w'"
  using createOne_post [OF assms(2,1,3)] createOne_kv [OF assms(1,3)] by (simp add: create_done_def)

lemma replay_done:
  assumes "store s = URLRepository P" "db_inv (db w)" "idem s \<noteq> None" "TrimSpace (in_IdempotencyKey inp) \<noteq> ''''"
    and "run (replay L s c) w = (r, w')"
  shows "create_done tick L s inp l e w r w'"
  using replay_post [OF assms(1,5,3,4), of l e] replay_kv [OF assms(1,5)] assms(2) by (auto simp: create_done_def)

lemma wait_for_winner_done:
  assumes "store s = URLRepository P" "idem s \<noteq> None" "TrimSpace (in_IdempotencyKey inp) \<noteq> ''''"
    and "db_inv (db w)" "run (wait_for_winner P L s st key n) w = (r, w')"
  shows "create_done tick L s inp l e w r w'"
  using assms(4,5)
proof (induction n arbitrary: w)
  case 0
  with assms(2,3) show ?case by (auto simp: create_done_def create_post_def)
next
  case (Suc n)
  obtain c x1 where c: "p_ctx_err P (ext w) = (c, x1)" by (cases "p_ctx_err P (ext w)")
  note cl = ctx_law [OF c]
  let ?w2 = "w\<lparr>ext := p_sleep P idemWaitStep x1\<rparr>"
  have t2: "tick (ext w) \<le> tick (ext ?w2)" using cl sleep_law [of idemWaitStep x1] by auto
  obtain g w3 where g: "run (idem_Get P st key) ?w2 = (g, w3)" by (cases "run (idem_Get P st key) ?w2")
  note gl = idem_Get_run(2,3) [OF g]
  consider (cancelled) err where "c = Some err" | (found) code where "c = None" "g = Inr (Some code)"
    | (again) "c = None" "\<nexists>code. g = Inr (Some code)"
    by (cases c) auto
  then show ?case
  proof cases
    case cancelled
    with Suc.prems c cl show ?thesis
      by (auto simp: run_simps act_defs create_done_def create_post_def explained_def)
  next
    case found
    with Suc.prems c g have "run (replay L s code) (inc_metric IdempotencyReplays w3) = (r, w')"
      by (simp add: run_simps act_defs)
    from replay_done [OF assms(1) _ assms(2,3) this, of l e] Suc.prems(1) gl t2
    show ?thesis by (auto intro: create_done_mono)
  next
    case again
    with Suc.prems c g have "run (wait_for_winner P L s st key n) w3 = (r, w')"
      by (auto simp: run_simps act_defs split: sum.splits option.splits)
    from Suc.IH [OF _ this] Suc.prems(1) gl t2 show ?thesis by (auto intro: create_done_mono)
  qed
qed

text \<open>The request that holds the claim: create, record, release.\<close>

lemma claimed_done:
  assumes "store s = URLRepository P" "db_inv (db w)"
    and r: "run (tryp (createOne L s inp l e) (\<lambda>res.
        bindp (idem_Set P st key (Code (res_URL res))) (\<lambda>_.
        bindp (idem_Release P st key) (\<lambda>_. Ret (Inr res))))) w = (r, w')"
  shows "create_done tick L s inp l e w r w'"
proof -
  obtain q y where q: "run (createOne L s inp l e) w = (q, y)" by (cases "run (createOne L s inp l e) w")
  note d = createOne_done [OF assms(1,2) q]
  show ?thesis
  proof (cases q)
    case (Inl x)
    with r q d show ?thesis by (simp add: run_simps)
  next
    case (Inr res)
    obtain e1 y1 where s1: "run (idem_Set P st key (Code (res_URL res))) y = (e1, y1)"
      by (cases "run (idem_Set P st key (Code (res_URL res))) y")
    obtain e2 y2 where s2: "run (idem_Release P st key) y1 = (e2, y2)"
      by (cases "run (idem_Release P st key) y1")
    from r q Inr s1 s2 have "r = Inr res" "w' = y2" by (simp_all add: run_simps)
    with d Inr idem_Set_run(1,2) [OF s1] idem_Release_run(1,2) [OF s2]
    show ?thesis by (simp add: create_done_def)
  qed
qed

text \<open>From a miss on: claim the key, then create or wait.\<close>

lemma idem_miss_done:
  assumes "store s = URLRepository P" "db_inv (db w)" "idem s = Some st" "TrimSpace (in_IdempotencyKey inp) \<noteq> ''''"
    and r: "run (bindp (idem_Claim P st key) (\<lambda>c.
        case c of
          Inl err \<Rightarrow> bindp (Inc IdempotencySkipped) (\<lambda>_. createOne L s inp l e)
        | Inr True \<Rightarrow>
            tryp (createOne L s inp l e) (\<lambda>res.
              bindp (idem_Set P st key (Code (res_URL res))) (\<lambda>_.
              bindp (idem_Release P st key) (\<lambda>_. Ret (Inr res))))
        | Inr False \<Rightarrow> wait_for_winner P L s st key n)) w = (r, w')"
  shows "create_done tick L s inp l e w r w'"
proof -
  obtain c u where c: "run (idem_Claim P st key) w = (c, u)" by (cases "run (idem_Claim P st key) w")
  note cl = idem_Claim_run(1,2) [OF c]
  have u: "db_inv (db u)" using cl assms(2) by simp
  consider (err) x where "c = Inl x" | (won) "c = Inr True" | (lost) "c = Inr False"
    by (cases c; cases "projr c") auto
  then have "create_done tick L s inp l e u r w'"
  proof cases
    case err
    with r c have "run (createOne L s inp l e) (inc_metric IdempotencySkipped u) = (r, w')"
      by (simp add: run_simps)
    from createOne_done [OF assms(1) _ this] u show ?thesis by (auto intro: create_done_mono)
  next
    case won
    with r c show ?thesis by (intro claimed_done [OF assms(1) u]) (simp add: run_simps)
  next
    case lost
    with r c show ?thesis
      by (intro wait_for_winner_done [OF assms(1) _ assms(4) u]) (simp_all add: run_simps assms(3))
  qed
  with cl show ?thesis by (auto intro: create_done_mono)
qed

lemma createIdempotent_done:
  assumes "store s = URLRepository P" "db_inv (db w)"
    and key: "in_IdempotencyKey inp \<noteq> ''''" "TrimSpace (in_IdempotencyKey inp) = in_IdempotencyKey inp"
    and r: "run (createIdempotent P L s inp l e) w = (r, w')"
  shows "create_done tick L s inp l e w r w'"
proof -
  let ?key = "in_IdempotencyKey inp"
  have trim: "TrimSpace ?key \<noteq> ''''" using key by simp
  consider (long) "length ?key > maxIdemKeyLength"
    | (off) "\<not> length ?key > maxIdemKeyLength" "idem s = None"
    | (on) ids where "\<not> length ?key > maxIdemKeyLength" "idem s = Some ids" by (cases "idem s") auto
  then show ?thesis
  proof cases
    case long
    with r assms(2) key show ?thesis
      by (auto simp: createIdempotent_def Let_def create_done_def create_post_def maxIdemKeyLength_def)
  next
    case off
    with r show ?thesis by (intro createOne_done [OF assms(1,2)]) (simp add: createIdempotent_def Let_def)
  next
    case on
    obtain g v where g: "run (idem_Get P ids ?key) w = (g, v)" by (cases "run (idem_Get P ids ?key) w")
    note gl = idem_Get_run(2,3) [OF g]
    have v: "db_inv (db v)" using gl assms(2) by simp
    consider (err) x where "g = Inl x" | (hit) code where "g = Inr (Some code)" | (miss) "g = Inr None"
      by (cases g; cases "projr g") auto
    then have "create_done tick L s inp l e v r w'"
    proof cases
      case err
      with r on g have "run (createOne L s inp l e) (inc_metric IdempotencySkipped v) = (r, w')"
        by (simp add: createIdempotent_def Let_def run_simps)
      from createOne_done [OF assms(1) _ this] v show ?thesis by (auto intro: create_done_mono)
    next
      case hit
      with r on g have "run (replay L s code) (inc_metric IdempotencyReplays v) = (r, w')"
        by (simp add: createIdempotent_def Let_def run_simps)
      from replay_done [OF assms(1) _ _ trim this, of l e] v on show ?thesis by (auto intro: create_done_mono)
    next
      case miss
      with r on g show ?thesis
        by (intro idem_miss_done [OF assms(1) v on(2) trim]) (simp add: createIdempotent_def Let_def run_simps)
    qed
    with gl show ?thesis by (auto intro: create_done_mono)
  qed
qed

end

subsection \<open>Create\<close>

text \<open>The expiry a request asks for, granted at an instant between its start and its end.\<close>

definition expiry_granted :: "time \<Rightarrow> time \<Rightarrow> string \<Rightarrow> time option \<Rightarrow> bool" where
  "expiry_granted t0 t1 inp e \<longleftrightarrow>
     (if inp = '''' then e = None
      else \<exists>d now. expiry_of inp = Inr d \<and> t0 \<le> now \<and> now \<le> t1 \<and> e = Some (now + d))"

lemma create_done_trim [simp]:
  "create_done tick L s (inp\<lparr>in_IdempotencyKey := TrimSpace (in_IdempotencyKey inp)\<rparr>) l e w r w'
     = create_done tick L s inp l e w r w'"
  by (simp add: create_done_def create_post_def fresh_result_def split: sum.split)

lemma expiry_of_error: "expiry_of i = Inl err \<Longrightarrow> err = Sentinel ErrInvalidExpiry"
  by (auto simp: expiry_of_def Let_def split: option.splits if_splits)

definition create_body ::
  "'x platform \<Rightarrow> golib \<Rightarrow> 'x world url_service \<Rightarrow> create_params \<Rightarrow> string \<Rightarrow> time option
     \<Rightarrow> ('x world, goerr + create_result) prog" where
  \<comment> \<open>\<open>service_Create\<close> once URL and expiry are known\<close>
  "create_body P L s inp longURL expiresAt =
     (if in_IdempotencyKey inp \<noteq> ''''
      then createIdempotent P L s inp longURL expiresAt
      else tryp (createOne L s inp longURL expiresAt) (\<lambda>res.
             Ret (Inr \<lparr>res_URL = res_URL res, res_ShortURL = res_ShortURL res, res_Replayed = False\<rparr>)))"

context kv_server begin

lemma create_body_done:
  assumes "store s = URLRepository P" "db_inv (db w)" "TrimSpace (in_IdempotencyKey inp) = in_IdempotencyKey inp"
    and r: "run (create_body P L s inp l e) w = (r, w')"
  shows "create_done tick L s inp l e w r w'"
proof (cases "in_IdempotencyKey inp = ''''")
  case False
  with r show ?thesis
    by (intro createIdempotent_done [OF assms(1,2) False assms(3)]) (simp add: create_body_def)
next
  case True
  obtain q v where q: "run (createOne L s inp l e) w = (q, v)" by (cases "run (createOne L s inp l e) w")
  note d = createOne_done [OF assms(1,2) q] createOne_post [OF assms(2,1) q]
  show ?thesis
  proof (cases q)
    case (Inl err)
    with True q r d show ?thesis by (auto simp: create_body_def run_simps)
  next
    case (Inr res)
    then have "\<not> res_Replayed res" using d by simp
    then have "\<lparr>res_URL = res_URL res, res_ShortURL = res_ShortURL res, res_Replayed = False\<rparr> = res"
      by (cases res) simp
    with True q r d Inr show ?thesis by (auto simp: create_body_def run_simps)
  qed
qed

lemma service_Create_done:
  assumes st: "store s = URLRepository P" "db_inv (db w)"
    and r: "run (service_Create P L s inp) w = (r, w')"
  shows "(\<exists>l e. validateLongURL L (blockDomain s) (in_URL inp) = Inr l
            \<and> expiry_granted (tick (ext w)) (tick (ext w')) (in_ExpiresIn inp) e
            \<and> create_done tick L s inp l e w r w')
    \<or> (\<exists>x. r = Inl (Sentinel x) \<and> create_reason L s inp (db_coded (db w)) x \<and> w' = w)"
proof (cases "validateLongURL L (blockDomain s) (in_URL inp)")
  case (Inl err)
  with validateLongURL_errors [OF Inl] r show ?thesis by (auto simp: service_Create_def)
next
  case (Inr l)
  let ?inp = "inp\<lparr>in_IdempotencyKey := TrimSpace (in_IdempotencyKey inp)\<rparr>"
  have body: "create_done tick L s inp l e v r w'" if "run (create_body P L s ?inp l e) v = (r, w')" "db v = db w" for v e
    using create_body_done [OF st(1) _ _ that(1)] st(2) that(2) by simp
  show ?thesis
  proof (cases "in_ExpiresIn inp = ''''")
    case True
    with r Inr have "run (create_body P L s ?inp l None) w = (r, w')"
      by (simp add: service_Create_def create_body_def Let_def tryp_def)
    from body [OF this] Inr True show ?thesis by (auto simp: expiry_granted_def)
  next
    case False
    show ?thesis
    proof (cases "expiry_of (in_ExpiresIn inp)")
      case (Inl err)
      with False r Inr expiry_of_error [OF Inl] show ?thesis
        by (auto simp: service_Create_def parseExpiry_def run_simps)
    next
      case (Inr d)
      obtain t x where t: "p_now P (ext w) = (t, x)" by (cases "p_now P (ext w)")
      with False r Inr \<open>validateLongURL L (blockDomain s) (in_URL inp) = Inr l\<close>
      have "run (create_body P L s ?inp l (Some (t + d))) (w\<lparr>ext := x\<rparr>) = (r, w')"
        by (simp add: service_Create_def parseExpiry_def create_body_def Let_def run_simps act_defs)
      from body [OF this] now_law [OF t] False Inr \<open>validateLongURL L (blockDomain s) (in_URL inp) = Inr l\<close>
      show ?thesis by (fastforce simp: expiry_granted_def create_done_def)
    qed
  qed
qed

end

end
