(* ===== verification/Up_Spec.thy ===== *)
theory Up_Spec
imports Create_Spec
begin

section \<open>The service when nothing fails\<close>

text \<open>
  In the states of \<open>kv_server_up\<close> every statement is executed and every Redis command
  answers, so what a method returns is a function of the database and the key space. These
  lemmas compute it, branch by branch.
\<close>

lemma code_char_ascii: "code_char c \<Longrightarrow> byte c < 128 \<and> c \<noteq> CHR 0x00"
  by (auto simp: code_char_def is_upper_def is_lower_def is_digit_def byte_def)

lemma code_pg_text: "urls_code_format c \<Longrightarrow> pg_text c"
proof -
  assume "urls_code_format c"
  then have a: "\<forall>x \<in> set c. byte x < 128 \<and> x \<noteq> CHR 0x00"
    using code_char_ascii by (simp add: urls_code_format_def list_all_iff)
  then have "is_ascii c" by (simp add: is_ascii_def list_all_iff)
  with a show ?thesis unfolding pg_text_def by (blast intro: valid_utf8_ascii)
qed

lemma lookup_format: "db_inv d \<Longrightarrow> lookup_url d c = Some u \<Longrightarrow> urls_code_format c"
  unfolding db_inv_def urls_inv_def using lookup_None [of d c] by auto

lemma select_url_eq:
  "select_url c now d =
     (if \<not> pg_text c then Inl (PgError ''22021'')
      else case lookup_url d c of None \<Rightarrow> Inl (Sentinel PgxErrNoRows) | Some u \<Rightarrow> Inr u, d)"
  by (auto simp: select_url_def lookup_url_def split: option.splits)

lemma custom_code_format: "validateCustomCode c = None \<Longrightarrow> urls_code_format c"
  by (auto simp: validateCustomCode_def customCodeRe_def urls_code_format_def limit_defs split: if_splits)

text \<open>What the two kinds of create answer, branch by branch.\<close>

definition created :: "golib \<Rightarrow> 'w url_service \<Rightarrow> url \<Rightarrow> create_result" where
  "created L s u = \<lparr>res_URL = u, res_ShortURL = shortURLFor L s (Code u), res_Replayed = False\<rparr>"

definition custom_outcome ::
  "golib \<Rightarrow> 'w url_service \<Rightarrow> string \<Rightarrow> string \<Rightarrow> time option \<Rightarrow> database \<Rightarrow> time \<Rightarrow> goerr + create_result" where
  "custom_outcome L s c l e d t =
     (if validateCustomCode c \<noteq> None then Inl (Sentinel ErrInvalidCode)
      else if \<not> pg_text l then Inl (WrapPre ''insert url with code'' (PgError ''22021''))
      else if next_id d > max_int64 then Inl (WrapPre ''insert url with code'' (PgError ''2200H''))
      else if \<not> urls_long_url_length l then Inl (WrapPre ''insert url with code'' (PgError ''23514''))
      else if lookup_url d c \<noteq> None then Inl (WrapSuf (Sentinel ErrCodeTaken) (go_quote c))
      else Inr (created L s (fresh_url (next_id d) c l e t)))"

definition auto_outcome ::
  "golib \<Rightarrow> 'w url_service \<Rightarrow> string \<Rightarrow> string \<Rightarrow> time option \<Rightarrow> database \<Rightarrow> time \<Rightarrow> goerr + create_result" where
  "auto_outcome L s k l e d t =
     (if \<not> pg_text l then Inl (WrapPre ''insert url'' (PgError ''22021''))
      else if next_id d > max_int64 then Inl (WrapPre ''insert url'' (PgError ''2200H''))
      else if \<not> urls_long_url_length l then Inl (WrapPre ''insert url'' (PgError ''23514''))
      else if lookup_url d k \<noteq> None
      then Inl (WrapPre ''codegen collision (database state inconsistent)''
                 (WrapSuf (Sentinel RepoErrConflict) (''code '' @ go_quote k)))
      else Inr (created L s (fresh_url (next_id d) k l e t)))"

lemma insert_custom_eq:
  assumes "urls_code_format c"
  shows "fst (insert_url (Some c) l e now d) =
     (if \<not> pg_text l then Inl (PgError ''22021'')
      else if next_id d > max_int64 then Inl (PgError ''2200H'')
      else if \<not> urls_long_url_length l then Inl (PgError ''23514'')
      else if lookup_url d c \<noteq> None then Inl (PgError ''23505'')
      else Inr (next_id d))"
  using assms code_pg_text [OF assms]
  by (simp add: insert_url_def Let_def list_ex_has_code lookup_None)

lemma auto_code_format: "EncodeBase62 n = Some k \<Longrightarrow> urls_code_format k"
  using numeral62_code_char [of "unat n"] numeral62_length [of n]
  by (auto simp: EncodeBase62_eq urls_code_format_def)

lemma update_pending_eq:
  assumes "urls_inv d" "db_pending d i = Some u" "urls_code_format k"
  shows "update_url_code k i now d =
     (if lookup_url d k \<noteq> None then (Inl (PgError ''23505''), d)
      else (Inr 1, d\<lparr>urls := map (set_row_code i k) (urls d)\<rparr>))"
proof -
  from assms(2) obtain row where row: "row \<in> set (urls d)" "r_id row = i" "r_code row = None"
    by (auto simp: db_pending_def dest!: find_Some_D)
  have "r_code q = None" if "q \<in> set (urls d)" "r_id q = i" for q
    using assms(1) row that by (auto simp: urls_inv_def ids_def distinct_map inj_on_def)
  then have "list_ex (\<lambda>r. has_code k r \<and> r_id r \<noteq> i) (urls d) \<longleftrightarrow> lookup_url d k \<noteq> None"
    unfolding lookup_None codes_set list_ex_iff by (force simp: has_code_def)
  with row code_pg_text [OF assms(3)] assms(3) show ?thesis
    by (auto simp: update_url_code_def list_ex_iff)
qed

lemma insert_auto_eq:
  "fst (insert_url None l e now d) =
     (if \<not> pg_text l then Inl (PgError ''22021'')
      else if next_id d > max_int64 then Inl (PgError ''2200H'')
      else if \<not> urls_long_url_length l then Inl (PgError ''23514'')
      else Inr (next_id d))"
  by (simp add: insert_url_def Let_def)

lemma insert_failed_lookup:
  assumes "fst (insert_url co l e now d) = Inl err"
  shows "lookup_url (snd (insert_url co l e now d)) = lookup_url d"
  using insert_url_Inl [of co l e now d err "snd (insert_url co l e now d)"] assms
  by (auto simp: prod_eq_iff lookup_url_def fun_eq_iff)

context kv_server_up begin

lemma sql_step_up:
  assumes "up (ext w)"
  obtains x where "sql_step P st w = (fst (st (p_sql_now P x) (db w)), w\<lparr>db := snd (st (p_sql_now P x) (db w)), ext := x\<rparr>)"
    "up x" "raw x = raw (ext w)" "tick (ext w) \<le> tick x"
proof -
  obtain f x where f: "p_sql P (ext w) = (f, x)" by (cases "p_sql P (ext w)")
  with sql_up [OF assms] have "f = Executed" "up x" by auto
  with f sql_law [OF f] that [of x] show thesis by (simp add: sql_step_def split: prod.split)
qed

text \<open>What a world keeps over a step that only reads: all but the platform's own state.\<close>

definition quiet :: "'x world \<Rightarrow> 'x world \<Rightarrow> bool" where
  "quiet w w' \<longleftrightarrow> up (ext w') \<and> raw (ext w') = raw (ext w) \<and> tick (ext w) \<le> tick (ext w')"

lemma repo_get_up:
  assumes "up (ext w)" "run (repo_GetByCode P c) w = (r, w')"
  shows "quiet w w' \<and> db w' = db w
    \<and> r = (if \<not> pg_text c then Inl (WrapPre ''get url by code'' (PgError ''22021''))
           else case lookup_url (db w) c of None \<Rightarrow> Inl (Sentinel RepoErrNotFound) | Some u \<Rightarrow> Inr u)"
  using assms(1)
proof (rule sql_step_up [where st = "select_url c"])
  fix x
  assume "sql_step P (select_url c) w =
      (fst (select_url c (p_sql_now P x) (db w)), w\<lparr>db := snd (select_url c (p_sql_now P x) (db w)), ext := x\<rparr>)"
    "up x" "raw x = raw (ext w)" "tick (ext w) \<le> tick x"
  with assms(2) show ?thesis
    by (auto simp: repo_GetByCode_def run_simps select_url_eq quiet_def split: option.splits if_splits)
qed

lemma replay_hit_up:
  assumes "up (ext w)" "db_inv (db w)" "store s = URLRepository P" "lookup_url (db w) c = Some u"
    and "run (replay L s c) w = (r, w')"
  shows "quiet w w' \<and> db w' = db w
    \<and> r = Inr \<lparr>res_URL = u, res_ShortURL = shortURLFor L s c, res_Replayed = True\<rparr>"
proof -
  obtain q v where q: "run (repo_GetByCode P c) w = (q, v)" by (cases "run (repo_GetByCode P c) w")
  have c: "Code u = c" using db_coded_code [of "db w" c u] assms(4) by (simp add: db_coded_def)
  from repo_get_up [OF assms(1) q] lookup_format [OF assms(2,4)] assms(4)
  have "quiet w v" "db v = db w" "q = Inr u" by (auto dest: code_pg_text)
  with assms(3,5) q c show ?thesis by (simp add: replay_def run_simps)
qed

lemma createOne_custom_up:
  assumes up: "up (ext w)" and inv: "db_inv (db w)" and st: "store s = URLRepository P"
    and c: "in_CustomCode inp = c" "c \<noteq> []" and r: "run (createOne L s inp l e) w = (r, w')"
  shows "quiet w w' \<and> (\<exists>t. r = custom_outcome L s c l e (db w) t)
    \<and> (\<forall>err. r = Inl err \<longrightarrow> lookup_url (db w') = lookup_url (db w))"
proof (cases rule: validateCustomCode_cases [of c])
  case 2
  with r c up show ?thesis by (auto simp: createOne_def run_simps custom_outcome_def quiet_def)
next
  case 1
  note fmt = custom_code_format [OF 1]
  let ?st = "insert_url (Some c) l e"
  from up show ?thesis
  proof (rule sql_step_up [where st = ?st])
    fix x
    let ?v = "w\<lparr>db := snd (?st (p_sql_now P x) (db w)), ext := x\<rparr>"
    assume q: "sql_step P ?st w = (fst (?st (p_sql_now P x) (db w)), ?v)"
      and x: "up x" "raw x = raw (ext w)" "tick (ext w) \<le> tick x"
    show ?thesis
    proof (cases "fst (?st (p_sql_now P x) (db w))")
      case (Inl err)
      from insert_failed_lookup [of "Some c" l e "p_sql_now P x" "db w"] Inl r 1 c st q x show ?thesis
        by (simp add: createOne_def repo_CreateWithCode_def run_simps quiet_def insert_custom_eq [OF fmt]
            custom_outcome_def isUniqueViolation_def split: if_splits) auto
    next
      case (Inr i)
      then have ins: "?st (p_sql_now P x) (db w) = (Inr i, db ?v)" by (simp add: prod_eq_iff)
      have i: "i = next_id (db w)" and ok: "pg_text l" "\<not> next_id (db w) > max_int64" "urls_long_url_length l"
        "lookup_url (db w) c = None"
        using Inr by (auto simp: insert_custom_eq [OF fmt] split: if_splits)
      have look: "lookup_url (db ?v) c = Some (fresh_url i c l e (pg_ts (p_sql_now P x)))"
        using insert_coded(2) [OF ins] by (simp add: db_coded_def fun_eq_iff)
      obtain g y where g: "run (repo_GetByCode P c) ?v = (g, y)" by (cases "run (repo_GetByCode P c) ?v")
      from repo_get_up [OF _ g] x look code_pg_text [OF fmt]
      have "quiet ?v y" "g = Inr (fresh_url i c l e (pg_ts (p_sql_now P x)))" by auto
      with r 1 c st q x g Inr i ok show ?thesis
        by (auto simp: createOne_def repo_CreateWithCode_def run_simps quiet_def custom_outcome_def created_def)
    qed
  qed
qed

lemma set_code_up:
  assumes up: "up (ext w)" and inv: "db_inv (db w)" and p: "db_pending (db w) i = Some u" and k: "urls_code_format k"
    and r: "run (repo_SetCode P i k) w = (r, w')"
  shows "quiet w w'
    \<and> (if lookup_url (db w) k \<noteq> None
       then r = Inl (WrapSuf (Sentinel RepoErrConflict) (''code '' @ go_quote k)) \<and> db w' = db w
       else r = Inr () \<and> lookup_url (db w') = (lookup_url (db w))(k \<mapsto> u\<lparr>Code := k\<rparr>))"
  using up
proof (rule sql_step_up [where st = "update_url_code k i"])
  fix x
  let ?u = "update_url_code k i (p_sql_now P x) (db w)"
  assume q: "sql_step P (update_url_code k i) w = (fst ?u, w\<lparr>db := snd ?u, ext := x\<rparr>)"
    and x: "up x" "raw x = raw (ext w)" "tick (ext w) \<le> tick x"
  have ui: "urls_inv (db w)" using inv by (simp add: db_inv_def)
  note eq = update_pending_eq [OF ui p k, of "p_sql_now P x"]
  show ?thesis
  proof (cases "lookup_url (db w) k = None")
    case True
    with update_coded [OF ui p, of k "p_sql_now P x" "fst ?u" "snd ?u"] eq
    have "lookup_url (snd ?u) = (lookup_url (db w))(k \<mapsto> u\<lparr>Code := k\<rparr>)"
      by (auto simp: db_coded_def fun_eq_iff)
    with True r q x eq show ?thesis by (auto simp: repo_SetCode_def run_simps quiet_def)
  next
    case False
    with r q x eq show ?thesis by (auto simp: repo_SetCode_def run_simps quiet_def isUniqueViolation_def)
  qed
qed

text \<open>The second half of a create without a custom code: the row is in, without a code.\<close>

lemma set_then_get_up:
  assumes up: "up (ext w)" and inv: "db_inv (db w)" and p: "db_pending (db w) i = Some (fresh_url i '''' l e t)"
    and k: "urls_code_format k" and free: "lookup_url (db w) k = None"
    and z: "run (repo_SetCode P i k) w = (z, y)" and g: "run (repo_GetByCode P k) y = (g, y')"
  shows "quiet w y' \<and> z = Inr () \<and> g = Inr (fresh_url i k l e t)"
proof -
  from set_code_up [OF up inv p k z] free
  have y: "quiet w y" "z = Inr ()" "lookup_url (db y) k = Some (fresh_url i k l e t)"
    by (auto simp: fresh_url_recode)
  with repo_get_up [OF _ g] code_pg_text [OF k] show ?thesis by (auto simp: quiet_def)
qed

lemma createOne_auto_up:
  assumes up: "up (ext w)" and inv: "db_inv (db w)" and st: "store s = URLRepository P"
    and c: "in_CustomCode inp = ''''" and k: "EncodeBase62 (word_of_int (next_id (db w))) = Some k"
    and r: "run (createOne L s inp l e) w = (r, w')"
  shows "quiet w w' \<and> (\<exists>t. r = auto_outcome L s k l e (db w) t)
    \<and> (pg_text l \<and> next_id (db w) \<le> max_int64 \<and> urls_long_url_length l \<and> lookup_url (db w) k \<noteq> None \<longrightarrow>
        db_pending (db w') (next_id (db w)) \<noteq> None \<and> lookup_url (db w') = lookup_url (db w))
    \<and> (\<forall>err. r = Inl err \<longrightarrow> lookup_url (db w') = lookup_url (db w))"
  using up
proof (rule sql_step_up [where st = "insert_url None l e"])
  fix x
  let ?st = "insert_url None l e"
  let ?v = "w\<lparr>db := snd (?st (p_sql_now P x) (db w)), ext := x\<rparr>"
  assume q: "sql_step P ?st w = (fst (?st (p_sql_now P x) (db w)), ?v)"
    and x: "up x" "raw x = raw (ext w)" "tick (ext w) \<le> tick x"
  note fmt = auto_code_format [OF k]
  show ?thesis
  proof (cases "fst (?st (p_sql_now P x) (db w))")
    case (Inl err)
    from insert_failed_lookup [of None l e "p_sql_now P x" "db w"] Inl r c st q x show ?thesis
      by (simp add: createOne_def repo_Create_def run_simps quiet_def insert_auto_eq auto_outcome_def split: if_splits) auto
  next
    case (Inr i)
    then have ins: "?st (p_sql_now P x) (db w) = (Inr i, db ?v)" by (simp add: prod_eq_iff)
    have i: "i = next_id (db w)" and ok: "pg_text l" "\<not> next_id (db w) > max_int64" "urls_long_url_length l"
      using Inr by (auto simp: insert_auto_eq split: if_splits)
    have ui: "urls_inv (db w)" using inv by (simp add: db_inv_def)
    note p = insert_uncoded [OF ins ui]
    have look: "lookup_url (db ?v) = lookup_url (db w)" using p(1) by (simp add: db_coded_def fun_eq_iff)
    have vi: "db_inv (db ?v)" using insert_url_inv [OF ins inv] .
    have vu: "up (ext ?v)" using x by simp
    obtain z y where z: "run (repo_SetCode P i k) ?v = (z, y)" by (cases "run (repo_SetCode P i k) ?v")
    show ?thesis
    proof (cases "lookup_url (db w) k = None")
      case False
      with set_code_up [OF vu vi p(2) fmt z, unfolded look]
      have "quiet ?v y" "db y = db ?v" "z = Inl (WrapSuf (Sentinel RepoErrConflict) (''code '' @ go_quote k))"
        by auto
      with False r c k st q x z Inr i ok p look show ?thesis
        by (auto simp: createOne_def repo_Create_def run_simps quiet_def auto_outcome_def)
    next
      case True
      obtain g y' where g: "run (repo_GetByCode P k) y = (g, y')" by (cases "run (repo_GetByCode P k) y")
      from set_then_get_up [OF vu vi p(2) fmt _ z g] True look
      have "quiet ?v y'" "z = Inr ()" "g = Inr (fresh_url i k l e (pg_ts (p_sql_now P x)))" by auto
      with True r c k st q x z g Inr i ok show ?thesis
        by (auto simp: createOne_def repo_Create_def run_simps quiet_def auto_outcome_def created_def)
    qed
  qed
qed

subsection \<open>Replays\<close>

lemma wait_replayed:
  assumes "store s = URLRepository P" "run (wait_for_winner P L s st key n) w = (Inr res, w')"
  shows "res_Replayed res"
  using assms(2)
proof (induction n arbitrary: w)
  case (Suc n)
  then show ?case
    using replay_run(2) [OF assms(1)]
    by (auto simp: run_simps split: prod.splits option.splits sum.splits)
qed simp

lemma service_Create_keyed:
  assumes key: "TrimSpace (in_IdempotencyKey inp) \<noteq> ''''"
    and r: "run (service_Create P L s inp) w = (r, w')"
  obtains (invalid) x where "r = Inl x" "validateLongURL L (blockDomain s) (in_URL inp) = Inl x"
    | (expiry) x where "r = Inl x" "in_ExpiresIn inp \<noteq> ''''" "expiry_of (in_ExpiresIn inp) = Inl x"
    | (body) v l e where
        "run (createIdempotent P L s (inp\<lparr>in_IdempotencyKey := TrimSpace (in_IdempotencyKey inp)\<rparr>) l e) v = (r, w')"
        "db v = db w" "raw (ext v) = raw (ext w)" "tick (ext w) \<le> tick (ext v)" "up (ext w) \<longrightarrow> up (ext v)"
proof (cases "validateLongURL L (blockDomain s) (in_URL inp)")
  case (Inl x)
  with r show thesis by (intro invalid) (auto simp: service_Create_def)
next
  case l: (Inr l)
  show thesis
  proof (cases "in_ExpiresIn inp = ''''")
    case True
    with r l key show thesis by (intro body [of l None w]) (simp_all add: service_Create_def Let_def tryp_def)
  next
    case False
    show thesis
    proof (cases "expiry_of (in_ExpiresIn inp)")
      case (Inl x)
      with False r l show thesis by (intro expiry) (auto simp: service_Create_def parseExpiry_def run_simps)
    next
      case (Inr d)
      obtain t x where t: "p_now P (ext w) = (t, x)" by (cases "p_now P (ext w)")
      with now_law [OF t] now_up [of "ext w"] False r l Inr key show thesis
        by (intro body [of l "Some (t + d)" "w\<lparr>ext := x\<rparr>"])
          (simp_all add: service_Create_def parseExpiry_def Let_def run_simps act_defs)
    qed
  qed
qed

text \<open>A create that was not a replay has recorded its code under the key for the response lifetime.\<close>

lemma recorded_up:
  assumes up: "up (ext w)" and st: "store s = URLRepository P" and ttl: "0 < RespTTL ist"
    and r: "run (tryp (createOne L s inp l e) (\<lambda>res.
        bindp (idem_Set P ist key (Code (res_URL res))) (\<lambda>_.
        bindp (idem_Release P ist key) (\<lambda>_. Ret (Inr res))))) w = (Inr res, w')"
  shows "up (ext w') \<and> (\<exists>dl. raw (ext w') (respKey ist key) = Some (Code (res_URL res), Some dl)
    \<and> tick (ext w) + RespTTL ist - nano_ms \<le> dl)"
proof -
  obtain q y where q: "run (createOne L s inp l e) w = (q, y)" by (cases "run (createOne L s inp l e) w")
  have y: "up (ext y)" "tick (ext w) \<le> tick (ext y)"
    using createOne_up [OF st up q] createOne_kv [OF st q] by auto
  from r q obtain res' where res': "q = Inr res'" by (cases q) (auto simp: run_simps)
  obtain e1 x1 where s1: "p_set P (respKey ist key) (Code (res_URL res')) (RespTTL ist) (ext y) = (e1, x1)"
    by (cases "p_set P (respKey ist key) (Code (res_URL res')) (RespTTL ist) (ext y)")
  obtain e2 x2 where s2: "p_del P (lockKey ist key) x1 = (e2, x2)" by (cases "p_del P (lockKey ist key) x1")
  from r q res' s1 s2 have "res = res'" "w' = y\<lparr>ext := x2\<rparr>" by (auto simp: run_simps idem_defs)
  moreover have "up x1" "e1 = None" using set_up [OF y(1)] s1 ttl by (metis fst_conv snd_conv)+
  moreover have "up x2" using del_up [OF \<open>up x1\<close>, of "lockKey ist key"] s2 by simp
  moreover have "raw x2 (respKey ist key) = raw x1 (respKey ist key)" using del_law [OF s2] by auto
  moreover have "set_with (raw (ext y)) (respKey ist key) (Code (res_URL res')) (RespTTL ist) (tick (ext y)) (tick x1) (raw x1)"
    using set_law [OF s1] \<open>e1 = None\<close> by simp
  ultimately show ?thesis using y(2) by (fastforce simp: set_with_def)
qed

lemma createIdempotent_fresh_up:
  assumes up: "up (ext w)" and st: "store s = URLRepository P" and ist: "idem s = Some ist" "0 < RespTTL ist"
    and r: "run (createIdempotent P L s inp l e) w = (Inr res, w')" and fresh: "\<not> res_Replayed res"
  shows "up (ext w') \<and> (\<exists>dl. raw (ext w') (respKey ist (in_IdempotencyKey inp)) = Some (Code (res_URL res), Some dl)
    \<and> tick (ext w) + RespTTL ist - nano_ms \<le> dl)"
proof -
  let ?key = "in_IdempotencyKey inp"
  have short: "\<not> length ?key > maxIdemKeyLength"
    using r by (auto simp: createIdempotent_def Let_def split: if_splits)
  obtain g x1 where g: "p_get P (respKey ist ?key) (ext w) = (g, x1)" by (cases "p_get P (respKey ist ?key) (ext w)")
  have x1: "up x1" "tick (ext w) \<le> tick x1" using get_up [OF up, of "respKey ist ?key"] get_law [OF g] g by auto
  have miss: "g = Inl (Sentinel RedisNil)"
  proof (cases g)
    case (Inl x)
    with get_up [OF up, of "respKey ist ?key"] g show ?thesis by simp
  next
    case (Inr c)
    with r short ist g have "run (replay L s c) (inc_metric IdempotencyReplays (w\<lparr>ext := x1\<rparr>)) = (Inr res, w')"
      by (simp add: createIdempotent_def Let_def run_simps idem_defs)
    from replay_run(2) [OF st this] fresh show ?thesis by simp
  qed
  obtain c x2 where c: "p_setnx P (lockKey ist ?key) ''1'' (LockTTL ist) x1 = (c, x2)"
    by (cases "p_setnx P (lockKey ist ?key) ''1'' (LockTTL ist) x1")
  have x2: "up x2" "tick x1 \<le> tick x2" "\<exists>b. c = Inr b"
    using setnx_up [OF x1(1), of "lockKey ist ?key" "''1''" "LockTTL ist"] setnx_law [OF c] c by auto
  have "c = Inr True"
  proof (rule ccontr)
    assume "c \<noteq> Inr True"
    with x2(3) have "c = Inr False" by auto
    with r short ist g miss c have "run (wait_for_winner P L s ist ?key idemWaitPolls) (w\<lparr>ext := x2\<rparr>) = (Inr res, w')"
      by (simp add: createIdempotent_def Let_def run_simps idem_defs)
    from wait_replayed [OF st this] fresh show False by simp
  qed
  with r short ist g miss c
  have "run (tryp (createOne L s inp l e) (\<lambda>res.
        bindp (idem_Set P ist ?key (Code (res_URL res))) (\<lambda>_.
        bindp (idem_Release P ist ?key) (\<lambda>_. Ret (Inr res))))) (w\<lparr>ext := x2\<rparr>) = (Inr res, w')"
    by (simp add: createIdempotent_def Let_def run_simps idem_Get_def idem_Claim_def)
  from recorded_up [OF _ st ist(2) this] x1 x2 show ?thesis by force
qed

lemma createIdempotent_recorded_up:
  assumes up: "up (ext w)" and inv: "db_inv (db w)" and st: "store s = URLRepository P" and ist: "idem s = Some ist"
    and key: "length (in_IdempotencyKey inp) \<le> 256" "TrimSpace (in_IdempotencyKey inp) \<noteq> ''''"
    and recorded: "raw (ext w) (respKey ist (in_IdempotencyKey inp)) = Some (c, Some dl)"
    and r: "run (createIdempotent P L s inp l e) w = (r, w')" and t: "tick (ext w') < dl"
  obtains v where "run (replay L s c) v = (r, w')" "db v = db w" "up (ext v)"
proof -
  let ?key = "in_IdempotencyKey inp"
  have short: "\<not> length ?key > maxIdemKeyLength" using key by (simp add: maxIdemKeyLength_def)
  obtain g x1 where g: "p_get P (respKey ist ?key) (ext w) = (g, x1)" by (cases "p_get P (respKey ist ?key) (ext w)")
  note gl = get_law [OF g]
  show thesis
  proof (cases g)
    case (Inl x)
    with get_up [OF up, of "respKey ist ?key"] g have x: "x = Sentinel RedisNil" by simp
    let ?v = "w\<lparr>ext := x1\<rparr>"
    have "create_done tick L s inp l e ?v r w'"
      using r short ist g Inl x inv
      by (intro idem_miss_done [OF st _ ist key(2), where key = "?key" and n = idemWaitPolls])
        (simp_all add: createIdempotent_def Let_def run_simps idem_Get_def)
    then have "tick x1 < dl" using t by (simp add: create_done_def)
    with gl Inl x recorded show thesis by (simp add: live_def)
  next
    case (Inr c')
    with gl recorded have "c' = c" by (auto simp: live_def split: if_splits)
    let ?v = "inc_metric IdempotencyReplays (w\<lparr>ext := x1\<rparr>)"
    have "run (replay L s c) ?v = (r, w')"
      using r short ist g Inr \<open>c' = c\<close> by (simp add: createIdempotent_def Let_def run_simps idem_Get_def)
    moreover have "up (ext ?v)" using get_up [OF up, of "respKey ist ?key"] g by simp
    ultimately show thesis by (intro that [of ?v]) simp_all
  qed
qed

lemma createIdempotent_hit_up:
  assumes "up (ext w)" and inv: "db_inv (db w)" and st: "store s = URLRepository P" and "idem s = Some ist"
    and "length (in_IdempotencyKey inp) \<le> 256" "TrimSpace (in_IdempotencyKey inp) \<noteq> ''''"
    and "raw (ext w) (respKey ist (in_IdempotencyKey inp)) = Some (c, Some dl)"
    and u: "lookup_url (db w) c = Some u"
    and "run (createIdempotent P L s inp l e) w = (r, w')" "tick (ext w') < dl"
  shows "r = Inr \<lparr>res_URL = u, res_ShortURL = shortURLFor L s c, res_Replayed = True\<rparr> \<and> db w' = db w"
proof -
  obtain v where "run (replay L s c) v = (r, w')" "db v = db w" "up (ext v)"
    using createIdempotent_recorded_up [OF assms(1-7,9,10)] .
  with replay_hit_up [of v s c u L r w'] st inv u show ?thesis by simp
qed

lemma createIdempotent_gone_up:
  assumes "up (ext w)" "db_inv (db w)" and st: "store s = URLRepository P" and "idem s = Some ist"
    and "length (in_IdempotencyKey inp) \<le> 256" "TrimSpace (in_IdempotencyKey inp) \<noteq> ''''"
    and "raw (ext w) (respKey ist (in_IdempotencyKey inp)) = Some (c, Some dl)"
    and gone: "lookup_url (db w) c = None" and c: "pg_text c"
    and "run (createIdempotent P L s inp l e) w = (r, w')" "tick (ext w') < dl"
  shows "r = Inl (Sentinel ErrNotFound) \<and> db w' = db w"
proof -
  obtain v where v: "run (replay L s c) v = (r, w')" "db v = db w" "up (ext v)"
    using createIdempotent_recorded_up [OF assms(1-7,10,11)] .
  obtain q y where q: "run (repo_GetByCode P c) v = (q, y)" by (cases "run (repo_GetByCode P c) v")
  from repo_get_up [OF v(3) q] v(2) gone c have "q = Inl (Sentinel RepoErrNotFound)" "db y = db w" by auto
  with v(1) q st show ?thesis by (auto simp: replay_def run_simps)
qed

lemma keyed_body:
  assumes key: "TrimSpace (in_IdempotencyKey inp) \<noteq> ''''"
    and r: "run (service_Create P L s inp) w = (r, w')"
    and ok: "(\<exists>res. r = Inr res) \<or> (\<exists>l. validateLongURL L (blockDomain s) (in_URL inp) = Inr l)
      \<and> (in_ExpiresIn inp = '''' \<or> (\<exists>d. expiry_of (in_ExpiresIn inp) = Inr d))"
  shows "\<exists>v l e. run (createIdempotent P L s (inp\<lparr>in_IdempotencyKey := TrimSpace (in_IdempotencyKey inp)\<rparr>) l e) v = (r, w')
    \<and> db v = db w \<and> raw (ext v) = raw (ext w) \<and> tick (ext w) \<le> tick (ext v) \<and> (up (ext w) \<longrightarrow> up (ext v))"
  using key r
proof (cases rule: service_Create_keyed)
  case (body v l e)
  then show ?thesis by blast
qed (use ok in auto)

end

end
