(* ===== verification/Service_Sim.thy ===== *)
theory Service_Sim
imports Url_Service
begin

section \<open>A service that runs\<close>

text \<open>The examples' service: the repository, cache and idempotency store over the executable platform.\<close>

definition demo_service :: "sim world url_service" where
  "demo_service = \<lparr>store = URLRepository sim_platform, cache = Some (NewURLCache ''v1:''),
     idem = Some (NewStore ''v1:''),
     baseURL = \<lparr>Scheme = ''http'', Host = ''sho.rt'', Str = ''http://sho.rt''\<rparr>, blockDomain = ''sho.rt''\<rparr>"

definition world0 :: "database \<Rightarrow> sim \<Rightarrow> sim world" where
  "world0 d x = \<lparr>db = d, ext = x, counters = (\<lambda>_. 0), buffer = []\<rparr>"

definition demo_request :: "string \<Rightarrow> string \<Rightarrow> string \<Rightarrow> create_params" where
  "demo_request code ttl key =
     \<lparr>in_URL = ''http://a'', in_CustomCode = code, in_ExpiresIn = ttl, in_IdempotencyKey = key\<rparr>"

text \<open>A database that holds the given codes, with ids 1, 2, and so on.\<close>

definition demo_db :: "string list \<Rightarrow> time option \<Rightarrow> database" where
  "demo_db cs e = \<lparr>urls = map (\<lambda>(i, c). \<lparr>r_id = int i, r_code = Some c, r_long_url = ''http://a'',
       r_expires_at = e, r_created_at = 0\<rparr>) (enumerate 1 cs),
     next_id = int (length cs) + 1, analytics_daily = [], idempotency_records = []\<rparr>"

lemma demo_service_sel [simp]:
  "store demo_service = URLRepository sim_platform" "cache demo_service = Some (NewURLCache ''v1:'')"
  "idem demo_service = Some (NewStore ''v1:'')" "blockDomain demo_service = ''sho.rt''"
  by (simp_all add: demo_service_def)

lemma demo_trim: "TrimSpace '''' = ''''" "TrimSpace ''k'' = ''k''"
  by code_simp+

lemma demo_valid: "validateLongURL demo_lib ''sho.rt'' ''http://a'' = Inr ''http://a''"
  by code_simp

text \<open>One create of each kind, executed.\<close>

lemma demo_createOne_custom:
  "fst (run (createOne demo_lib demo_service (demo_request ''ab0'' '''' key) ''http://a'' None) (world0 empty_db (sim0 0)))
     = Inr \<lparr>res_URL = \<lparr>ID = 1, Code = ''ab0'', LongURL = ''http://a'', ExpiresAt = None, CreatedAt = 0\<rparr>,
            res_ShortURL = ''http://sho.rt/ab0'', res_Replayed = False\<rparr>"
  by code_simp

lemma demo_createOne_taken:
  "fst (run (createOne demo_lib demo_service (demo_request ''ab0'' '''' key) ''http://a'' None) (world0 (demo_db [''ab0''] None) (sim0 0)))
     = Inl (WrapSuf (Sentinel ErrCodeTaken) (go_quote ''ab0''))"
  by code_simp

lemma demo_request_sel [simp]:
  "in_URL (demo_request c t k) = ''http://a''" "in_CustomCode (demo_request c t k) = c"
  "in_ExpiresIn (demo_request c t k) = t" "in_IdempotencyKey (demo_request c t k) = k"
  by (simp_all add: demo_request_def)

lemma demo_create_plain:
  assumes "fst (run (createOne demo_lib demo_service (demo_request c '''' '''') ''http://a'' None) w) = r"
    and "\<And>res. r = Inr res \<Longrightarrow> \<not> res_Replayed res"
  shows "fst (run (service_Create sim_platform demo_lib demo_service (demo_request c '''' '''')) w) = r"
proof -
  have eq: "(demo_request c '''' '''')\<lparr>in_IdempotencyKey := ''''\<rparr> = demo_request c '''' ''''"
    by (simp add: demo_request_def)
  have same: "\<not> res_Replayed res \<Longrightarrow>
      \<lparr>res_URL = res_URL res, res_ShortURL = res_ShortURL res, res_Replayed = False\<rparr> = res" for res
    by (cases res) simp
  show ?thesis
    using assms same
    by (cases "run (createOne demo_lib demo_service (demo_request c '''' '''') ''http://a'' None) w")
       (auto simp: service_Create_def demo_valid demo_trim eq run_simps Let_def split: sum.splits)
qed

lemma demo_create_keyed:
  "service_Create sim_platform demo_lib demo_service (demo_request c '''' ''k'')
     = createIdempotent sim_platform demo_lib demo_service (demo_request c '''' ''k'') ''http://a'' None"
  by (simp add: service_Create_def demo_valid demo_trim tryp_def Let_def, simp add: demo_request_def)

text \<open>The value a finished program of a pool has returned.\<close>

definition returned :: "('w, 'a) prog \<Rightarrow> 'a option" where
  "returned p = (case p of Ret a \<Rightarrow> Some a | Act f \<Rightarrow> None)"

lemma returned_Some [simp]: "returned p = Some a \<longleftrightarrow> p = Ret a"
  by (cases p) (auto simp: returned_def)

lemma demo_keyed_pair:
  "(case run (createIdempotent sim_platform demo_lib demo_service (demo_request ''ab0'' '''' ''k'') ''http://a'' None)
      (world0 empty_db (sim0 0)) of
    (r1, w1) \<Rightarrow> (r1, case run (createIdempotent sim_platform demo_lib demo_service (demo_request '''' '''' ''k'') ''http://a'' None) w1 of
      (r2, w2) \<Rightarrow> s_clock (ext w2)))
   = (Inr \<lparr>res_URL = \<lparr>ID = 1, Code = ''ab0'', LongURL = ''http://a'', ExpiresAt = None, CreatedAt = 0\<rparr>,
           res_ShortURL = ''http://sho.rt/ab0'', res_Replayed = False\<rparr>, 0)"
  by code_simp

text \<open>Two creates with one key: the second reads the key before the first claims it and claims after the first has released.\<close>

lemma demo_race:
  "map returned (snd (sched ([1] @ replicate 7 0 @ replicate 6 1) (world0 empty_db (sim0 0),
      replicate 2 (createIdempotent sim_platform demo_lib demo_service (demo_request '''' '''' ''k'') ''http://a'' None))))
   = map (\<lambda>(i, c, s). Some (Inr \<lparr>res_URL = \<lparr>ID = i, Code = c, LongURL = ''http://a'', ExpiresAt = None, CreatedAt = 0\<rparr>,
           res_ShortURL = s, res_Replayed = False\<rparr>)) [(1, ''1'', ''http://sho.rt/1''), (2, ''2'', ''http://sho.rt/2'')]"
  by code_simp

end
