(* ===== verification/Create_Props.thy ===== *)
theory Create_Props
imports Up_Spec Service_Sim
begin

section \<open>Properties of Create\<close>

text \<open>
  The specification of theory Create_Spec, written out for \<open>service_Create\<close> over the
  repository on every platform that keeps the laws of \<open>kv_server\<close>: Redis commands and
  statements may fail at any point, with or without effect.
\<close>

lemma lookup_db_coded [simp]: "db_coded d = lookup_url d"
  by (simp add: db_coded_def fun_eq_iff)

text \<open>C1: A Create that reports success returns the row that is in the table under the returned code, with the matching short URL. If it is not a replay, that code was free before, no other code changed, the stored long URL is the validated one, the expiry is the requested lifetime counted from an instant during the call, and the code is the requested custom code, valid, or else the Base62 numeral of the row's id. A replay changes no code and occurs only for a request with an idempotency key.\<close>

theorem service_Create_success:
  assumes "kv_server P raw tick" "store s = URLRepository P" "db_inv (db w)"
    and "run (service_Create P L s inp) w = (Inr res, w')"
  shows "db_inv (db w')
    \<and> lookup_url (db w') (Code (res_URL res)) = Some (res_URL res)
    \<and> res_ShortURL res = shortURLFor L s (Code (res_URL res))
    \<and> (if res_Replayed res
       then lookup_url (db w') = lookup_url (db w) \<and> idem s \<noteq> None \<and> TrimSpace (in_IdempotencyKey inp) \<noteq> ''''
       else lookup_url (db w) (Code (res_URL res)) = None
         \<and> lookup_url (db w') = (lookup_url (db w))(Code (res_URL res) \<mapsto> res_URL res)
         \<and> validateLongURL L (blockDomain s) (in_URL inp) = Inr (LongURL (res_URL res))
         \<and> (\<exists>e. expiry_granted (tick (ext w)) (tick (ext w')) (in_ExpiresIn inp) e
                \<and> ExpiresAt (res_URL res) = map_option pg_ts e)
         \<and> (if in_CustomCode inp \<noteq> ''''
            then Code (res_URL res) = in_CustomCode inp \<and> validateCustomCode (in_CustomCode inp) = None
            else EncodeBase62 (word_of_int (ID (res_URL res))) = Some (Code (res_URL res))))"
proof -
  from kv_server.service_Create_done [OF assms]
  show ?thesis by (auto simp: create_done_def create_post_def fresh_result_def stored_new_def)
qed

theorem service_Create_success_witness:
  "\<exists>res w'. run (service_Create sim_platform demo_lib demo_service (demo_request ''ab0'' '''' ''''))
              (world0 empty_db (sim0 0)) = (Inr res, w')
     \<and> Code (res_URL res) = ''ab0'' \<and> lookup_url (db w') ''ab0'' = Some (res_URL res)"
proof -
  let ?r = "run (service_Create sim_platform demo_lib demo_service (demo_request ''ab0'' '''' '''')) (world0 empty_db (sim0 0))"
  obtain res w' where r: "?r = (Inr res, w')" and c: "Code (res_URL res) = ''ab0''"
    using demo_create_plain [OF demo_createOne_custom] by (cases ?r) auto
  have "db_inv (db (world0 empty_db (sim0 0)))" by (simp add: world0_def empty_db_inv)
  from service_Create_success [OF sim_law demo_service_sel(1) this r] r c show ?thesis by auto
qed

text \<open>C16: A Create that fails has either left every code as it was or added one new code for the validated URL of this request, never changed or removed another; and each sentinel it answers with has its cause: the validation that fails, the taken code, the key that is too long, or the idempotency key in use. It never answers ErrExpired.\<close>

theorem service_Create_failure:
  assumes "kv_server P raw tick" "store s = URLRepository P" "db_inv (db w)"
    and "run (service_Create P L s inp) w = (Inl err, w')"
  shows "db_inv (db w')
    \<and> (lookup_url (db w') = lookup_url (db w)
       \<or> (\<exists>u. lookup_url (db w) (Code u) = None \<and> lookup_url (db w') = (lookup_url (db w))(Code u \<mapsto> u)
            \<and> validateLongURL L (blockDomain s) (in_URL inp) = Inr (LongURL u)))
    \<and> (\<forall>x. errors_Is err x \<longrightarrow> create_reason L s inp (lookup_url (db w)) x)
    \<and> \<not> errors_Is err ErrExpired"
proof -
  have ex: "explained L s inp m err \<Longrightarrow> \<not> errors_Is err ErrExpired" for m
    by (auto simp: explained_def)
  from kv_server.service_Create_done [OF assms] assms(3) ex show ?thesis
    by (auto simp: create_done_def create_post_def maybe_stored_def stored_new_def explained_def)
qed

theorem service_Create_failure_witness:
  "\<exists>err w'. run (service_Create sim_platform demo_lib demo_service (demo_request ''ab0'' '''' ''''))
              (world0 (demo_db [''ab0''] None) (sim0 0)) = (Inl err, w')
     \<and> errors_Is err ErrCodeTaken \<and> lookup_url (demo_db [''ab0''] None) ''ab0'' \<noteq> None"
proof -
  let ?w = "world0 (demo_db [''ab0''] None) (sim0 0)"
  let ?r = "run (service_Create sim_platform demo_lib demo_service (demo_request ''ab0'' '''' '''')) ?w"
  obtain err w' where r: "?r = (Inl err, w')" and e: "errors_Is err ErrCodeTaken"
    using demo_create_plain [OF demo_createOne_taken] by (cases ?r) auto
  have "db_inv (db ?w)" by code_simp
  from service_Create_failure [OF sim_law demo_service_sel(1) this r] r e show ?thesis
    by (auto simp: world0_def dest: spec [of _ ErrCodeTaken])
qed



text \<open>Two creates that carry one idempotency key can both create: when the second reads the key before the first has claimed it and claims it after the first has recorded its code and released the lock, both answer as fresh creates, with two codes for one request.\<close>

theorem idempotency_race:
  "\<exists>w' r1 r2. pstep\<^sup>*\<^sup>*
      (world0 empty_db (sim0 0), replicate 2 (service_Create sim_platform demo_lib demo_service (demo_request '''' '''' ''k'')))
      (w', [Ret (Inr r1), Ret (Inr r2)])
    \<and> \<not> res_Replayed r1 \<and> \<not> res_Replayed r2 \<and> Code (res_URL r1) = ''1'' \<and> Code (res_URL r2) = ''2''"
proof -
  let ?c = "(world0 empty_db (sim0 0), replicate 2 (service_Create sim_platform demo_lib demo_service (demo_request '''' '''' ''k'')))"
  let ?d = "sched ([1] @ replicate 7 0 @ replicate 6 1) ?c"
  let ?r = "\<lambda>(i, c, s). \<lparr>res_URL = \<lparr>ID = i, Code = c, LongURL = ''http://a'', ExpiresAt = None, CreatedAt = 0\<rparr>,
           res_ShortURL = s, res_Replayed = False\<rparr>"
  have "map returned (snd ?d) = map (Some \<circ> Inr \<circ> ?r) [(1, ''1'', ''http://sho.rt/1''), (2, ''2'', ''http://sho.rt/2'')]"
    using demo_race unfolding demo_create_keyed by (simp add: comp_def case_prod_beta)
  then have "snd ?d = [Ret (Inr (?r (1, ''1'', ''http://sho.rt/1''))), Ret (Inr (?r (2, ''2'', ''http://sho.rt/2'')))]"
    by (auto simp: map_eq_Cons_conv)
  from sched_reaches [OF this] show ?thesis
    by (intro exI conjI) (assumption, simp_all)
qed



text \<open>C27: When nothing fails, a create without a custom code for an acceptable URL takes the next id and its Base62 numeral. If that code is taken, by an earlier custom code, it fails with an internal error that no sentinel of the service explains, and leaves behind a row without a code.\<close>

theorem auto_create_outcome:
  assumes "kv_server_up P raw tick up" "store s = URLRepository P" "db_inv (db w)" "up (ext w)"
    and "in_CustomCode inp = ''''" "EncodeBase62 (word_of_int (next_id (db w))) = Some k"
    and "pg_text l" "urls_long_url_length l" "next_id (db w) \<le> max_int64"
    and "run (createOne L s inp l e) w = (r, w')"
  shows "if lookup_url (db w) k = None
    then \<exists>t. r = Inr \<lparr>res_URL = \<lparr>ID = next_id (db w), Code = k, LongURL = l, ExpiresAt = map_option pg_ts e, CreatedAt = t\<rparr>,
                res_ShortURL = shortURLFor L s k, res_Replayed = False\<rparr>
    else (\<exists>err. r = Inl err \<and> (\<forall>x. errors_Is err x \<longleftrightarrow> x = RepoErrConflict))
      \<and> lookup_url (db w') = lookup_url (db w)
      \<and> (\<exists>row \<in> set (urls (db w')). r_id row = next_id (db w) \<and> r_code row = None)"
proof -
  have orphan: "db_pending d i = Some y \<Longrightarrow> \<exists>row \<in> set (urls d). r_id row = i \<and> r_code row = None" for d i y
    by (auto simp: db_pending_def dest!: find_Some_D)
  from kv_server_up.createOne_auto_up [OF assms(1,4,3,2,5,6,10)] assms(7-9) show ?thesis
    by (auto simp: auto_outcome_def created_def fresh_url_def dest!: orphan)
qed

text \<open>The code \<open>''100''\<close> is the numeral of id 3844; a client has taken it.\<close>

theorem auto_create_outcome_witness:
  "\<exists>r w' err. run (createOne demo_lib demo_service (demo_request '''' '''' '''') ''http://a'' None)
       (world0 ((demo_db [''100''] None)\<lparr>next_id := 3844\<rparr>) (sim0 0)) = (r, w') \<and> r = Inl err
     \<and> \<not> errors_Is err ErrCodeTaken \<and> (\<exists>row \<in> set (urls (db w')). r_id row = 3844 \<and> r_code row = None)"
proof -
  let ?d = "(demo_db [''100''] None)\<lparr>next_id := 3844\<rparr>"
  let ?w = "world0 ?d (sim0 0)"
  obtain r w' where r: "run (createOne demo_lib demo_service (demo_request '''' '''' '''') ''http://a'' None) ?w = (r, w')"
    by (cases "run (createOne demo_lib demo_service (demo_request '''' '''' '''') ''http://a'' None) ?w")
  have "EncodeBase62 (word_of_int (next_id ?d)) = Some ''100''" "db_inv ?d" "lookup_url ?d ''100'' \<noteq> None"
    "pg_text ''http://a''" "urls_long_url_length ''http://a''" "next_id ?d = 3844"
    by code_simp+
  with auto_create_outcome [OF sim.kv_server_up_axioms demo_service_sel(1) _ _ _ _ _ _ _ r, of "''100''"] r
  show ?thesis by (auto simp: world0_def sim_up_def sim0_def int64_defs)
qed

text \<open>The generated codes include the reserved words, which no client may choose: the rows with the ids 141590, 792819790, 39993529145 and 2763882122722 get the codes api, ready, health and metrics, and the last three are paths the router serves itself.\<close>

theorem auto_code_reserved:
  "map EncodeBase62 [141590, 792819790, 39993529145, 2763882122722]
     = map Some [''api'', ''ready'', ''health'', ''metrics'']
   \<and> map validateCustomCode [''api'', ''ready'', ''health'', ''metrics''] = replicate 4 (Some (Sentinel ErrInvalidCode))"
  by code_simp

lemma TrimSpace_lower:
  assumes "s \<noteq> []" "is_lower (hd s)" "is_lower (last s)"
  shows "TrimSpace s = s"
proof -
  have sp: "\<forall>p \<in> set space_runes. p \<noteq> [] \<longrightarrow> \<not> is_lower (hd p) \<and> \<not> is_lower (last p)" by code_simp
  have "\<not> is_prefix p s" if "p \<in> set space_runes" "p \<noteq> []" for p
    using sp that assms by (auto simp: is_prefix_iff)
  then have l: "trim_left s = s" unfolding trim_left_def by (intro strip_id) blast
  have "\<not> is_prefix p (rev s)" if "p \<in> set (map rev space_runes)" "p \<noteq> []" for p
  proof
    assume "is_prefix p (rev s)"
    then obtain t where "rev s = p @ t" by (auto simp: is_prefix_iff)
    then have "s = rev t @ rev p" by (metis rev_append rev_rev_ident)
    moreover have "rev p \<in> set space_runes" "rev p \<noteq> []" using that by auto
    ultimately show False using sp assms(3) by (auto simp: last_append)
  qed
  then have "trim_right s = s" unfolding trim_right_def by (subst strip_id) auto
  with l show ?thesis by (simp add: TrimSpace_def)
qed

text \<open>The length limit is checked before the default scheme is put in front: a long URL without a scheme that is within the service's limit but has more than 2041 characters passes validation and is then refused by the table's own length check, so the client gets an internal error where url_too_long is meant.\<close>

theorem long_url_gap:
  assumes "TrimSpace raw = raw" "raw \<noteq> ''''" "\<not> contains ''://'' raw" "length raw \<le> 2048" "2041 < rune_count raw"
    and "url_Parse L (''http://'' @ raw) = Inr u" "Scheme u = ''http''" "Host u \<noteq> ''''"
    and "\<not> equal_fold (uni_fold L) (Host u) bd" "Str u = ''http://'' @ raw"
  shows "validateLongURL L bd raw = Inr (''http://'' @ raw) \<and> \<not> urls_long_url_length (''http://'' @ raw)"
proof -
  have "rune_count (''http://'' @ raw) = 7 + rune_count raw" by (simp add: rune_count_def cont_def byte_def)
  moreover have "to_lower ''http'' = ''http''" by code_simp
  ultimately show ?thesis using assms
    by (simp add: validateLongURL_def Let_def maxURLLength_def urls_long_url_length_def)
qed

theorem long_url_gap_witness:
  "validateLongURL demo_lib ''sho.rt'' (replicate 2048 (CHR ''a'')) = Inr (''http://'' @ replicate 2048 (CHR ''a''))
   \<and> \<not> urls_long_url_length (''http://'' @ replicate 2048 (CHR ''a''))"
proof -
  let ?raw = "replicate 2048 (CHR ''a'')"
  have a: "is_lower (CHR ''a'')" "\<not> cont (CHR ''a'')" "is_ascii ''sho.rt''" by code_simp+
  have ne: "?raw \<noteq> []" by simp
  have trim: "TrimSpace ?raw = ?raw" by (rule TrimSpace_lower [OF ne]) (simp_all add: a(1) hd_replicate last_replicate)
  have noscheme: "\<not> contains ''://'' ?raw"
    by (auto simp: contains_iff dest!: arg_cong [where f = set])
  have runes: "rune_count ?raw = 2048" using a(2) by (simp add: rune_count_def)
  have tw: "takeWhile (\<lambda>c. c \<noteq> CHR ''/'') ?raw = ?raw" by (simp add: takeWhile_eq_all_conv)
  have parse: "url_Parse demo_lib (''http://'' @ ?raw) = Inr \<lparr>Scheme = ''http'', Host = ?raw, Str = ''http://'' @ ?raw\<rparr>"
  proof -
    have "to_lower ''http'' = ''http''" by code_simp
    with tw show ?thesis by (simp add: demo_lib_def demo_Parse_def is_prefix_iff)
  qed
  have "\<not> equal_fold (uni_fold demo_lib) ?raw ''sho.rt''"
    using a(3) by (auto simp: equal_fold_def is_ascii_def to_lower_def list_all_iff byte_def dest: arg_cong [where f = length])
  with long_url_gap [OF trim ne noscheme _ _ parse, of "''sho.rt''"] runes show ?thesis by simp
qed

end
