(* ===== verification/Resolve_Spec.thy ===== *)
theory Resolve_Spec
imports Up_Spec
begin

section \<open>What Resolve, Delete and GetStats do\<close>

text \<open>
  The reading methods and the delete, over the repository, a cache that keeps the contract of
  \<open>redis_cache\<close>, and any platform: whatever fails, Resolve answers with a row that is in
  the table or a copy that was put into the cache under that code, never with one that had
  expired when the call began.
\<close>

text \<open>The answers of Resolve that an error sentinel stands for.\<close>

definition resolve_error_ok :: "database \<Rightarrow> string \<Rightarrow> time \<Rightarrow> goerr \<Rightarrow> bool" where
  "resolve_error_ok d code now err \<longleftrightarrow>
     (errors_Is err ErrNotFound \<longrightarrow> lookup_url d code = None)
     \<and> (errors_Is err ErrExpired \<longrightarrow> (\<exists>u. lookup_url d code = Some u \<and> expired_at now u))
     \<and> (\<forall>x. errors_Is err x \<longrightarrow> x \<in> {ErrNotFound, ErrExpired, RepoErrConflict})"

lemma resolve_error_mono: "resolve_error_ok d code t err \<Longrightarrow> t \<le> t' \<Longrightarrow> resolve_error_ok d code t' err"
  by (fastforce simp: resolve_error_ok_def expired_at_def split: option.splits)

lemma not_expired_mono: "\<not> expired_at t' u \<Longrightarrow> t \<le> t' \<Longrightarrow> \<not> expired_at t u"
  by (auto simp: expired_at_def split: option.splits)

text \<open>The end of Resolve: put the row into the cache if there is one, and answer.\<close>

definition cache_and_return ::
  "'x platform \<Rightarrow> golib \<Rightarrow> 'x world url_service \<Rightarrow> string \<Rightarrow> url \<Rightarrow> ('x world, goerr + url) prog" where
  "cache_and_return P L s code u =
     (case cache s of None \<Rightarrow> Ret (Inr u) | Some c \<Rightarrow> bindp (cache_Set P L c code u) (\<lambda>_. Ret (Inr u)))"

lemma resolve_store_alt:
  "resolve_store P L s code =
     bindp (GetByCode (store s) code) (\<lambda>r.
       case r of
         Inl err \<Rightarrow>
           if errors_Is err RepoErrNotFound then Ret (Inl (Sentinel ErrNotFound)) else Ret (Inl err)
       | Inr u \<Rightarrow>
           (case ExpiresAt u of
              None \<Rightarrow> cache_and_return P L s code u
            | Some t \<Rightarrow> bindp (time_Now P) (\<lambda>now.
                  if \<not> t > now then Ret (Inl (Sentinel ErrExpired)) else cache_and_return P L s code u)))"
  unfolding resolve_store_def cache_and_return_def ..

lemma cache_and_return_fst: "fst (run (cache_and_return P L s code u) w) = Inr u"
  by (simp add: cache_and_return_def run_simps split: option.split prod.split)

context redis_cache begin

lemma cache_and_return_run:
  assumes "cache s = None \<or> cache s = Some C" "run (cache_and_return P L s code u) w = (r, w')"
  shows "r = Inr u \<and> db w' = db w \<and> tick (ext w) \<le> tick (ext w')"
  using assms unfolding cache_and_return_def
  by (auto simp: run_simps split: prod.splits dest: cache_Set_run(1,3))

lemma resolve_store_run:
  assumes st: "store s = URLRepository P" and c: "cache s = None \<or> cache s = Some C"
    and r: "run (resolve_store P L s code) w = (r, w')"
  shows "db w' = db w \<and> tick (ext w) \<le> tick (ext w')
    \<and> (case r of
         Inr u \<Rightarrow> lookup_url (db w) code = Some u \<and> \<not> expired_at (tick (ext w)) u
       | Inl err \<Rightarrow> resolve_error_ok (db w) code (tick (ext w')) err)"
proof -
  obtain q v where q: "run (repo_GetByCode P code) w = (q, v)" by (cases "run (repo_GetByCode P code) w")
  note g = repo_get_run [OF q, unfolded db_coded_def] GetByCode_kv [OF q]
  show ?thesis
  proof (cases q)
    case (Inl err)
    with r q st g show ?thesis
      by (auto simp: resolve_store_alt run_simps resolve_error_ok_def store_error_def split: if_splits)
  next
    case (Inr u)
    show ?thesis
    proof (cases "ExpiresAt u")
      case None
      with r q st Inr have "run (cache_and_return P L s code u) v = (r, w')"
        by (simp add: resolve_store_alt run_simps)
      from cache_and_return_run [OF c this] g Inr None show ?thesis by (auto simp: expired_at_def)
    next
      case (Some t)
      obtain now x where n: "p_now P (ext v) = (now, x)" by (cases "p_now P (ext v)")
      note nl = now_law [OF n]
      show ?thesis
      proof (cases "t > now")
        case False
        with r q st Inr Some n g nl show ?thesis
          by (auto simp: resolve_store_alt run_simps act_defs resolve_error_ok_def expired_at_def)
      next
        case True
        with r q st Inr Some n have "run (cache_and_return P L s code u) (v\<lparr>ext := x\<rparr>) = (r, w')"
          by (simp add: resolve_store_alt run_simps act_defs)
        from cache_and_return_run [OF c this] g Inr Some nl True show ?thesis by (auto simp: expired_at_def)
      qed
    qed
  qed
qed

lemma Resolve_run:
  assumes st: "store s = URLRepository P" and c: "cache s = None \<or> cache s = Some C"
    and r: "run (Resolve P L s code) w = (r, w')"
  shows "db w' = db w \<and> tick (ext w) \<le> tick (ext w')
    \<and> (case r of
         Inr u \<Rightarrow> (lookup_url (db w) code = Some u \<or> cache s \<noteq> None \<and> kv_holds L C (raw (ext w)) code u)
                 \<and> \<not> expired_at (tick (ext w)) u
       | Inl err \<Rightarrow> resolve_error_ok (db w) code (tick (ext w')) err)"
proof (cases "cache s")
  case None
  with r resolve_store_run [OF st c, of code w r w'] show ?thesis by (auto simp: Resolve_def split: sum.splits)
next
  case (Some k)
  with c have k: "cache s = Some C" by simp
  obtain g v where g: "run (cache_Get P L C code) w = (g, v)" by (cases "run (cache_Get P L C code) w")
  note gl = cache_Get_run(2,3) [OF g]
  have later: ?thesis if "run (resolve_store P L s code) y = (r, w')" "db y = db w" "tick (ext w) \<le> tick (ext y)" for y
    using resolve_store_run [OF st c that(1)] that(2,3)
    by (auto split: sum.splits dest: not_expired_mono)
  consider (err) x where "g = Inl x" | (miss) "g = Inr None"
    | (forever) u where "g = Inr (Some u)" "ExpiresAt u = None"
    | (hit) u t where "g = Inr (Some u)" "ExpiresAt u = Some t"
    by (cases g; cases "projr g"; cases "ExpiresAt (the (projr g))") auto
  then show ?thesis
  proof cases
    case err
    with r k g gl show ?thesis
      by (intro later [of "inc_metric CacheFailOpen v"]) (simp_all add: Resolve_def run_simps)
  next
    case miss
    with r k g gl show ?thesis by (intro later [of v]) (simp_all add: Resolve_def run_simps)
  next
    case forever
    with r k g gl cache.get_hit [of code w u v] show ?thesis
      by (auto simp: Resolve_def run_simps expired_at_def)
  next
    case hit
    obtain now x where n: "p_now P (ext v) = (now, x)" by (cases "p_now P (ext v)")
    note nl = now_law [OF n]
    show ?thesis
    proof (cases "t > now")
      case True
      with hit r k g gl n nl cache.get_hit [of code w u v] show ?thesis
        by (auto simp: Resolve_def run_simps act_defs expired_at_def)
    next
      case False
      obtain e y where e: "run (cache_Delete P C code) (v\<lparr>ext := x\<rparr>) = (e, y)"
        by (cases "run (cache_Delete P C code) (v\<lparr>ext := x\<rparr>)")
      with False hit r k g n gl nl cache_Delete_run(1,3) [OF e] show ?thesis
        by (intro later [of y]) (simp_all add: Resolve_def run_simps act_defs)
    qed
  qed
qed

lemma service_Delete_run:
  assumes st: "store s = URLRepository P" and c: "cache s = None \<or> cache s = Some C" and inv: "db_inv (db w)"
    and r: "run (service_Delete P s code) w = (r, w')"
  shows "db_inv (db w') \<and> tick (ext w) \<le> tick (ext w')
    \<and> (case r of
         None \<Rightarrow> lookup_url (db w) code \<noteq> None \<and> lookup_url (db w') = (lookup_url (db w))(code := None)
       | Some err \<Rightarrow>
           if errors_Is err ErrNotFound then lookup_url (db w) code = None \<and> lookup_url (db w') = lookup_url (db w)
           else lookup_url (db w') = lookup_url (db w) \<or> lookup_url (db w') = (lookup_url (db w))(code := None))"
proof -
  have eta: "db_coded d = lookup_url d" for d by (simp add: db_coded_def fun_eq_iff)
  obtain q v where q: "run (repo_DeleteByCode P code) w = (q, v)" by (cases "run (repo_DeleteByCode P code) w")
  note d = repo_delete_run [OF q inv, unfolded eta] DeleteByCode_kv [OF q] repo_delete_err
  show ?thesis
  proof (cases q)
    case (Inl err)
    with q have "store_error err" by (auto dest: repo_delete_err)
    then have "\<not> errors_Is err ErrNotFound" by (auto simp: store_error_def)
    with r q st d Inl show ?thesis by (auto simp: service_Delete_def run_simps split: if_splits)
  next
    case (Inr u)
    with r q st d c show ?thesis
      by (auto simp: service_Delete_def run_simps split: option.splits prod.splits dest: cache_Delete_run(1,3))
  qed
qed

end

subsection \<open>When nothing fails\<close>

context kv_server_up begin

lemma resolve_store_up:
  assumes up: "up (ext w)" and st: "store s = URLRepository P" and c: "pg_text code"
  shows "\<exists>now. tick (ext w) \<le> now \<and> fst (run (resolve_store P L s code) w) =
     (case lookup_url (db w) code of
        None \<Rightarrow> Inl (Sentinel ErrNotFound)
      | Some u \<Rightarrow> if expired_at now u then Inl (Sentinel ErrExpired) else Inr u)"
proof -
  obtain q v where q: "run (repo_GetByCode P code) w = (q, v)" by (cases "run (repo_GetByCode P code) w")
  from repo_get_up [OF up q] c
  have v: "tick (ext w) \<le> tick (ext v)"
    "q = (case lookup_url (db w) code of None \<Rightarrow> Inl (Sentinel RepoErrNotFound) | Some u \<Rightarrow> Inr u)"
    by (auto simp: quiet_def)
  obtain now x where n: "p_now P (ext v) = (now, x)" by (cases "p_now P (ext v)")
  from now_law [OF n] v(1) have "tick (ext w) \<le> now" by simp
  with q st v(2) n show ?thesis
    by (intro exI [of _ now])
      (auto simp: resolve_store_alt run_simps act_defs expired_at_def cache_and_return_fst split: option.split)
qed

lemma cache_miss_up:
  assumes up: "up (ext w)" and k: "raw (ext w) (URLKey C code) = None"
  obtains v where "run (cache_Get P L C code) w = (Inr None, v)" "up (ext v)" "db v = db w" "tick (ext w) \<le> tick (ext v)"
proof -
  obtain g x where g: "p_get P (URLKey C code) (ext w) = (g, x)" by (cases "p_get P (URLKey C code) (ext w)")
  from get_law [OF g] k have "\<nexists>v. g = Inr v" by (auto simp: live_def)
  moreover from get_up [OF up, of "URLKey C code"] g have "up x" "\<forall>e. g = Inl e \<longrightarrow> e = Sentinel RedisNil" by auto
  ultimately have "g = Inl (Sentinel RedisNil)" by (cases g) auto
  with g \<open>up x\<close> get_law [OF g] show thesis
    by (intro that [of "inc_metric CacheMisses (w\<lparr>ext := x\<rparr>)"]) (simp_all add: cache_Get_def run_simps)
qed

lemma Resolve_uncached_up:
  assumes up: "up (ext w)" and st: "store s = URLRepository P" and c: "pg_text code"
    and miss: "\<And>C. cache s = Some C \<Longrightarrow> raw (ext w) (URLKey C code) = None"
  shows "\<exists>now. tick (ext w) \<le> now \<and> fst (run (Resolve P L s code) w) =
     (case lookup_url (db w) code of
        None \<Rightarrow> Inl (Sentinel ErrNotFound)
      | Some u \<Rightarrow> if expired_at now u then Inl (Sentinel ErrExpired) else Inr u)"
proof (cases "cache s")
  case None
  with resolve_store_up [OF up st c] show ?thesis by (simp add: Resolve_def)
next
  case (Some C)
  obtain v where v: "run (cache_Get P L C code) w = (Inr None, v)" "up (ext v)" "db v = db w" "tick (ext w) \<le> tick (ext v)"
    using cache_miss_up [OF up miss [OF Some]] .
  from resolve_store_up [OF v(2) st c, of L] obtain now where "tick (ext v) \<le> now
     \<and> fst (run (resolve_store P L s code) v) =
       (case lookup_url (db v) code of None \<Rightarrow> Inl (Sentinel ErrNotFound)
        | Some u \<Rightarrow> if expired_at now u then Inl (Sentinel ErrExpired) else Inr u)"
    by (rule exE)
  with v(1,3,4) Some show ?thesis by (intro exI [of _ now]) (simp add: Resolve_def run_simps)
qed

lemma service_Delete_up:
  assumes up: "up (ext w)" and st: "store s = URLRepository P"
    and r: "run (service_Delete P s code) w = (None, w')" and C: "cache s = Some C"
  shows "up (ext w') \<and> raw (ext w') (URLKey C code) = None"
proof -
  obtain q v where q: "run (repo_DeleteByCode P code) w = (q, v)" by (cases "run (repo_DeleteByCode P code) w")
  note v = DeleteByCode_up [OF up q]
  obtain e x where e: "p_del P (URLKey C code) (ext v) = (e, x)" by (cases "p_del P (URLKey C code) (ext v)")
  from del_up [OF v, of "URLKey C code"] del_law [OF e] e have "up x" "raw x (URLKey C code) = None" by auto
  with r q st C e show ?thesis
    by (auto simp: service_Delete_def cache_Delete_def run_simps split: sum.splits if_splits)
qed

lemma service_Delete_up_any: "up (ext w) \<Longrightarrow> store s = URLRepository P \<Longrightarrow>
    run (service_Delete P s code) w = (None, w') \<Longrightarrow> cache s = None \<Longrightarrow> up (ext w')"
  using DeleteByCode_up by (auto simp: service_Delete_def run_simps split: prod.splits sum.splits if_splits)

end

end
