(* ===== verification/Resolve_Props.thy ===== *)
theory Resolve_Props
imports Resolve_Spec Service_Sim
begin

section \<open>Properties of Resolve, Delete and GetStats\<close>

text \<open>
  The lemmas of theory Resolve_Spec, written out for the services the server builds: the
  repository as the store, and a Redis cache or none.
\<close>

lemma redis_cacheI: "kv_server P raw tick \<Longrightarrow> lib_ok L \<Longrightarrow> redis_cache P raw tick L"
  by (simp add: redis_cache_def redis_cache_axioms_def)

text \<open>C9: Whatever Redis and the connection do, Resolve changes nothing in the database, and a URL it returns is the row under that code or a copy that was in the cache under that code, and had not expired when the call began. ErrNotFound means that the table has no such code, ErrExpired that the row's expiry has passed.\<close>

theorem Resolve_sound:
  assumes "kv_server P raw tick" "lib_ok L" "store s = URLRepository P" "cache s = Some C"
    and "run (Resolve P L s code) w = (r, w')"
  shows "db w' = db w
    \<and> (case r of
         Inr u \<Rightarrow> (lookup_url (db w) code = Some u \<or> kv_holds L C (raw (ext w)) code u)
                 \<and> (\<forall>t. ExpiresAt u = Some t \<longrightarrow> tick (ext w) < t)
       | Inl err \<Rightarrow>
           (errors_Is err ErrNotFound \<longrightarrow> lookup_url (db w) code = None)
           \<and> (errors_Is err ErrExpired \<longrightarrow>
                (\<exists>u t. lookup_url (db w) code = Some u \<and> ExpiresAt u = Some t \<and> t \<le> tick (ext w'))))"
  using redis_cache.Resolve_run [OF redis_cacheI [OF assms(1,2)] assms(3) _ assms(5), of C] assms(4)
  by (auto simp: resolve_error_ok_def expired_at_def split: sum.splits option.splits)

theorem Resolve_sound_witness:
  "case run (Resolve sim_platform demo_lib demo_service ''ab0'') (world0 (demo_db [''ab0''] (Some 5)) (sim0 5)) of
     (r, w') \<Rightarrow> r = Inl (Sentinel ErrExpired) \<and> db w' = demo_db [''ab0''] (Some 5)"
proof -
  let ?w = "world0 (demo_db [''ab0''] (Some 5)) (sim0 5)"
  obtain r w' where r: "run (Resolve sim_platform demo_lib demo_service ''ab0'') ?w = (r, w')"
    by (cases "run (Resolve sim_platform demo_lib demo_service ''ab0'') ?w")
  have "fst (run (Resolve sim_platform demo_lib demo_service ''ab0'') ?w) = Inl (Sentinel ErrExpired)" by code_simp
  with r Resolve_sound [OF sim_law demo_lib_ok demo_service_sel(1,2) r] show ?thesis
    by (simp add: world0_def)
qed

text \<open>C22: The cache fails open: when reading it does not give a usable entry, because of a miss, an unreachable server or an undecodable value, Resolve answers exactly as the service without a cache does from that point on, and writing the entry back cannot change the answer.\<close>

theorem Resolve_fail_open:
  assumes "cache s = Some C" "run (cache_Get P L C code) w = (g, v)" "\<forall>u. g \<noteq> Inr (Some u)"
  shows "fst (run (Resolve P L s code) w) =
     fst (run (Resolve P L (s\<lparr>cache := None\<rparr>) code) (case g of Inl err \<Rightarrow> inc_metric CacheFailOpen v | Inr _ \<Rightarrow> v))"
proof -
  have same: "fst (run (resolve_store P L s code) x) = fst (run (resolve_store P L (s\<lparr>cache := None\<rparr>) code) x)" for x
    by (auto simp: resolve_store_alt run_simps cache_and_return_fst split: prod.split sum.split option.split)
  show ?thesis
  proof (cases g)
    case (Inl err)
    with assms same show ?thesis by (simp add: Resolve_def run_simps)
  next
    case (Inr q)
    with assms(3) have "g = Inr None" by (cases q) auto
    with assms same show ?thesis by (simp add: Resolve_def run_simps)
  qed
qed

theorem Resolve_fail_open_witness:
  "fst (run (Resolve sim_platform demo_lib demo_service ''ab0'')
      (world0 (demo_db [''ab0''] None) ((sim0 5)\<lparr>s_faults := [RDropped]\<rparr>))) = Inr (row_url ''ab0'' (urls (demo_db [''ab0''] None) ! 0))"
proof -
  let ?w = "world0 (demo_db [''ab0''] None) ((sim0 5)\<lparr>s_faults := [RDropped]\<rparr>)"
  have g: "run (cache_Get sim_platform demo_lib (NewURLCache ''v1:'') ''ab0'') ?w
      = (Inl io_timeout, world0 (demo_db [''ab0''] None) (sim0 5))"
    by (simp add: cache_Get_def run_simps sim_defs world0_def sim0_def io_timeout_def)
  have "fst (run (Resolve sim_platform demo_lib (demo_service\<lparr>cache := None\<rparr>) ''ab0'')
      (inc_metric CacheFailOpen (world0 (demo_db [''ab0''] None) (sim0 5)))) = Inr (row_url ''ab0'' (urls (demo_db [''ab0''] None) ! 0))"
    by code_simp
  with Resolve_fail_open [OF demo_service_sel(2) g] show ?thesis by simp
qed



text \<open>C24: Delete reports success exactly for a code that was in the table and removes that code and no other; ErrNotFound means that the code was absent and nothing changed; any other error has left the table alone or removed just that code.\<close>

theorem Delete_correct:
  assumes "kv_server P raw tick" "lib_ok L" "store s = URLRepository P" "cache s = Some C" "db_inv (db w)"
    and "run (service_Delete P s code) w = (r, w')"
  shows "db_inv (db w') \<and>
    (case r of
       None \<Rightarrow> lookup_url (db w) code \<noteq> None \<and> lookup_url (db w') = (lookup_url (db w))(code := None)
     | Some err \<Rightarrow>
         if errors_Is err ErrNotFound then lookup_url (db w) code = None \<and> lookup_url (db w') = lookup_url (db w)
         else lookup_url (db w') = lookup_url (db w) \<or> lookup_url (db w') = (lookup_url (db w))(code := None))"
  using redis_cache.service_Delete_run [OF redis_cacheI [OF assms(1,2)] assms(3) _ assms(5,6), of C] assms(4) by simp

theorem Delete_correct_witness:
  "case run (service_Delete sim_platform demo_service ''ab0'') (world0 (demo_db [''ab0'', ''ab1''] None) (sim0 5)) of
     (r, w') \<Rightarrow> r = None \<and> lookup_url (db w') ''ab0'' = None
       \<and> lookup_url (db w') ''ab1'' = lookup_url (demo_db [''ab0'', ''ab1''] None) ''ab1''"
proof -
  let ?w = "world0 (demo_db [''ab0'', ''ab1''] None) (sim0 5)"
  obtain r w' where r: "run (service_Delete sim_platform demo_service ''ab0'') ?w = (r, w')"
    by (cases "run (service_Delete sim_platform demo_service ''ab0'') ?w")
  have "fst (run (service_Delete sim_platform demo_service ''ab0'') ?w) = None" "db_inv (db ?w)" by code_simp+
  with r Delete_correct [OF sim_law demo_lib_ok demo_service_sel(1,2) _ r] show ?thesis
    by (simp add: world0_def)
qed

text \<open>C23: When nothing fails, a Resolve that follows a successful Delete of the same code, with no other request in between, answers ErrNotFound: the cached copy is gone too.\<close>

theorem Delete_then_Resolve:
  assumes "kv_server_up P raw tick up" "lib_ok L" "store s = URLRepository P" "db_inv (db w)" "up (ext w)"
    and "cache s = Some C" "run (service_Delete P s code) w = (None, w1)"
  shows "fst (run (Resolve P L s code) w1) = Inl (Sentinel ErrNotFound)"
proof -
  note kv = kv_server_up.axioms(1) [OF assms(1)]
  from redis_cache.service_Delete_run [OF redis_cacheI [OF kv assms(2)] assms(3) _ assms(4,7), of C] assms(6)
  have d: "lookup_url (db w) code \<noteq> None" "lookup_url (db w1) code = None" by auto
  with lookup_format [OF assms(4)] have c: "pg_text code" by (auto dest: code_pg_text)
  note u = kv_server_up.service_Delete_up [OF assms(1,5,3,7,6)]
  from kv_server_up.Resolve_uncached_up [OF assms(1) _ assms(3) c, of w1 L] u assms(6) d show ?thesis by auto
qed

theorem Delete_then_Resolve_witness:
  "\<exists>w1. run (service_Delete sim_platform demo_service ''ab0'') (world0 (demo_db [''ab0''] None) (sim0 5)) = (None, w1)
     \<and> fst (run (Resolve sim_platform demo_lib demo_service ''ab0'') w1) = Inl (Sentinel ErrNotFound)"
proof -
  let ?w = "world0 (demo_db [''ab0''] None) (sim0 5)"
  have "fst (run (service_Delete sim_platform demo_service ''ab0'') ?w) = None" "db_inv (db ?w)" by code_simp+
  then obtain w1 where r: "run (service_Delete sim_platform demo_service ''ab0'') ?w = (None, w1)"
    by (metis prod.collapse)
  have "sim_up (ext ?w)" by (simp add: world0_def sim_up_def sim0_def)
  with r Delete_then_Resolve [OF sim.kv_server_up_axioms demo_lib_ok demo_service_sel(1) \<open>db_inv (db ?w)\<close> _ demo_service_sel(2) r]
  show ?thesis by auto
qed

end
