(* ===== verification/Api_Pool.thy ===== *)
theory Api_Pool
imports Resolve_Spec Service_Sim
begin

section \<open>Requests that run at the same time\<close>

text \<open>
  A pool of service calls takes turns at the level of single actions: one SQL statement, one
  Redis command, one reading of the clock. The invariant \<open>sys_inv\<close> describes every state such
  a pool can reach, with any number of requests and any faults of Redis and of the connection:
  the table keeps its constraints and holds only acceptable URLs; what the cache holds under a
  code is an acceptable URL with that code, for at most a minute; and a lock on an idempotency
  key is gone after ten seconds.
\<close>

datatype api_call =
    CallCreate create_params | CallResolve string | CallDelete string | CallStats string

datatype api_answer =
    Created "goerr + create_result" | Resolved "goerr + url"
  | Deleted "goerr option" | Statistics "goerr + stats_summary"

definition api_prog ::
  "'x platform \<Rightarrow> golib \<Rightarrow> 'x world url_service \<Rightarrow> api_call \<Rightarrow> ('x world, api_answer) prog" where
  "api_prog P L s call =
     (case call of
        CallCreate inp \<Rightarrow> bindp (service_Create P L s inp) (\<lambda>r. Ret (Created r))
      | CallResolve c \<Rightarrow> bindp (Resolve P L s c) (\<lambda>r. Ret (Resolved r))
      | CallDelete c \<Rightarrow> bindp (service_Delete P s c) (\<lambda>r. Ret (Deleted r))
      | CallStats c \<Rightarrow> bindp (GetStats P L s c) (\<lambda>r. Ret (Statistics r)))"

subsection \<open>The invariant\<close>

definition good_url :: "golib \<Rightarrow> string \<Rightarrow> string \<Rightarrow> url \<Rightarrow> bool" where
  "good_url L bd c u \<longleftrightarrow> Code u = c \<and> acceptable_url L bd (LongURL u)"

definition db_ok :: "golib \<Rightarrow> string \<Rightarrow> database \<Rightarrow> bool" where
  "db_ok L bd d \<longleftrightarrow> db_inv d \<and> (\<forall>r \<in> set (urls d). acceptable_url L bd (r_long_url r))"

definition kv_ok :: "golib \<Rightarrow> string \<Rightarrow> url_cache \<Rightarrow> idem_store \<Rightarrow> kv \<Rightarrow> time \<Rightarrow> bool" where
  "kv_ok L bd C I m now \<longleftrightarrow>
     (\<forall>c u. kv_holds L C m c u \<longrightarrow> good_url L bd c u)
     \<and> (\<forall>c v dl. m (URLKey C c) = Some (v, dl) \<longrightarrow> (\<exists>d. dl = Some d \<and> d \<le> now + cacheTTL))
     \<and> (\<forall>k v dl. m (lockKey I k) = Some (v, dl) \<longrightarrow> (\<exists>d. dl = Some d \<and> d \<le> now + LockTTL I))"

definition sys_inv ::
  "('x \<Rightarrow> kv) \<Rightarrow> ('x \<Rightarrow> time) \<Rightarrow> golib \<Rightarrow> string \<Rightarrow> url_cache \<Rightarrow> idem_store \<Rightarrow> 'x world \<Rightarrow> bool" where
  "sys_inv raw tick L bd C I w \<longleftrightarrow> db_ok L bd (db w) \<and> kv_ok L bd C I (raw (ext w)) (tick (ext w))"

text \<open>The services \<open>main\<close> builds: the repository, and the Redis stores on one key prefix, or none.\<close>

definition wired :: "'x platform \<Rightarrow> url_cache \<Rightarrow> idem_store \<Rightarrow> 'x world url_service \<Rightarrow> bool" where
  "wired P C I s \<longleftrightarrow>
     store s = URLRepository P \<and> (cache s = None \<or> cache s = Some C) \<and> (idem s = None \<or> idem s = Some I)
     \<and> cache_keyBase C = idem_keyBase I \<and> nano_ms \<le> LockTTL I"

text \<open>What an answer may say.\<close>

definition answer_ok :: "golib \<Rightarrow> 'x world url_service \<Rightarrow> api_call \<Rightarrow> api_answer \<Rightarrow> bool" where
  "answer_ok L s call a =
     (case (call, a) of
        (CallCreate inp, Created (Inr res)) \<Rightarrow>
          acceptable_url L (blockDomain s) (LongURL (res_URL res))
          \<and> res_ShortURL res = shortURLFor L s (Code (res_URL res))
          \<and> (in_CustomCode inp \<noteq> '''' \<and> \<not> res_Replayed res \<longrightarrow> Code (res_URL res) = in_CustomCode inp)
      | (CallCreate inp, Created (Inl err)) \<Rightarrow> True
      | (CallResolve c, Resolved (Inr u)) \<Rightarrow> good_url L (blockDomain s) c u
      | (CallResolve c, Resolved (Inl err)) \<Rightarrow> True
      | (CallDelete c, Deleted r) \<Rightarrow> True
      | (CallStats c, Statistics r) \<Rightarrow> True
      | _ \<Rightarrow> False)"

subsection \<open>Statements keep the database in order\<close>

lemma insert_db_ok:
  "insert_url co l e now d = (r, d') \<Longrightarrow> db_ok L bd d \<Longrightarrow> acceptable_url L bd l \<Longrightarrow> db_ok L bd d'"
  using insert_url_inv [of co l e now d r d']
  by (auto simp: db_ok_def insert_url_def Let_def new_row_def split: if_splits)

lemma update_db_ok: "update_url_code c i now d = (r, d') \<Longrightarrow> db_ok L bd d \<Longrightarrow> db_ok L bd d'"
  using update_url_code_inv [of c i now d r d']
  by (auto simp: db_ok_def update_url_code_def set_row_code_def split: if_splits)

lemma delete_db_ok: "delete_url c now d = (r, d') \<Longrightarrow> db_ok L bd d \<Longrightarrow> db_ok L bd d'"
  using delete_url_inv [of c now d r d']
  by (auto simp: db_ok_def delete_url_def Let_def split: if_splits)

lemma select_db_ok: "select_url c now d = (r, d') \<Longrightarrow> db_ok L bd d \<Longrightarrow>
    d' = d \<and> (\<forall>u. r = Inr u \<longrightarrow> good_url L bd c u)"
  by (auto simp: db_ok_def select_url_def good_url_def row_url_def split: if_splits option.splits dest!: find_Some_D)

lemma kv_ok_mono: "kv_ok L bd C I m t \<Longrightarrow> t \<le> t' \<Longrightarrow> kv_ok L bd C I m t'"
  unfolding kv_ok_def by (meson add_right_mono order_trans)

text \<open>Keys of the two stores never meet.\<close>

lemma keys_apart:
  assumes "cache_keyBase C = idem_keyBase I"
  shows "URLKey C c \<noteq> respKey I k" "URLKey C c \<noteq> lockKey I k" "respKey I k \<noteq> URLKey C c" "lockKey I k \<noteq> URLKey C c"
  using assms by (auto simp: URLKey_def respKey_def lockKey_def)

lemma kv_ok_cache_set:
  assumes "kv_ok L bd C I m t" "cache_keyBase C = idem_keyBase I" "t \<le> t'" "ttl \<le> cacheTTL"
    and "set_with m (URLKey C c) v ttl t t' m'" "\<And>u. json_Unmarshal L v = Inr u \<Longrightarrow> good_url L bd c u"
  shows "kv_ok L bd C I m' t'"
proof -
  have ms: "nano_ms \<le> cacheTTL" by (simp add: cacheTTL_def nano_defs)
  from assms(5) obtain dl where m': "m' = m(URLKey C c \<mapsto> (v, Some dl))" and dl: "dl \<le> t' + max ttl nano_ms"
    by (auto simp: set_with_def)
  have "kv_ok L bd C I m t'" using kv_ok_mono [OF assms(1,3)] .
  with m' dl ms assms(4,6) keys_apart(4) [OF assms(2)] show ?thesis
    unfolding kv_ok_def kv_holds_def by (auto split: if_splits)
qed

lemma kv_ok_del: "kv_ok L bd C I m t \<Longrightarrow> t \<le> t' \<Longrightarrow> kv_ok L bd C I (m(k := None)) t'"
  using kv_ok_mono [of L bd C I m t t'] unfolding kv_ok_def kv_holds_def
  by (auto split: if_splits)

lemma kv_ok_resp_set:
  assumes "kv_ok L bd C I m t" "cache_keyBase C = idem_keyBase I" "t \<le> t'"
    and "set_with m (respKey I k) v ttl t t' m'"
  shows "kv_ok L bd C I m' t'"
  using kv_ok_mono [OF assms(1,3)] assms(4) keys_apart(1,3) [OF assms(2)]
  unfolding kv_ok_def kv_holds_def by (auto simp: set_with_def split: if_splits)

lemma kv_ok_lock_set:
  assumes "kv_ok L bd C I m t" "cache_keyBase C = idem_keyBase I" "t \<le> t'" "nano_ms \<le> LockTTL I"
    and "set_with m (lockKey I k) v (LockTTL I) t t' m'"
  shows "kv_ok L bd C I m' t'"
  using kv_ok_mono [OF assms(1,3)] assms(4,5) keys_apart(2,4) [OF assms(2)]
  unfolding kv_ok_def kv_holds_def by (auto simp: set_with_def split: if_splits)

subsection \<open>Every action keeps the invariant\<close>

text \<open>
  The rules for single actions. \<open>I\<close> is the idempotency store and \<open>bd\<close> the blocked
  domain of the service; the wiring puts both stores on one key prefix.
\<close>

locale wired_service = redis_cache P raw tick L C
  for P :: "'x platform" and raw :: "'x \<Rightarrow> kv" and tick :: "'x \<Rightarrow> time" and L :: golib and C :: url_cache +
  fixes I :: idem_store and s :: "'x world url_service"
  assumes wiring: "wired P C I s"
begin

abbreviation inv :: "'x world \<Rightarrow> bool" where
  "inv \<equiv> sys_inv raw tick L (blockDomain s) C I"

lemma wires:
  "store s = URLRepository P" "cache s = None \<or> cache s = Some C" "idem s = None \<or> idem s = Some I"
  "cache_keyBase C = idem_keyBase I" "nano_ms \<le> LockTTL I"
  using wiring by (auto simp: wired_def)

lemma safe_ext:
  assumes "\<And>x r x'. kv_ok L (blockDomain s) C I (raw x) (tick x) \<Longrightarrow> g x = (r, x') \<Longrightarrow>
      Q r \<and> kv_ok L (blockDomain s) C I (raw x') (tick x')"
  shows "safe inv Q (ext_act g)"
  by (rule safe_ext_act) (use assms in \<open>auto simp: sys_inv_def\<close>)

lemma safe_Inc_inv: "safe inv (\<lambda>_. True) (Inc m)"
  by (rule safe_Inc) (simp_all add: sys_inv_def)

lemma safe_stmt:
  assumes "\<And>now d r d'. db_ok L (blockDomain s) d \<Longrightarrow> st now d = (r, d') \<Longrightarrow> Q r \<and> db_ok L (blockDomain s) d'"
    and "\<And>m. Q (Inl (Plain m))"
  shows "safe inv Q (SQL P st)"
proof (rule safe_SQL)
  have kv: "kv_ok L (blockDomain s) C I (raw x) (tick x)" if "inv w" "p_sql P (ext w) = (f, x)" for w f x
    using sql_law [OF that(2)] that(1) by (auto simp: sys_inv_def intro: kv_ok_mono)
  show "inv w \<Longrightarrow> p_sql P (ext w) = (f, x) \<Longrightarrow> st (p_sql_now P x) (db w) = (r, d) \<Longrightarrow>
      Q r \<and> inv (w\<lparr>db := d, ext := x\<rparr>)" for w x f r d
    using kv [of w f x] assms(1) by (auto simp: sys_inv_def)
  show "inv w \<Longrightarrow> p_sql P (ext w) = (f, x) \<Longrightarrow> inv (w\<lparr>ext := x\<rparr>)" for w x f
    using kv [of w f x] by (auto simp: sys_inv_def)
qed (rule assms(2))

lemma safe_time: "safe inv (\<lambda>_. True) (time_Now P)" "safe inv (\<lambda>_. True) (time_Sleep P d)"
  "safe inv (\<lambda>_. True) (ctx_Err P)"
proof -
  show "safe inv (\<lambda>_. True) (time_Now P)" "safe inv (\<lambda>_. True) (time_Sleep P d)" unfolding act_defs
    by (rule safe_ext; use now_law sleep_law in \<open>auto intro: kv_ok_mono\<close>)+
  show "safe inv (\<lambda>_. True) (ctx_Err P)" unfolding act_defs
  proof (rule safe_ext)
    fix x r x'
    assume ok: "kv_ok L (blockDomain s) C I (raw x) (tick x)" and g: "map_prod (map_option Plain) id (p_ctx_err P x) = (r, x')"
    then obtain c where "p_ctx_err P x = (c, x')" by (cases "p_ctx_err P x") auto
    from ctx_law [OF this] ok show "True \<and> kv_ok L (blockDomain s) C I (raw x') (tick x')"
      by (auto intro: kv_ok_mono)
  qed
qed

lemma safe_repo:
  "acceptable_url L (blockDomain s) l \<Longrightarrow> safe inv (\<lambda>_. True) (repo_Create P l e)"
  "acceptable_url L (blockDomain s) l \<Longrightarrow> safe inv (\<lambda>_. True) (repo_CreateWithCode P c l e)"
  "safe inv (\<lambda>_. True) (repo_SetCode P i c)"
  "safe inv (\<lambda>r. \<forall>u. r = Inr u \<longrightarrow> good_url L (blockDomain s) c u) (repo_GetByCode P c)"
  "safe inv (\<lambda>_. True) (repo_DeleteByCode P c)"
  unfolding repo_defs
  by (rule safe_bindp [OF safe_stmt];
      use insert_db_ok update_db_ok select_db_ok delete_db_ok in \<open>fastforce split: sum.splits\<close>)+

lemma safe_stats: "safe inv (\<lambda>_. True) (repo_StatsByURLID P i)"
proof -
  have one: "safe inv (\<lambda>_. True) (SQL P (select_total i))" "safe inv (\<lambda>_. True) (SQL P (select_daily i))"
    "safe inv (\<lambda>_. True) (SQL P (select_referrers i))"
    by (rule safe_stmt; auto dest: select_stats_frame)+
  show ?thesis unfolding repo_StatsByURLID_def
    by (intro safe_any_bindp one; simp split: sum.split add: one safe_any_bindp)
qed

lemma safe_cache_Get:
  "safe inv (\<lambda>r. \<forall>u. r = Inr (Some u) \<longrightarrow> good_url L (blockDomain s) c u) (cache_Get P L C c)"
  unfolding cache_Get_def
proof (rule safe_bindp [where Q = "\<lambda>r. \<forall>v u. r = Inr v \<and> json_Unmarshal L v = Inr u \<longrightarrow> good_url L (blockDomain s) c u"])
  show "safe inv (\<lambda>r. \<forall>v u. r = Inr v \<and> json_Unmarshal L v = Inr u \<longrightarrow> good_url L (blockDomain s) c u)
      (ext_act (p_get P (URLKey C c)))"
  proof (rule safe_ext)
    fix x r x'
    assume k: "kv_ok L (blockDomain s) C I (raw x) (tick x)" and g: "p_get P (URLKey C c) x = (r, x')"
    have "good_url L (blockDomain s) c u" if "r = Inr v" "json_Unmarshal L v = Inr u" for v u
    proof -
      from get_law [OF g] that(1) obtain dl where "raw x (URLKey C c) = Some (v, dl)" by (blast dest: live_Some_raw)
      with that(2) have "kv_holds L C (raw x) c u" by (auto simp: kv_holds_def)
      with k show ?thesis by (simp add: kv_ok_def)
    qed
    with get_law [OF g] k show "(\<forall>v u. r = Inr v \<and> json_Unmarshal L v = Inr u \<longrightarrow> good_url L (blockDomain s) c u)
        \<and> kv_ok L (blockDomain s) C I (raw x') (tick x')" by (auto intro: kv_ok_mono)
  qed
qed (auto split: sum.split intro!: safe_bindp [OF safe_Inc_inv])

lemma safe_cache_put:
  assumes "ttl \<le> cacheTTL" "\<And>u. json_Unmarshal L v = Inr u \<Longrightarrow> good_url L (blockDomain s) c u"
  shows "safe inv (\<lambda>_. True) (cache_put P C c v ttl)"
proof -
  have "safe inv (\<lambda>_. True) (ext_act (p_set P (URLKey C c) v ttl))"
  proof (rule safe_ext)
    fix x r x'
    assume k: "kv_ok L (blockDomain s) C I (raw x) (tick x)" and g: "p_set P (URLKey C c) v ttl x = (r, x')"
    from set_law [OF g] kv_ok_cache_set [OF k wires(4) _ assms(1) _ assms(2)] kv_ok_mono [OF k]
    show "True \<and> kv_ok L (blockDomain s) C I (raw x') (tick x')" by auto
  qed
  then show ?thesis by (simp add: cache_put_def)
qed

lemma safe_cache_Set: "good_url L (blockDomain s) c u \<Longrightarrow> safe inv (\<lambda>_. True) (cache_Set P L C c u)"
  using lib unfolding cache_Set_def lib_ok_def Let_def
  by (auto split: sum.split option.split intro!: safe_bindp [OF safe_time(1)] safe_cache_put)

lemma safe_del: "safe inv (\<lambda>_. True) (ext_act (p_del P k))"
proof (rule safe_ext)
  fix x r x'
  assume k: "kv_ok L (blockDomain s) C I (raw x) (tick x)" and g: "p_del P k x = (r, x')"
  from del_law [OF g] kv_ok_del [OF k] kv_ok_mono [OF k]
  show "True \<and> kv_ok L (blockDomain s) C I (raw x') (tick x')" by auto
qed

lemma safe_idem:
  "safe inv (\<lambda>_. True) (idem_Get P I k)" "safe inv (\<lambda>_. True) (idem_Set P I k c)"
  "safe inv (\<lambda>_. True) (idem_Claim P I k)" "safe inv (\<lambda>_. True) (idem_Release P I k)"
proof -
  note kvs = wires(4)
  have "safe inv (\<lambda>_. True) (ext_act (p_get P (respKey I k)))"
    by (rule safe_ext) (auto dest!: get_law intro: kv_ok_mono)
  then show "safe inv (\<lambda>_. True) (idem_Get P I k)"
    unfolding idem_Get_def by (rule safe_bindp) (simp split: sum.split)
  show "safe inv (\<lambda>_. True) (idem_Set P I k c)" unfolding idem_Set_def
    by (rule safe_ext) (auto dest!: set_law intro: kv_ok_mono kv_ok_resp_set [OF _ kvs])
  show "safe inv (\<lambda>_. True) (idem_Claim P I k)" unfolding idem_Claim_def
  proof (rule safe_ext)
    fix x r x'
    assume ok: "kv_ok L (blockDomain s) C I (raw x) (tick x)" and g: "p_setnx P (lockKey I k) ''1'' (LockTTL I) x = (r, x')"
    from setnx_law [OF g] kv_ok_lock_set [OF ok kvs _ wires(5), of "tick x'" k "''1''" "raw x'"] kv_ok_mono [OF ok, of "tick x'"]
    show "True \<and> kv_ok L (blockDomain s) C I (raw x') (tick x')" by (auto split: sum.splits if_splits)
  qed
  show "safe inv (\<lambda>_. True) (idem_Release P I k)" unfolding idem_Release_def by (rule safe_del)
qed

end

subsection \<open>Every method keeps the invariant\<close>

definition create_good :: "golib \<Rightarrow> 'x world url_service \<Rightarrow> string \<Rightarrow> goerr + create_result \<Rightarrow> bool" where
  "create_good L s custom r \<longleftrightarrow> (\<forall>res. r = Inr res \<longrightarrow>
     acceptable_url L (blockDomain s) (LongURL (res_URL res))
     \<and> res_ShortURL res = shortURLFor L s (Code (res_URL res))
     \<and> (custom \<noteq> '''' \<and> \<not> res_Replayed res \<longrightarrow> Code (res_URL res) = custom))"

lemma create_good_Inl [simp]: "create_good L s c (Inl e)"
  by (simp add: create_good_def)

context wired_service begin

lemma safe_createOne:
  assumes "acceptable_url L (blockDomain s) l"
  shows "safe inv (create_good L s (in_CustomCode inp)) (createOne L s inp l e)"
proof -
  let ?code = "\<lambda>r. \<forall>c. r = Inr c \<longrightarrow> in_CustomCode inp \<noteq> '''' \<longrightarrow> c = in_CustomCode inp"
  have custom: "safe inv ?code (bindp (repo_CreateWithCode P c l e) (\<lambda>r. case r of
      Inl err \<Rightarrow> if errors_Is err RepoErrConflict then Ret (Inl (f c)) else Ret (Inl err) | Inr _ \<Rightarrow> Ret (Inr c)))"
    if "c = in_CustomCode inp" for c f
    by (rule safe_bindp [OF safe_repo(2) [OF assms]]) (auto simp: that split: sum.split)
  have auto_code: "safe inv ?code (tryp (repo_Create P l e) (\<lambda>i. case EncodeBase62 (word_of_int i) of
        None \<Rightarrow> Ret (Inl x)
      | Some k \<Rightarrow> bindp (repo_SetCode P i k) (\<lambda>r. case r of
          Inl err \<Rightarrow> if errors_Is err RepoErrConflict then Ret (Inl (f err)) else Ret (Inl err) | Inr _ \<Rightarrow> Ret (Inr k))))"
    if "in_CustomCode inp = ''''" for x f
    by (rule safe_tryp [OF safe_repo(1) [OF assms]])
      (auto simp: that split: option.split sum.split intro!: safe_bindp [OF safe_repo(3)])
  show ?thesis unfolding createOne_def wires(1) URLRepository_sel
  proof (rule safe_tryp [where Q = ?code])
    fix code assume "?code (Inr code)"
    then show "safe inv (create_good L s (in_CustomCode inp)) (tryp (repo_GetByCode P code)
        (\<lambda>created. Ret (Inr \<lparr>res_URL = created, res_ShortURL = shortURLFor L s code, res_Replayed = False\<rparr>)))"
      by (intro safe_tryp [OF safe_repo(4)]) (auto simp: create_good_def good_url_def)
  qed (((split if_split, intro conjI impI), split option.split, intro conjI allI impI, rule custom [OF refl],
      simp, rule auto_code, simp), simp)
qed

lemma safe_replay: "safe inv (create_good L s k) (replay L s c)"
  unfolding replay_def wires(1) URLRepository_sel
  by (rule safe_bindp [OF safe_repo(4)]) (auto simp: create_good_def good_url_def split: sum.split)

lemma safe_wait: "safe inv (create_good L s k) (wait_for_winner P L s I key n)"
proof (induction n)
  case (Suc n)
  then show ?case
    by (auto intro!: safe_bindp [OF safe_time(3)] safe_bindp [OF safe_time(2)] safe_bindp [OF safe_idem(1)]
        safe_bindp [OF safe_Inc_inv] safe_replay split: option.split sum.split)
qed simp

lemma safe_createIdempotent:
  assumes "acceptable_url L (blockDomain s) l"
  shows "safe inv (create_good L s (in_CustomCode inp)) (createIdempotent P L s inp l e)"
proof -
  note one = safe_createOne [OF assms]
  have won: "safe inv (create_good L s (in_CustomCode inp)) (tryp (createOne L s inp l e) (\<lambda>res.
      bindp (idem_Set P I key (Code (res_URL res))) (\<lambda>_. bindp (idem_Release P I key) (\<lambda>_. Ret (Inr res)))))" for key
    by (rule safe_tryp [OF one]) (auto intro!: safe_bindp [OF safe_idem(2)] safe_bindp [OF safe_idem(4)])
  show ?thesis using wires(3) unfolding createIdempotent_def Let_def
    by (auto intro!: one won safe_wait safe_replay safe_bindp [OF safe_idem(1)] safe_bindp [OF safe_idem(3)]
        safe_bindp [OF safe_Inc_inv] split: option.split sum.split bool.split)
qed

lemma safe_service_Create: "safe inv (create_good L s (in_CustomCode inp)) (service_Create P L s inp)"
proof (cases "validateLongURL L (blockDomain s) (in_URL inp)")
  case (Inl err)
  then show ?thesis by (simp add: service_Create_def)
next
  case (Inr l)
  note acc = validateLongURL_acceptable [OF Inr]
  let ?inp = "inp\<lparr>in_IdempotencyKey := TrimSpace (in_IdempotencyKey inp)\<rparr>"
  have plain: "safe inv (create_good L s (in_CustomCode inp)) (tryp (createOne L s ?inp l e)
      (\<lambda>res. Ret (Inr \<lparr>res_URL = res_URL res, res_ShortURL = res_ShortURL res, res_Replayed = False\<rparr>)))" for e
  proof (rule safe_tryp [where Q = "\<lambda>r. create_good L s (in_CustomCode inp) r \<and> (\<forall>res. r = Inr res \<longrightarrow> \<not> res_Replayed res)"])
    have "safe inv (\<lambda>r. \<forall>res. r = Inr res \<longrightarrow> \<not> res_Replayed res) (createOne L s ?inp l e)"
      unfolding createOne_def
      by (rule safe_tryp [where Q = "\<lambda>_. True"]) (auto simp: wires(1) split: option.split
          intro!: safe_any safe_tryp [OF safe_mono [OF safe_repo(4)]] safe_mono [OF safe_repo(4)] safe_repo acc split: sum.split)
    with safe_createOne [OF acc, of ?inp e]
    show "safe inv (\<lambda>r. create_good L s (in_CustomCode inp) r \<and> (\<forall>res. r = Inr res \<longrightarrow> \<not> res_Replayed res)) (createOne L s ?inp l e)"
      by (simp add: safe_conj)
  qed (auto simp: create_good_def)
  have idem: "safe inv (create_good L s (in_CustomCode inp)) (createIdempotent P L s ?inp l e)" for e
    using safe_createIdempotent [OF acc, of ?inp e] by simp
  have expiry: "safe inv (\<lambda>_. True) (if in_ExpiresIn inp \<noteq> ''''
      then tryp (parseExpiry P (in_ExpiresIn inp)) (\<lambda>t. Ret (Inr (Some t))) else Ret (Inr None))"
    by (auto simp: parseExpiry_def intro!: safe_any safe_time(1) split: sum.split)
  show ?thesis unfolding service_Create_def Inr sum.case
    by (rule safe_tryp [OF expiry], simp, unfold Let_def, split if_split, intro conjI impI, simp_all only: plain idem select_convs update_convs)
qed

lemma safe_resolve_store:
  "safe inv (\<lambda>r. \<forall>u. r = Inr u \<longrightarrow> good_url L (blockDomain s) c u) (resolve_store P L s c)"
proof -
  have ret: "safe inv (\<lambda>r. \<forall>u. r = Inr u \<longrightarrow> good_url L (blockDomain s) c u) (cache_and_return P L s c u)"
    if "good_url L (blockDomain s) c u" for u
    using wires(2) that unfolding cache_and_return_def
    by (auto intro!: safe_bindp [OF safe_cache_Set])
  show ?thesis unfolding resolve_store_alt wires(1) URLRepository_sel
    by (rule safe_bindp [OF safe_repo(4)])
      (auto intro!: ret safe_bindp [OF safe_time(1)] split: sum.split option.split)
qed

lemma safe_Resolve: "safe inv (\<lambda>r. \<forall>u. r = Inr u \<longrightarrow> good_url L (blockDomain s) c u) (Resolve P L s c)"
proof -
  have del: "safe inv (\<lambda>_. True) (cache_Delete P C c)" unfolding cache_Delete_def by (rule safe_del)
  show ?thesis using wires(2) unfolding Resolve_def
    by (auto intro!: safe_resolve_store safe_bindp [OF safe_cache_Get] safe_bindp [OF safe_time(1)]
        safe_bindp [OF del] safe_bindp [OF safe_Inc_inv] split: option.split sum.split)
qed

lemma safe_service_Delete: "safe inv (\<lambda>_. True) (service_Delete P s c)"
proof -
  have del: "safe inv (\<lambda>_. True) (cache_Delete P C c)" unfolding cache_Delete_def by (rule safe_del)
  show ?thesis using wires(2) unfolding service_Delete_def wires(1) URLRepository_sel
    by (auto intro!: safe_bindp [OF safe_repo(5)] safe_bindp [OF del] split: option.split sum.split)
qed

lemma safe_GetStats: "safe inv (\<lambda>_. True) (GetStats P L s c)"
  unfolding GetStats_def wires(1) URLRepository_sel
  by (rule safe_tryp [OF safe_Resolve]) (auto intro: safe_stats)

lemma safe_api: "safe inv (answer_ok L s call) (api_prog P L s call)"
  unfolding api_prog_def
  by (cases call)
    (auto intro!: safe_bindp [OF safe_service_Create] safe_bindp [OF safe_Resolve] safe_bindp [OF safe_service_Delete]
      safe_bindp [OF safe_GetStats] simp: answer_ok_def create_good_def split: sum.split)

lemma pool_safe:
  assumes "inv w" "pstep\<^sup>*\<^sup>* (w, map (api_prog P L s) calls) (w', ps)"
  shows "inv w' \<and> (\<forall>i < length calls. \<forall>a. ps ! i = Ret a \<longrightarrow> answer_ok L s (calls ! i) a)"
proof -
  have "pool_inv inv (\<lambda>i. if i < length calls then answer_ok L s (calls ! i) else (\<lambda>_. True)) (w, map (api_prog P L s) calls)"
    using assms(1) safe_api by (simp add: pool_inv_def)
  from psteps_pool_inv [OF assms(2) this] psteps_length [OF assms(2)] show ?thesis
    by (auto simp: pool_inv_def)
qed

end

interpretation demo: wired_service sim_platform s_kv s_clock demo_lib "NewURLCache ''v1:''" "NewStore ''v1:''" demo_service
  by unfold_locales (simp add: wired_def NewURLCache_def NewStore_def lockTTL_def nano_defs)

end
