(* ===== verification/Api_Props.thy ===== *)
theory Api_Props
imports Api_Pool "HOL-Library.Multiset"
begin

section \<open>Properties of concurrent requests and of the statistics\<close>

text \<open>
  The invariant of theory Api_Pool written out for any number of service calls at once, what it
  says of the life of cached rows and locks, and the statistics read without interference.
\<close>

lemma wired_serviceI:
  "kv_server P raw tick \<Longrightarrow> lib_ok L \<Longrightarrow> wired P C I s \<Longrightarrow> wired_service P raw tick L C I s"
  by (simp add: wired_service_def wired_service_axioms_def redis_cache_def redis_cache_axioms_def)

lemma demo_wired: "wired sim_platform (NewURLCache ''v1:'') (NewStore ''v1:'') demo_service"
  by (simp add: wired_def NewURLCache_def NewStore_def lockTTL_def nano_defs)

lemma demo_sys_inv:
  assumes "db_inv d" "\<forall>r \<in> set (urls d). r_long_url r = ''http://a''"
  shows "sys_inv s_kv s_clock demo_lib ''sho.rt'' C I (world0 d (sim0 t))"
  using assms validateLongURL_acceptable [OF demo_valid]
  by (simp add: sys_inv_def db_ok_def kv_ok_def kv_holds_def world0_def sim0_def)

text \<open>C20: However many Create, Resolve, Delete and Stats requests run at once, in whatever order their statements and Redis commands interleave and whichever of them fail, the table keeps its constraints (no two rows share a code or an id, every code and URL has its format) and holds only acceptable URLs, the cache holds under a code only acceptable URLs with that code, and every answered request says what it may say: a created or resolved URL is acceptable, carries the code asked for, and comes with its own short URL.\<close>

theorem concurrent_requests_safe:
  assumes "kv_server P raw tick" "lib_ok L" "wired P C I s"
    and "sys_inv raw tick L (blockDomain s) C I w"
    and "pstep\<^sup>*\<^sup>* (w, map (api_prog P L s) calls) (w', ps)"
  shows "sys_inv raw tick L (blockDomain s) C I w'
    \<and> (\<forall>i < length calls. \<forall>a. ps ! i = Ret a \<longrightarrow> answer_ok L s (calls ! i) a)"
  using wired_service.pool_safe [OF wired_serviceI [OF assms(1-3)] assms(4,5)] .

theorem concurrent_requests_safe_witness:
  "\<exists>w' u. pstep\<^sup>*\<^sup>* (world0 (demo_db [''ab0''] None) (sim0 0), map (api_prog sim_platform demo_lib demo_service) [CallResolve ''ab0''])
        (w', [Ret (Resolved (Inr u))])
     \<and> Code u = ''ab0'' \<and> db_inv (db w')"
proof -
  let ?w = "world0 (demo_db [''ab0''] None) (sim0 0)"
  let ?p = "api_prog sim_platform demo_lib demo_service (CallResolve ''ab0'')"
  have "fst (run (Resolve sim_platform demo_lib demo_service ''ab0'') ?w) = Inr (row_url ''ab0'' (urls (demo_db [''ab0''] None) ! 0))"
    by code_simp
  then obtain u w' where "run ?p ?w = (Resolved (Inr u), w')"
    by (cases "run (Resolve sim_platform demo_lib demo_service ''ab0'') ?w") (auto simp: api_prog_def run_simps)
  from run_psteps [OF this] have steps: "pstep\<^sup>*\<^sup>* (?w, map (api_prog sim_platform demo_lib demo_service) [CallResolve ''ab0''])
      (w', [Ret (Resolved (Inr u))])" by simp
  have "sys_inv s_kv s_clock demo_lib (blockDomain demo_service) (NewURLCache ''v1:'') (NewStore ''v1:'') ?w"
    unfolding demo_service_sel(4) by (rule demo_sys_inv) code_simp+
  from concurrent_requests_safe [OF sim_law demo_lib_ok demo_wired this steps] steps show ?thesis
    by (auto simp: answer_ok_def good_url_def sys_inv_def db_ok_def)
qed



subsection \<open>Statistics\<close>

lemma sum_list_sort_key: "sum_list (map g (sort_key f xs)) = (sum_list (map g xs) :: int)"
proof -
  have "mset (map g (sort_key f xs)) = mset (map g xs)" by simp
  then show ?thesis by (metis sum_mset_sum_list)
qed

lemma read_Inr:
  assumes "sql_step P st w = (Inr a, v)" "\<And>now. snd (st now (db w)) = db w"
  shows "db v = db w \<and> (\<exists>now. fst (st now (db w)) = Inr a)"
  using assms(1)
proof (cases rule: sql_step_cases)
  case (executed x d)
  with assms(2) [of "p_sql_now P x"] show ?thesis
    by (intro conjI exI [of _ "p_sql_now P x"]) simp_all
qed simp_all

lemma sorted_neg_rev: "sorted (map (\<lambda>g. - f g) xs) \<Longrightarrow> sorted (rev (map f xs))" for f :: "'a \<Rightarrow> int"
  by (induction xs) (auto simp: sorted_append)

lemma sorted_take: "sorted xs \<Longrightarrow> sorted (take n xs)"
  by (metis append_take_drop_id sorted_append)

lemma ranked_value: "g \<in> set (ranked_referrers as) \<Longrightarrow> snd g = value_total as (fst g)"
  unfolding ranked_referrers_def by (auto dest!: in_set_takeD)

lemma ranked_sorted: "sorted (rev (map snd (ranked_referrers as)))"
  unfolding ranked_referrers_def
  by (rule sorted_neg_rev) (simp add: take_map [symmetric] sorted_take)

lemma ranked_distinct: "distinct (map fst (ranked_referrers as))"
proof -
  let ?groups = "map (\<lambda>v. (v, value_total as v)) (remdups (map d_value as))"
  have "distinct (map fst ?groups)" by (simp add: comp_def)
  moreover have "mset (map fst (sort_key (\<lambda>g. - snd g) ?groups)) = mset (map fst ?groups)"
    unfolding mset_map mset_sort ..
  ultimately have "distinct (map fst (sort_key (\<lambda>g. - snd g) ?groups))"
    using mset_eq_imp_distinct_iff by blast
  then show ?thesis unfolding ranked_referrers_def take_map [symmetric] by simp
qed

lemma stats_read:
  assumes "run (repo_StatsByURLID P i) w = (Inr st, w')"
  shows "TotalClicks st = sum_list (map d_count (dim_rows (db w) i ''total''))"
    "Daily st = map (\<lambda>a. \<lparr>Day = d_day a, Clicks = d_count a\<rparr>) (sort_key d_day (dim_rows (db w) i ''total''))"
    "TopReferrers st = map (\<lambda>(v, n). \<lparr>Referrer = v, RefClicks = n\<rparr>) (ranked_referrers (dim_rows (db w) i ''referrer''))"
proof -
  let ?as = "dim_rows (db w) i ''referrer''" and ?days = "dim_rows (db w) i ''total''"
  from assms obtain c d gs v1 v2 where steps: "sql_step P (select_total i) w = (Inr c, v1)"
    "sql_step P (select_daily i) v1 = (Inr d, v2)" "sql_step P (select_referrers i) v2 = (Inr gs, w')"
    and res: "scan_referrers gs = Inr (TopReferrers st)" "TotalClicks st = c" "Daily st = d"
    by (auto simp: repo_StatsByURLID_def run_simps split: prod.splits sum.splits)
  have s1: "db v1 = db w" "c = sum_list (map d_count ?days)"
    using read_Inr [OF steps(1)] by (auto simp: select_total_def scan_int64_def split: if_splits)
  have s2: "db v2 = db w" "d = map (\<lambda>a. \<lparr>Day = d_day a, Clicks = d_count a\<rparr>) (sort_key d_day ?days)"
    using read_Inr [OF steps(2)] s1(1) by (auto simp: select_daily_def)
  have "gs = ranked_referrers ?as"
    using read_Inr [OF steps(3)] s2(1) by (auto simp: select_referrers_def)
  with res(1) show "TopReferrers st = map (\<lambda>(v, n). \<lparr>Referrer = v, RefClicks = n\<rparr>) (ranked_referrers ?as)"
    by (auto simp: scan_referrers_def split: if_splits)
  show "TotalClicks st = sum_list (map d_count ?days)"
    "Daily st = map (\<lambda>a. \<lparr>Day = d_day a, Clicks = d_count a\<rparr>) (sort_key d_day ?days)"
    by (simp_all add: res s1(2) s2(2))
qed

lemma stats_total:
  assumes "run (repo_StatsByURLID P i) w = (Inr st, w')"
  shows "TotalClicks st = sum_list (map Clicks (Daily st))"
  by (simp add: stats_read [OF assms] comp_def sum_list_sort_key)

lemma stats_error:
  assumes "run (repo_StatsByURLID P i) w = (Inl err, w')"
  shows "\<not> errors_Is err x"
proof -
  have e: "\<not> errors_Is e x" if "sql_step P s v = (Inl e, v')" "\<And>now d e. fst (s now d) = Inl e \<Longrightarrow> \<exists>m. e = Plain m" for s :: "'r stmt" and v v' e
    using that(1)
  proof (cases rule: sql_step_cases)
    case (executed y d)
    with that(2) [of "p_sql_now P y" "db v" e] show ?thesis by auto
  qed auto
  from assms show ?thesis
    by (auto simp: repo_StatsByURLID_def run_simps scan_referrers_def split: prod.splits sum.splits if_splits
        dest!: e simp: select_total_def select_daily_def select_referrers_def scan_int64_def)
qed

text \<open>C35: A statistics answer read while no other request writes is consistent: the total is the sum of the daily clicks, the days ascend, at most ten referrers are listed, by descending clicks, each with the sum of its rows.\<close>

theorem stats_consistent:
  assumes "run (repo_StatsByURLID P i) w = (Inr st, w')"
  shows "TotalClicks st = sum_list (map Clicks (Daily st)) \<and> sorted (map Day (Daily st))
    \<and> length (TopReferrers st) \<le> 10 \<and> sorted (rev (map RefClicks (TopReferrers st)))
    \<and> distinct (map Referrer (TopReferrers st))
    \<and> (\<forall>g \<in> set (TopReferrers st). RefClicks g = value_total (dim_rows (db w) i ''referrer'') (Referrer g))"
proof -
  let ?as = "dim_rows (db w) i ''referrer''"
  note st = stats_read [OF assms]
  have "sorted (map Day (Daily st))" "length (TopReferrers st) \<le> 10" by (simp_all add: st comp_def ranked_referrers_def)
  moreover have "map RefClicks (TopReferrers st) = map snd (ranked_referrers ?as)"
    "map Referrer (TopReferrers st) = map fst (ranked_referrers ?as)"
    by (simp_all add: st(3) case_prod_beta comp_def)
  moreover have "\<forall>g \<in> set (TopReferrers st). RefClicks g = value_total ?as (Referrer g)"
    using ranked_value [of _ ?as] by (auto simp: st(3))
  ultimately show ?thesis using stats_total [OF assms] ranked_sorted [of ?as] ranked_distinct [of ?as] by simp
qed

definition demo_clicks :: database where
  "demo_clicks = (demo_db [''ab0''] None)\<lparr>analytics_daily :=
     map (\<lambda>(d, m, v, n). \<lparr>d_url_id = 1, d_day = d, d_dim = m, d_value = v, d_count = n\<rparr>)
       [(8, ''total'', ''clicks'', 2), (7, ''total'', ''clicks'', 3), (7, ''referrer'', ''x'', 1), (8, ''referrer'', ''y'', 2)]\<rparr>"

theorem stats_consistent_witness:
  "\<exists>st w'. run (repo_StatsByURLID sim_platform 1) (world0 demo_clicks (sim0 0)) = (Inr st, w')
     \<and> TotalClicks st = 5 \<and> sum_list (map Clicks (Daily st)) = 5 \<and> map Day (Daily st) = [7, 8]
     \<and> map RefClicks (TopReferrers st) = [2, 1]"
proof -
  have "(case fst (run (repo_StatsByURLID sim_platform 1) (world0 demo_clicks (sim0 0))) of
      Inl e \<Rightarrow> False | Inr st \<Rightarrow> TotalClicks st = 5 \<and> map Day (Daily st) = [7, 8] \<and> map RefClicks (TopReferrers st) = [2, 1])"
    by code_simp
  then obtain st w' where st: "run (repo_StatsByURLID sim_platform 1) (world0 demo_clicks (sim0 0)) = (Inr st, w')"
    "TotalClicks st = 5" "map Day (Daily st) = [7, 8]" "map RefClicks (TopReferrers st) = [2, 1]"
    by (cases "run (repo_StatsByURLID sim_platform 1) (world0 demo_clicks (sim0 0))") (auto split: sum.splits)
  with stats_consistent [OF st(1)] show ?thesis by auto
qed

end
