(* ===== verification/Directory.thy ===== *)
theory Directory
imports Api_Pool
begin

section \<open>The service as a link directory\<close>

text \<open>
  What the service promises its clients, without tables, cache keys or statements: a map from
  codes to links and a clock. \<open>dir_step\<close> is one call on it. When nothing fails and calls run
  one after the other, the service over PostgreSQL and Redis refines this directory: the map is the
  \<open>urls\<close> table, read by code, and the cache, whose entries agree with the table in every state
  between calls (\<open>coherent\<close>), cannot be told apart from reading the table.
\<close>

type_synonym directory = "time \<times> coded_map"

definition dir_lookup :: "time \<Rightarrow> coded_map \<Rightarrow> string \<Rightarrow> goerr + url" where
  "dir_lookup now m c =
     (if \<not> pg_text c then Inl (WrapPre ''get url by code'' (PgError ''22021''))
      else case m c of
             None \<Rightarrow> Inl (Sentinel ErrNotFound)
           | Some u \<Rightarrow> if expired_at now u then Inl (Sentinel ErrExpired) else Inr u)"

definition dir_delete :: "coded_map \<Rightarrow> string \<Rightarrow> goerr option" where
  "dir_delete m c =
     (if \<not> pg_text c then Some (WrapPre ''delete url'' (PgError ''22021''))
      else if m c = None then Some (Sentinel ErrNotFound) else None)"

text \<open>A create adds one new link under a free code, or repeats an older answer, or changes nothing.\<close>

definition dir_create :: "golib \<Rightarrow> 'w url_service \<Rightarrow> create_params \<Rightarrow> coded_map \<Rightarrow> goerr + create_result \<Rightarrow> coded_map \<Rightarrow> bool" where
  "dir_create L s inp m r m' \<longleftrightarrow>
     (case r of
        Inl err \<Rightarrow> m' = m \<and> explained L s inp m err
      | Inr res \<Rightarrow>
          res_ShortURL res = shortURLFor L s (Code (res_URL res))
          \<and> (if res_Replayed res then m' = m \<and> m (Code (res_URL res)) = Some (res_URL res)
             else stored_new m m' (res_URL res)
               \<and> validateLongURL L (blockDomain s) (in_URL inp) = Inr (LongURL (res_URL res))
               \<and> (in_CustomCode inp \<noteq> '''' \<longrightarrow> Code (res_URL res) = in_CustomCode inp)))"

definition dir_step :: "golib \<Rightarrow> 'w url_service \<Rightarrow> directory \<Rightarrow> api_call \<Rightarrow> api_answer \<Rightarrow> directory \<Rightarrow> bool" where
  "dir_step L s d call a d' \<longleftrightarrow>
     fst d \<le> fst d' \<and>
     (case (call, a) of
        (CallCreate inp, Created r) \<Rightarrow> dir_create L s inp (snd d) r (snd d')
      | (CallResolve c, Resolved r) \<Rightarrow>
          snd d' = snd d \<and> (\<exists>now. fst d \<le> now \<and> now \<le> fst d' \<and> r = dir_lookup now (snd d) c)
      | (CallDelete c, Deleted r) \<Rightarrow> snd d' = (snd d)(c := None) \<and> r = dir_delete (snd d) c
      | (CallStats c, Statistics r) \<Rightarrow>
          snd d' = snd d \<and> (\<exists>now. fst d \<le> now \<and> now \<le> fst d' \<and>
            (\<forall>err. dir_lookup now (snd d) c = Inl err \<longrightarrow> r = Inl err))
      | _ \<Rightarrow> False)"

lemma dir_step_iffs:
  "dir_step L s d (CallCreate inp) a d' \<longleftrightarrow> fst d \<le> fst d' \<and> (\<exists>r. a = Created r \<and> dir_create L s inp (snd d) r (snd d'))"
  "dir_step L s d (CallResolve c) a d' \<longleftrightarrow> fst d \<le> fst d' \<and> snd d' = snd d
     \<and> (\<exists>now. fst d \<le> now \<and> now \<le> fst d' \<and> a = Resolved (dir_lookup now (snd d) c))"
  "dir_step L s d (CallDelete c) a d' \<longleftrightarrow> fst d \<le> fst d' \<and> snd d' = (snd d)(c := None) \<and> a = Deleted (dir_delete (snd d) c)"
  by (cases a; auto simp: dir_step_def)+

fun dir_run :: "golib \<Rightarrow> 'w url_service \<Rightarrow> directory \<Rightarrow> api_call list \<Rightarrow> api_answer list \<Rightarrow> directory \<Rightarrow> bool" where
  "dir_run L s d [] as d' \<longleftrightarrow> as = [] \<and> d' = d"
| "dir_run L s d (c # cs) as d' \<longleftrightarrow> (\<exists>a bs e. as = a # bs \<and> dir_step L s d c a e \<and> dir_run L s e cs bs d')"

text \<open>Calls one after the other.\<close>

fun api_run :: "'x platform \<Rightarrow> golib \<Rightarrow> 'x world url_service \<Rightarrow> api_call list \<Rightarrow> ('x world, api_answer list) prog" where
  "api_run P L s [] = Ret []"
| "api_run P L s (c # cs) = bindp (api_prog P L s c) (\<lambda>a. bindp (api_run P L s cs) (\<lambda>as. Ret (a # as)))"

subsection \<open>The invariant between calls\<close>

definition coherent :: "golib \<Rightarrow> url_cache \<Rightarrow> kv \<Rightarrow> coded_map \<Rightarrow> bool" where
  "coherent L C m look \<longleftrightarrow> (\<forall>c u. kv_holds L C m c u \<longrightarrow> look c = Some u)"

lemma coherent_cong:
  "coherent L C m look \<Longrightarrow> (\<And>c. m' (URLKey C c) = m (URLKey C c)) \<Longrightarrow> (\<And>c u. look c = Some u \<Longrightarrow> look' c = Some u)
     \<Longrightarrow> coherent L C m' look'"
  by (simp add: coherent_def kv_holds_def)

definition serving :: "('x \<Rightarrow> kv) \<Rightarrow> ('x \<Rightarrow> bool) \<Rightarrow> golib \<Rightarrow> url_cache \<Rightarrow> 'x world \<Rightarrow> bool" where
  "serving raw up L C w \<longleftrightarrow> up (ext w) \<and> db_inv (db w) \<and> coherent L C (raw (ext w)) (lookup_url (db w))"

abbreviation (input) directory_of :: "('x \<Rightarrow> time) \<Rightarrow> 'x world \<Rightarrow> directory" where
  "directory_of tick w \<equiv> (tick (ext w), lookup_url (db w))"

lemma dir_lookup_no_text: "db_inv d \<Longrightarrow> lookup_url d c = Some u \<Longrightarrow> pg_text c"
  by (blast dest: lookup_format code_pg_text)

locale up_service = wired_service P raw tick L C I s + kv_server_up P raw tick up
  for P :: "'x platform" and raw :: "'x \<Rightarrow> kv" and tick :: "'x \<Rightarrow> time" and up :: "'x \<Rightarrow> bool"
    and L :: golib and C :: url_cache and I :: idem_store and s :: "'x world url_service" +
  assumes cached: "cache s = Some C"
begin

abbreviation serves :: "'x world \<Rightarrow> bool" where
  "serves \<equiv> serving raw up L C"

lemma serving_quiet: "serves w \<Longrightarrow> quiet w v \<Longrightarrow> db v = db w \<Longrightarrow> serves v"
  by (simp add: serving_def quiet_def)

lemma serving_inc: "serves (inc_metric m w) = serves w"
  by (simp add: serving_def)

lemma up_now: "p_now P x = (t, x') \<Longrightarrow> up x \<Longrightarrow> up x'"
  using now_up [of x] by simp

lemma now_quiet: "p_now P (ext w) = (t, x) \<Longrightarrow> up (ext w) \<Longrightarrow> quiet w (w\<lparr>ext := x\<rparr>) \<and> t = tick x"
  using now_law [of "ext w" t x] now_up [of "ext w"] by (simp add: quiet_def)

subsection \<open>Resolve\<close>

lemma cache_Set_serves:
  assumes "serves w" "lookup_url (db w) c = Some u" "run (cache_Set P L C c u) w = (e, w')"
  shows "serves w'"
proof -
  have put: "safe (\<lambda>w. up (ext w)) (\<lambda>_. True) (cache_put P C c v ttl)" for v ttl
    unfolding cache_put_def by (auto intro!: safe_ext_act) (metis set_up snd_conv)
  have "safe (\<lambda>w. up (ext w)) (\<lambda>_. True) (cache_Set P L C c u)"
    unfolding cache_Set_def Let_def act_defs
    by (auto split: sum.split option.split intro!: put safe_any_bindp safe_ext_act dest: up_now)
  from up_kept [OF this _ assms(3)] assms(1) have "up (ext w')" by (simp add: serving_def)
  with assms cache.set_adds [OF assms(3)] cache_Set_run(1) [OF assms(3)] show ?thesis
    unfolding serving_def coherent_def by auto
qed

lemma cache_Delete_up:
  assumes "up (ext w)" "run (cache_Delete P C c) w = (e, w')"
  shows "up (ext w')" "\<not> kv_holds L C (raw (ext w')) c u"
    "kv_holds L C (raw (ext w')) k u \<Longrightarrow> kv_holds L C (raw (ext w)) k u" "db w' = db w" "tick (ext w) \<le> tick (ext w')"
proof -
  obtain x where x: "p_del P (URLKey C c) (ext w) = (None, x)" "up x"
    using del_up [OF assms(1), of "URLKey C c"] by (metis prod.collapse)
  then have e: "e = None" "w' = w\<lparr>ext := x\<rparr>"
    using assms(2) by (auto simp: cache_Delete_def run_simps split: prod.splits)
  with x show "up (ext w')" by simp
  from assms(2) e(1) show "\<not> kv_holds L C (raw (ext w')) c u" by (blast dest: cache.del_drops)
  show "kv_holds L C (raw (ext w')) k u \<Longrightarrow> kv_holds L C (raw (ext w)) k u" by (rule cache.del_frame [OF assms(2)])
  show "db w' = db w" "tick (ext w) \<le> tick (ext w')" using cache_Delete_run(1,3) [OF assms(2)] .
qed

lemma cache_Delete_serves:
  assumes "serves w" "run (cache_Delete P C c) w = (e, w')"
  shows "serves w' \<and> db w' = db w \<and> tick (ext w) \<le> tick (ext w')"
  using assms(1) cache_Delete_up [OF _ assms(2)] by (auto simp: serving_def coherent_def)

lemma cache_and_return_serves:
  assumes "serves w" "lookup_url (db w) c = Some u" "run (cache_and_return P L s c u) w = (r, w')"
  shows "serves w' \<and> r = Inr u \<and> db w' = db w \<and> tick (ext w) \<le> tick (ext w')"
proof -
  from assms(3) cached obtain e where "run (cache_Set P L C c u) w = (e, w')" "r = Inr u"
    by (auto simp: cache_and_return_def run_simps split: prod.splits)
  with cache_Set_serves [OF assms(1,2)] cache_Set_run(1,3) show ?thesis by blast
qed

definition resolved :: "'x world \<Rightarrow> string \<Rightarrow> goerr + url \<Rightarrow> 'x world \<Rightarrow> bool" where
  "resolved w c r w' \<longleftrightarrow> serves w' \<and> db w' = db w \<and> tick (ext w) \<le> tick (ext w') \<and>
     (\<exists>now. tick (ext w) \<le> now \<and> now \<le> tick (ext w') \<and> r = dir_lookup now (lookup_url (db w)) c)"

lemma resolvedI:
  "serves w' \<Longrightarrow> db w' = db w \<Longrightarrow> tick (ext w) \<le> now \<Longrightarrow> now \<le> tick (ext w') \<Longrightarrow>
     r = dir_lookup now (lookup_url (db w)) c \<Longrightarrow> resolved w c r w'"
  by (auto simp: resolved_def)

lemma resolved_mono: "resolved v c r w' \<Longrightarrow> db v = db w \<Longrightarrow> tick (ext w) \<le> tick (ext v) \<Longrightarrow> resolved w c r w'"
  by (auto simp: resolved_def intro: order_trans)

lemma resolve_store_serves:
  assumes w: "serves w" and r: "run (resolve_store P L s c) w = (r, w')"
  shows "resolved w c r w'"
proof -
  obtain q v where q: "run (repo_GetByCode P c) w = (q, v)" by (cases "run (repo_GetByCode P c) w")
  from repo_get_up [OF _ q] w have g: "quiet w v" "db v = db w"
    "q = (if \<not> pg_text c then Inl (WrapPre ''get url by code'' (PgError ''22021''))
          else case lookup_url (db w) c of None \<Rightarrow> Inl (Sentinel RepoErrNotFound) | Some u \<Rightarrow> Inr u)"
    by (auto simp: serving_def)
  have v: "serves v" "tick (ext w) \<le> tick (ext v)" using serving_quiet [OF w g(1,2)] g(1) by (simp_all add: quiet_def)
  show ?thesis
  proof (cases q)
    case (Inl err)
    with r q wires(1) have "r = (if errors_Is err RepoErrNotFound then Inl (Sentinel ErrNotFound) else Inl err)" "w' = v"
      by (auto simp: resolve_store_alt run_simps split: if_splits)
    with Inl g v show ?thesis
      by (intro resolvedI [where now = "tick (ext w)"])
        (auto simp: dir_lookup_def split: if_splits option.splits)
  next
    case (Inr u)
    with g(3) have u: "pg_text c" "lookup_url (db w) c = Some u" by (auto split: if_splits option.splits)
    show ?thesis
    proof (cases "ExpiresAt u")
      case None
      with r q Inr wires(1) have "run (cache_and_return P L s c u) v = (r, w')" by (simp add: resolve_store_alt run_simps)
      from cache_and_return_serves [OF v(1) _ this] u g v(2) None show ?thesis
        by (intro resolvedI [where now = "tick (ext w)"]) (auto simp: dir_lookup_def expired_at_def)
    next
      case (Some t)
      obtain now x where n: "p_now P (ext v) = (now, x)" by (cases "p_now P (ext v)")
      let ?y = "v\<lparr>ext := x\<rparr>"
      from now_quiet [OF n] v have y: "serves ?y" "now = tick (ext ?y)" "tick (ext v) \<le> tick (ext ?y)"
        by (auto simp: serving_def quiet_def)
      show ?thesis
      proof (cases "t > now")
        case True
        with r q Inr Some n wires(1) have "run (cache_and_return P L s c u) ?y = (r, w')"
          by (simp add: resolve_store_alt run_simps act_defs)
        from cache_and_return_serves [OF y(1) _ this] u g v(2) y(2,3) Some True show ?thesis
          by (intro resolvedI [where now = now]) (auto simp: dir_lookup_def expired_at_def)
      next
        case False
        with r q Inr Some n wires(1) have "r = Inl (Sentinel ErrExpired)" "w' = ?y"
          by (simp_all add: resolve_store_alt run_simps act_defs)
        with y u g v(2) Some False show ?thesis
          by (intro resolvedI [where now = now]) (auto simp: dir_lookup_def expired_at_def)
      qed
    qed
  qed
qed

lemma Resolve_serves:
  assumes w: "serves w" and r: "run (Resolve P L s c) w = (r, w')"
  shows "resolved w c r w'"
proof -
  note k = cached
  obtain g v where g: "run (cache_Get P L C c) w = (g, v)" by (cases "run (cache_Get P L C c) w")
  note gl = cache_Get_run(1,2,3) [OF g]
  have "up (ext v)" using w g get_up [of "ext w" "URLKey C c"]
    by (auto simp: serving_def cache_Get_def run_simps split: prod.splits sum.splits if_splits)
  with gl w have v: "serves v" by (simp add: serving_def)
  have later: ?thesis if "run (resolve_store P L s c) y = (r, w')" "serves y" "db y = db w" "tick (ext w) \<le> tick (ext y)" for y
    using resolved_mono [OF resolve_store_serves [OF that(2,1)] that(3,4)] .
  have hit: "lookup_url (db w) c = Some u" "pg_text c" if "g = Inr (Some u)" for u
  proof -
    from cache.get_hit [of c w u v] g that w show "lookup_url (db w) c = Some u" by (auto simp: serving_def coherent_def)
    with w show "pg_text c" by (auto simp: serving_def intro: dir_lookup_no_text)
  qed
  consider (err) x where "g = Inl x" | (miss) "g = Inr None"
    | (forever) u where "g = Inr (Some u)" "ExpiresAt u = None"
    | (timed) u t where "g = Inr (Some u)" "ExpiresAt u = Some t"
    by (cases g; cases "projr g"; cases "ExpiresAt (the (projr g))") auto
  then show ?thesis
  proof cases
    case err
    with r k g gl v show ?thesis
      by (intro later [of "inc_metric CacheFailOpen v"]) (simp_all add: Resolve_def run_simps serving_inc)
  next
    case miss
    with r k g gl v show ?thesis by (intro later [of v]) (simp_all add: Resolve_def run_simps)
  next
    case forever
    with r k g have "r = Inr u" "w' = v" by (simp_all add: Resolve_def run_simps)
    with hit [OF forever(1)] forever gl v show ?thesis
      by (intro resolvedI [where now = "tick (ext w)"]) (simp_all add: dir_lookup_def expired_at_def)
  next
    case timed
    obtain now x where n: "p_now P (ext v) = (now, x)" by (cases "p_now P (ext v)")
    let ?y = "v\<lparr>ext := x\<rparr>"
    from now_quiet [OF n] v have y: "serves ?y" "now = tick (ext ?y)" "tick (ext v) \<le> tick (ext ?y)"
      by (auto simp: serving_def quiet_def)
    show ?thesis
    proof (cases "t > now")
      case True
      with r k g timed n have "r = Inr u" "w' = ?y" by (simp_all add: Resolve_def run_simps act_defs)
      with hit [OF timed(1)] timed gl y True show ?thesis
        by (intro resolvedI [where now = now]) (simp_all add: dir_lookup_def expired_at_def)
    next
      case False
      obtain e z where e: "run (cache_Delete P C c) ?y = (e, z)" by (cases "run (cache_Delete P C c) ?y")
      with False r k g timed n have "run (resolve_store P L s c) z = (r, w')"
        by (simp add: Resolve_def run_simps act_defs)
      with cache_Delete_serves [OF y(1) e] y gl show ?thesis by (intro later [of z]) auto
    qed
  qed
qed

subsection \<open>Delete\<close>

lemma Delete_serves:
  assumes w: "serves w" and r: "run (service_Delete P s c) w = (r, w')"
  shows "serves w' \<and> tick (ext w) \<le> tick (ext w') \<and> r = dir_delete (lookup_url (db w)) c
    \<and> lookup_url (db w') = (lookup_url (db w))(c := None)"
proof -
  have inv: "up (ext w)" "db_inv (db w)" using w by (simp_all add: serving_def)
  obtain q v where q: "run (repo_DeleteByCode P c) w = (q, v)" by (cases "run (repo_DeleteByCode P c) w")
  note d = repo_delete_run [OF q inv(2)] DeleteByCode_kv [OF q] DeleteByCode_up [OF inv(1) q]
  have eta: "db_coded x = lookup_url x" for x by (simp add: db_coded_def fun_eq_iff)
  have out: "q = (if \<not> pg_text c then Inl (WrapPre ''delete url'' (PgError ''22021''))
      else if lookup_url (db w) c = None then Inl (Sentinel RepoErrNotFound) else Inr ())
    \<and> lookup_url (db v) = (lookup_url (db w))(c := None)"
  proof -
    have none: "\<not> pg_text c \<Longrightarrow> lookup_url (db w) c = None"
      using dir_lookup_no_text [OF inv(2)] by (cases "lookup_url (db w) c") auto
    from inv(1) show ?thesis
    proof (rule sql_step_up [where st = "delete_url c"])
      fix x
      assume "sql_step P (delete_url c) w =
          (fst (delete_url c (p_sql_now P x) (db w)), w\<lparr>db := snd (delete_url c (p_sql_now P x) (db w)), ext := x\<rparr>)"
      with q d(1) none show ?thesis unfolding eta
        by (cases "pg_text c"; cases "lookup_url (db w) c")
          (auto simp: repo_DeleteByCode_def run_simps delete_url_def Let_def fun_upd_idem lookup_None codes_set filter_empty_conv
            split: if_splits)
    qed
  qed
  have vi: "db_inv (db v)" using d(1) by simp
  show ?thesis
  proof (cases q)
    case (Inl err)
    with r q wires(1) have "r = Some (if errors_Is err RepoErrNotFound then Sentinel ErrNotFound else err)" "w' = v"
      by (auto simp: service_Delete_def run_simps split: if_splits)
    moreover have "lookup_url (db w) c = None"
      using Inl out dir_lookup_no_text [OF inv(2)] by (cases "lookup_url (db w) c") (auto split: if_splits)
    ultimately show ?thesis using Inl out d vi w
      by (auto simp: dir_delete_def serving_def fun_upd_idem split: if_splits)
  next
    case (Inr a)
    then have "pg_text c" "lookup_url (db w) c \<noteq> None" using out by (auto split: if_splits)
    then have dd: "dir_delete (lookup_url (db w)) c = None" by (simp add: dir_delete_def)
    obtain e where e: "run (cache_Delete P C c) v = (e, w')" "r = None"
      using r q Inr wires(1) cached by (auto simp: service_Delete_def run_simps split: prod.splits)
    have v: "up (ext v)" "coherent L C (raw (ext v)) (lookup_url (db w))" using d w by (simp_all add: serving_def)
    note e1 = cache_Delete_up [OF v(1) e(1)]
    have "coherent L C (raw (ext w')) (lookup_url (db w'))"
      using v(2) e1 out by (auto simp: coherent_def)
    with e e1 dd out d vi show ?thesis by (auto simp: serving_def)
  qed
qed

subsection \<open>Create\<close>

text \<open>A create never touches the keys of the cache.\<close>

definition keys_kept :: "(string \<Rightarrow> (string \<times> time option) option) \<Rightarrow> 'x \<Rightarrow> bool" where
  "keys_kept R x \<longleftrightarrow> up x \<and> (\<forall>c. raw x (URLKey C c) = R c)"

abbreviation cache_safe :: "(string \<Rightarrow> (string \<times> time option) option) \<Rightarrow> ('x world, 'a) prog \<Rightarrow> bool" where
  "cache_safe R \<equiv> safe (\<lambda>w. keys_kept R (ext w)) (\<lambda>_. True)"

lemma cache_safe_ext:
  assumes "\<And>x r x'. up x \<Longrightarrow> g x = (r, x') \<Longrightarrow> up x' \<and> (\<forall>c. raw x' (URLKey C c) = raw x (URLKey C c))"
  shows "cache_safe R (ext_act g)"
  by (rule safe_ext_act) (use assms in \<open>auto simp: keys_kept_def\<close>)

lemma cache_safe_run:
  assumes "\<And>R. cache_safe R m" "run m w = (a, w')" "up (ext w)"
  shows "up (ext w')" "raw (ext w') (URLKey C c) = raw (ext w) (URLKey C c)"
  using safe_run [OF assms(1) _ assms(2), of "\<lambda>c. raw (ext w) (URLKey C c)"] assms(3)
  by (simp_all add: keys_kept_def)

lemma cache_safe_other:
  "cache_safe R (time_Now P)" "cache_safe R (time_Sleep P d)" "cache_safe R (ctx_Err P)" "cache_safe R (Inc m)"
proof -
  show "cache_safe R (time_Now P)" unfolding act_defs
    by (rule cache_safe_ext) (auto dest: now_law up_now)
  show "cache_safe R (time_Sleep P d)" unfolding act_defs
    by (rule cache_safe_ext) (auto simp: sleep_law sleep_up)
  show "cache_safe R (ctx_Err P)" unfolding act_defs
  proof (rule cache_safe_ext)
    fix x r x'
    assume "up x" "map_prod (map_option Plain) id (p_ctx_err P x) = (r, x')"
    then obtain c where "p_ctx_err P x = (c, x')" "up x" by (cases "p_ctx_err P x") auto
    with ctx_law [OF this(1)] ctx_up [of x] show "up x' \<and> (\<forall>c. raw x' (URLKey C c) = raw x (URLKey C c))" by auto
  qed
  show "cache_safe R (Inc m)" by (rule safe_Inc) simp_all
qed

lemma cache_safe_idem:
  "cache_safe R (idem_Get P I k)" "cache_safe R (idem_Set P I k v)" "cache_safe R (idem_Claim P I k)"
  "cache_safe R (idem_Release P I k)"
proof -
  note apart = keys_apart [OF wires(4)]
  have "cache_safe R (ext_act (p_get P (respKey I k)))"
    by (rule cache_safe_ext) (use get_law get_up in \<open>metis snd_conv\<close>)
  then show "cache_safe R (idem_Get P I k)"
    unfolding idem_Get_def by (rule safe_any_bindp) (simp split: sum.split)
  show "cache_safe R (idem_Set P I k v)" unfolding idem_Set_def
  proof (rule cache_safe_ext)
    fix x e x'
    assume "up x" and g: "p_set P (respKey I k) v (RespTTL I) x = (e, x')"
    with set_law [OF g] set_up [of x "respKey I k" v "RespTTL I"] apart
    show "up x' \<and> (\<forall>c. raw x' (URLKey C c) = raw x (URLKey C c))" by (auto simp: set_with_def)
  qed
  show "cache_safe R (idem_Claim P I k)" unfolding idem_Claim_def
  proof (rule cache_safe_ext)
    fix x r x'
    assume "up x" and g: "p_setnx P (lockKey I k) ''1'' (LockTTL I) x = (r, x')"
    with setnx_law [OF g] setnx_up [of x "lockKey I k" "''1''" "LockTTL I"] apart
    show "up x' \<and> (\<forall>c. raw x' (URLKey C c) = raw x (URLKey C c))"
      by (auto simp: set_with_def split: sum.splits if_splits)
  qed
  show "cache_safe R (idem_Release P I k)" unfolding idem_Release_def
  proof (rule cache_safe_ext)
    fix x e x'
    assume "up x" and g: "p_del P (lockKey I k) x = (e, x')"
    with del_law [OF g] del_up [of x "lockKey I k"] apart
    show "up x' \<and> (\<forall>c. raw x' (URLKey C c) = raw x (URLKey C c))" by auto
  qed
qed

lemma cache_safe_Create: "cache_safe R (service_Create P L s inp)"
proof -
  have sql: "sql_kept P (keys_kept R)"
    unfolding sql_kept_def keys_kept_def using sql_law sql_up by (metis prod.collapse)
  note one = safe_createOne_kept [OF sql wires(1)] and rep = safe_replay_kept [OF sql wires(1)]
  have wait: "cache_safe R (wait_for_winner P L s I k n)" for k n
    by (induction n)
      (auto intro!: safe_any_bindp cache_safe_other cache_safe_idem rep split: option.split sum.split)
  have idem: "cache_safe R (createIdempotent P L s inp l e)" for inp l e
    using wires(3) unfolding createIdempotent_def Let_def
    by (auto intro!: safe_any one rep cache_safe_other cache_safe_idem wait split: option.split sum.split bool.split)
  show ?thesis unfolding service_Create_def parseExpiry_def Let_def
    by (auto intro!: safe_any one idem cache_safe_other split: sum.split)
qed

text \<open>A create that reports an error has changed no code.\<close>

definition harmless :: "'x world \<Rightarrow> goerr + create_result \<Rightarrow> 'x world \<Rightarrow> bool" where
  "harmless w r w' \<longleftrightarrow> (\<forall>err. r = Inl err \<longrightarrow> lookup_url (db w') = lookup_url (db w))"

lemma harmless_cong: "harmless v r w' \<Longrightarrow> db v = db w \<Longrightarrow> harmless w r w'"
  by (simp add: harmless_def)

lemma harmless_same: "db w' = db w \<Longrightarrow> harmless w r w'"
  by (simp add: harmless_def)

lemma createOne_harmless:
  assumes "up (ext w)" "db_inv (db w)" "run (createOne L s inp l e) w = (r, w')"
  shows "harmless w r w'"
proof -
  obtain k where k: "EncodeBase62 (word_of_int (next_id (db w))) = Some k" using EncodeBase62_Some by blast
  show ?thesis unfolding harmless_def
    using createOne_custom_up [OF assms(1,2) wires(1) refl _ assms(3)]
      createOne_auto_up [OF assms(1,2) wires(1) _ k assms(3)]
    by (cases "in_CustomCode inp = ''''") blast+
qed

lemma replays_harmless:
  "run (replay L s c) w = (r, w') \<Longrightarrow> db w' = db w"
  "run (wait_for_winner P L s I k n) w = (r, w') \<Longrightarrow> db w' = db w"
proof -
  show rep: "run (replay L s c) w = (r, w') \<Longrightarrow> db w' = db w" for c w r w'
    by (rule replay_run(1) [OF wires(1)])
  show "run (wait_for_winner P L s I k n) w = (r, w') \<Longrightarrow> db w' = db w"
    by (induction n arbitrary: w)
      (auto simp: run_simps act_defs split: prod.splits option.splits sum.splits dest!: rep idem_Get_run(3))
qed

lemma claimed_harmless:
  assumes "up (ext w)" "db_inv (db w)"
    and "run (tryp (createOne L s inp l e) (\<lambda>res. bindp (idem_Set P I key (Code (res_URL res))) (\<lambda>_.
        bindp (idem_Release P I key) (\<lambda>_. Ret (Inr res))))) w = (r, w')"
  shows "harmless w r w'"
proof -
  obtain q v where q: "run (createOne L s inp l e) w = (q, v)" by (cases "run (createOne L s inp l e) w")
  from createOne_harmless [OF assms(1,2) q] q assms(3) show ?thesis
    by (cases q) (auto simp: run_simps harmless_def split: prod.splits)
qed

lemma createIdempotent_harmless:
  assumes w: "up (ext w)" "db_inv (db w)" and r: "run (createIdempotent P L s inp l e) w = (r, w')"
  shows "harmless w r w'"
proof -
  let ?key = "in_IdempotencyKey inp"
  consider (long) "length ?key > maxIdemKeyLength" | (off) "\<not> length ?key > maxIdemKeyLength" "idem s = None"
    | (on) "\<not> length ?key > maxIdemKeyLength" "idem s = Some I"
    using wires(3) by (cases "length ?key > maxIdemKeyLength") auto
  then show ?thesis
  proof cases
    case long
    with r show ?thesis by (auto simp: createIdempotent_def Let_def intro: harmless_same)
  next
    case off
    with r show ?thesis by (intro createOne_harmless [OF w]) (simp add: createIdempotent_def Let_def)
  next
    case on
    note ran = r [unfolded createIdempotent_def Let_def on(2) option.case if_not_P [OF on(1)]]
    obtain g v where g: "run (idem_Get P I ?key) w = (g, v)" by (cases "run (idem_Get P I ?key) w")
    have v: "db v = db w" "up (ext v)"
      using idem_Get_run(3) [OF g] cache_safe_run(1) [OF cache_safe_idem(1) g w(1)] .
    consider (err) x where "g = Inl x" | (hit) code where "g = Inr (Some code)" | (miss) "g = Inr None"
      by (cases g; cases "projr g") auto
    then show ?thesis
    proof cases
      case err
      with ran g have "run (createOne L s inp l e) (inc_metric IdempotencySkipped v) = (r, w')" by (simp add: run_simps)
      from createOne_harmless [OF _ _ this] v w show ?thesis by (auto intro: harmless_cong)
    next
      case hit
      with ran g have "run (replay L s code) (inc_metric IdempotencyReplays v) = (r, w')" by (simp add: run_simps)
      from replays_harmless(1) [OF this] v show ?thesis by (auto intro: harmless_same)
    next
      case miss
      obtain c u where c: "run (idem_Claim P I ?key) v = (c, u)" by (cases "run (idem_Claim P I ?key) v")
      have u: "db u = db w" "up (ext u)"
        using idem_Claim_run(2) [OF c] v(1) cache_safe_run(1) [OF cache_safe_idem(3) c v(2)] by simp_all
      consider (failed) x where "c = Inl x" | (won) "c = Inr True" | (lost) "c = Inr False"
        by (cases c; cases "projr c") auto
      then have "harmless u r w'"
      proof cases
        case failed
        with ran g miss c have "run (createOne L s inp l e) (inc_metric IdempotencySkipped u) = (r, w')" by (simp add: run_simps)
        from createOne_harmless [OF _ _ this] u w show ?thesis by (auto intro: harmless_cong)
      next
        case won
        with ran g miss c u w show ?thesis by (intro claimed_harmless) (simp_all add: run_simps)
      next
        case lost
        with ran g miss c have "run (wait_for_winner P L s I ?key idemWaitPolls) u = (r, w')" by (simp add: run_simps)
        from replays_harmless(2) [OF this] show ?thesis by (rule harmless_same)
      qed
      from harmless_cong [OF this u(1)] show ?thesis .
    qed
  qed
qed

lemma Create_harmless:
  assumes w: "up (ext w)" "db_inv (db w)" and r: "run (service_Create P L s inp) w = (r, w')"
  shows "harmless w r w'"
proof (cases "validateLongURL L (blockDomain s) (in_URL inp)")
  case (Inl err)
  with r show ?thesis by (auto simp: service_Create_def intro: harmless_same)
next
  case (Inr l)
  let ?inp = "inp\<lparr>in_IdempotencyKey := TrimSpace (in_IdempotencyKey inp)\<rparr>"
  have body: "harmless w r w'" if b: "run (create_body P L s ?inp l e) v = (r, w')" and v: "db v = db w" "up (ext v)" for v e
  proof (cases "in_IdempotencyKey ?inp = ''''")
    case False
    with b have "run (createIdempotent P L s ?inp l e) v = (r, w')" by (simp add: create_body_def)
    from createIdempotent_harmless [OF v(2) _ this] v w show ?thesis by (auto intro: harmless_cong)
  next
    case True
    obtain q y where q: "run (createOne L s ?inp l e) v = (q, y)" by (cases "run (createOne L s ?inp l e) v")
    from createOne_harmless [OF v(2) _ q] True q b v w show ?thesis
      by (cases q) (auto simp: create_body_def run_simps harmless_def)
  qed
  show ?thesis
  proof (cases "in_ExpiresIn inp = ''''")
    case True
    with r Inr have "run (create_body P L s ?inp l None) w = (r, w')"
      by (simp add: service_Create_def create_body_def Let_def tryp_def)
    from body [OF this] w show ?thesis by simp
  next
    case False
    obtain t x where t: "p_now P (ext w) = (t, x)" by (cases "p_now P (ext w)")
    show ?thesis
    proof (cases "expiry_of (in_ExpiresIn inp)")
      case e: (Inl err)
      with False r Inr show ?thesis by (auto simp: service_Create_def parseExpiry_def run_simps intro: harmless_same)
    next
      case d: (Inr d)
      with False r Inr t have "run (create_body P L s ?inp l (Some (t + d))) (w\<lparr>ext := x\<rparr>) = (r, w')"
        by (simp add: service_Create_def parseExpiry_def create_body_def Let_def run_simps act_defs)
      from body [OF this] w up_now [OF t] show ?thesis by simp
    qed
  qed
qed

lemma explained_eta: "db_coded d = lookup_url d"
  by (simp add: db_coded_def fun_eq_iff)

lemma Create_serves:
  assumes w: "serves w" and r: "run (service_Create P L s inp) w = (r, w')"
  shows "serves w' \<and> tick (ext w) \<le> tick (ext w') \<and> dir_create L s inp (lookup_url (db w)) r (lookup_url (db w'))"
proof -
  have inv: "up (ext w)" "db_inv (db w)" and coh: "coherent L C (raw (ext w)) (lookup_url (db w))"
    using w by (simp_all add: serving_def)
  note kept = cache_safe_run [OF cache_safe_Create r inv(1)] and harm = Create_harmless [OF inv r, unfolded harmless_def]
  from service_Create_done [OF wires(1) inv(2) r]
  have step: "db_inv (db w') \<and> tick (ext w) \<le> tick (ext w') \<and> dir_create L s inp (lookup_url (db w)) r (lookup_url (db w'))"
  proof
    assume "\<exists>l e. validateLongURL L (blockDomain s) (in_URL inp) = Inr l
            \<and> expiry_granted (tick (ext w)) (tick (ext w')) (in_ExpiresIn inp) e
            \<and> create_done tick L s inp l e w r w'"
    then obtain l e where "validateLongURL L (blockDomain s) (in_URL inp) = Inr l" "create_done tick L s inp l e w r w'" by blast
    with harm show ?thesis
      by (auto simp: create_done_def create_post_def dir_create_def explained_eta fresh_result_def split: sum.splits if_splits)
  next
    assume "\<exists>x. r = Inl (Sentinel x) \<and> create_reason L s inp (db_coded (db w)) x \<and> w' = w"
    with inv show ?thesis by (auto simp: dir_create_def explained_eta)
  qed
  then have "lookup_url (db w') c = Some u" if "lookup_url (db w) c = Some u" for c u
    using that by (auto simp: dir_create_def stored_new_def split: sum.splits if_splits)
  with step kept coherent_cong [OF coh] show ?thesis by (auto simp: serving_def)
qed

subsection \<open>Statistics, and any sequence of calls\<close>

lemma Stats_serves:
  assumes w: "serves w" and r: "run (GetStats P L s c) w = (r, w')"
  shows "serves w' \<and> tick (ext w) \<le> tick (ext w') \<and> db w' = db w
    \<and> (\<exists>now. tick (ext w) \<le> now \<and> now \<le> tick (ext w')
        \<and> (\<forall>err. dir_lookup now (lookup_url (db w)) c = Inl err \<longrightarrow> r = Inl err))"
proof -
  obtain q v where q: "run (Resolve P L s c) w = (q, v)" by (cases "run (Resolve P L s c) w")
  from Resolve_serves [OF w q] obtain now where v: "serves v" "db v = db w" "tick (ext w) \<le> now" "now \<le> tick (ext v)"
    "tick (ext w) \<le> tick (ext v)" "q = dir_lookup now (lookup_url (db w)) c" by (auto simp: resolved_def)
  show ?thesis
  proof (cases q)
    case (Inl err)
    with q r have "r = Inl err" "w' = v" by (auto simp: GetStats_def run_simps)
    with v Inl show ?thesis by (metis sum.inject(1))
  next
    case (Inr u)
    with q r wires(1) have st: "run (repo_StatsByURLID P (ID u)) v = (r, w')" by (simp add: GetStats_def run_simps)
    note k = kv_frame [OF repo_kv(6) st] up_kept [OF safe_repo_kept(6) [OF sql_kept_up] _ st]
    have "db w' = db v" using repo_stats_run [OF st] by simp
    with k v(1-5) have "serves w'" "tick (ext w) \<le> tick (ext w')" "db w' = db w" "now \<le> tick (ext w')"
      by (auto simp: serving_def)
    moreover have "\<forall>err. dir_lookup now (lookup_url (db w)) c = Inl err \<longrightarrow> r = Inl err" using v(6) Inr by (metis sum.distinct(1))
    ultimately show ?thesis using v(3) by blast
  qed
qed

lemma api_serves:
  assumes w: "serves w" and r: "run (api_prog P L s call) w = (a, w')"
  shows "serves w' \<and> dir_step L s (directory_of tick w) call a (directory_of tick w')"
  using r Create_serves [OF w] Resolve_serves [OF w] Delete_serves [OF w] Stats_serves [OF w]
  by (cases call) (auto simp: api_prog_def run_simps dir_step_def resolved_def split: prod.splits)

lemma api_run_serves:
  "serves w \<Longrightarrow> run (api_run P L s calls) w = (as, w') \<Longrightarrow>
     serves w' \<and> dir_run L s (directory_of tick w) calls as (directory_of tick w')"
proof (induction calls arbitrary: w as)
  case (Cons c cs)
  obtain a v where a: "run (api_prog P L s c) w = (a, v)" by (cases "run (api_prog P L s c) w")
  obtain bs where bs: "run (api_run P L s cs) v = (bs, w')" "as = a # bs"
    using Cons.prems(2) a by (auto simp: run_simps split: prod.splits)
  from api_serves [OF Cons.prems(1) a] Cons.IH [OF _ bs(1)] bs(2) show ?case by auto
qed (simp add: run_simps)

end


subsection \<open>The refinement\<close>

text \<open>C2: When nothing fails and calls run one after the other, the service over PostgreSQL and Redis refines the link directory: every sequence of Create, Resolve, Delete and Stats calls is answered as some run of the directory answers it, where Resolve reads the map, Delete removes the code, and Create adds one link under a free code, repeats an earlier answer for a link that is still there, or fails and changes nothing. The caching cannot be observed, and between calls every cached entry agrees with the table.\<close>

theorem directory_refinement:
  assumes "kv_server_up P raw tick up" "lib_ok L" "wired P C I s" "cache s = Some C"
    and "serving raw up L C w" "run (api_run P L s calls) w = (answers, w')"
  shows "serving raw up L C w'
    \<and> dir_run L s (tick (ext w), lookup_url (db w)) calls answers (tick (ext w'), lookup_url (db w'))"
proof -
  have "redis_cache P raw tick L"
    using kv_server_up.axioms(1) [OF assms(1)] assms(2) by (simp add: redis_cache_def redis_cache_axioms_def)
  then have "up_service P raw tick up L C I s"
    using assms(1,3,4) by (simp add: up_service_def up_service_axioms_def wired_service_def wired_service_axioms_def)
  from up_service.api_run_serves [OF this assms(5,6)] show ?thesis .
qed

interpretation demo_up: up_service sim_platform s_kv s_clock sim_up demo_lib "NewURLCache ''v1:''" "NewStore ''v1:''" demo_service
  by unfold_locales simp

theorem directory_refinement_witness:
  "\<exists>answers w'. run (api_run sim_platform demo_lib demo_service [CallResolve ''ab0'', CallDelete ''ab0'', CallResolve ''ab0''])
       (world0 (demo_db [''ab0''] None) (sim0 5)) = (answers, w')
     \<and> (\<exists>u. answers = [Resolved (Inr u), Deleted None, Resolved (Inl (Sentinel ErrNotFound))])
     \<and> lookup_url (db w') ''ab0'' = None"
proof -
  let ?w = "world0 (demo_db [''ab0''] None) (sim0 5)"
  let ?calls = "[CallResolve ''ab0'', CallDelete ''ab0'', CallResolve ''ab0'']"
  obtain as w' where r: "run (api_run sim_platform demo_lib demo_service ?calls) ?w = (as, w')"
    by (cases "run (api_run sim_platform demo_lib demo_service ?calls) ?w")
  have d: "db_inv (demo_db [''ab0''] None)" "lookup_url (demo_db [''ab0''] None) ''ab0'' = Some (row_url ''ab0'' (urls (demo_db [''ab0''] None) ! 0))"
    "pg_text ''ab0''" "ExpiresAt (row_url ''ab0'' (urls (demo_db [''ab0''] None) ! 0)) = None"
    by code_simp+
  then have "serving s_kv sim_up demo_lib (NewURLCache ''v1:'') ?w"
    by (simp add: serving_def world0_def sim_up_def sim0_def coherent_def kv_holds_def)
  from directory_refinement [OF sim.kv_server_up_axioms demo_lib_ok demo.wiring demo_service_sel(2) this r]
  have "dir_run demo_lib demo_service (5, lookup_url (db ?w)) ?calls as (s_clock (ext w'), lookup_url (db w'))"
    by (simp add: world0_def sim0_def)
  then have "as = [Resolved (Inr (row_url ''ab0'' (urls (demo_db [''ab0''] None) ! 0))), Deleted None, Resolved (Inl (Sentinel ErrNotFound))]
      \<and> lookup_url (db w') ''ab0'' = None"
    using d(2-4) by (auto simp: dir_step_iffs dir_lookup_def dir_delete_def expired_at_def world0_def)
  with r show ?thesis by blast
qed

end
