(* ===== verification/Schema_Props.thy ===== *)
theory Schema_Props
imports Schema
begin

section \<open>The tables under any sequence of statements\<close>

text \<open>
  The statements of the Go code that write, as a step relation on the database: whichever
  requests and workers send them, and in whatever order, the database makes such steps.
\<close>

inductive sql_exec :: "database \<Rightarrow> database \<Rightarrow> bool" where
  inserts: "insert_url code l e now d = (r, d') \<Longrightarrow> sql_exec d d'"
| updates: "update_url_code c i now d = (r, d') \<Longrightarrow> sql_exec d d'"
| deletes: "delete_url c now d = (r, d') \<Longrightarrow> sql_exec d d'"
| counts: "upsert_daily i day dim v now d = (r, d') \<Longrightarrow> sql_exec d d'"
| claims: "insert_idem k sc ttl now d = (r, d') \<Longrightarrow> sql_exec d d'"

inductive_cases sql_execE: "sql_exec d d'"

lemma sql_exec_inv: "sql_exec d d' \<Longrightarrow> db_inv d \<Longrightarrow> db_inv d'"
  by (elim sql_execE) (blast dest: stmt_inv)+

text \<open>The sequence of ids only grows, and a row that was not there takes its id from it.\<close>

definition ids_grow :: "database \<Rightarrow> database \<Rightarrow> bool" where
  "ids_grow d d' \<longleftrightarrow> next_id d \<le> next_id d' \<and> (\<forall>i \<in> set (ids d'). i \<in> set (ids d) \<or> next_id d \<le> i)"

lemma ids_grow_refl: "ids_grow d d"
  by (simp add: ids_grow_def)

lemma ids_grow_trans: "ids_grow a b \<Longrightarrow> ids_grow b c \<Longrightarrow> ids_grow a c"
  unfolding ids_grow_def by force

lemma ids_grow_subset: "next_id d' = next_id d \<Longrightarrow> set (ids d') \<subseteq> set (ids d) \<Longrightarrow> ids_grow d d'"
  unfolding ids_grow_def by auto

lemma sql_exec_ids: "sql_exec d d' \<Longrightarrow> ids_grow d d'"
proof (induction rule: sql_exec.induct)
  case (inserts code l e now d r d')
  show ?case
  proof (cases r)
    case (Inl err)
    with insert_url_Inl [of code l e now d err d'] inserts show ?thesis by (auto simp: ids_grow_def ids_def)
  next
    case (Inr i)
    with insert_url_Inr(5) [of code l e now d i d'] inserts show ?thesis by (auto simp: ids_grow_def ids_def)
  qed
next
  case (updates c i now d r d')
  then show ?case by (intro ids_grow_subset) (auto simp: update_url_code_def ids_def split: if_splits)
next
  case (deletes c now d r d')
  then show ?case by (intro ids_grow_subset) (auto simp: delete_url_def Let_def ids_def split: if_splits)
next
  case (counts i day dim v now d r d')
  then show ?case by (intro ids_grow_subset) (auto simp: upsert_daily_def Let_def ids_def split: if_splits)
next
  case (claims k sc ttl now d r d')
  then show ?case by (intro ids_grow_subset) (auto simp: insert_idem_def Let_def ids_def split: if_splits)
qed



end
