(* ===== verification/Civil.thy ===== *)
theory Civil
imports Go_Lib
begin

section \<open>Calendar dates and times as text\<close>

text \<open>
  What the Go code uses of \<open>time.Time.Format\<close>, in UTC: the layouts \<open>2006-01-02\<close> and
  \<open>RFC3339\<close>. An instant is a number of nanoseconds since 1970, a day a number of days
  since then. \<open>civil\<close> is the proleptic Gregorian calendar by the usual arithmetic on
  400-year eras that begin on the first of March.
\<close>

definition unix_sec :: "time \<Rightarrow> int" where
  "unix_sec t = t div nano_s"

definition day_of_sec :: "int \<Rightarrow> int" where
  "day_of_sec s = s div 86400"

definition civil :: "int \<Rightarrow> int \<times> int \<times> int" where
  "civil d =
     (let z = d + 719468;
          era = z div 146097;
          doe = z mod 146097;
          yoe = (doe - doe div 1460 + doe div 36524 - doe div 146096) div 365;
          doy = doe - (365 * yoe + yoe div 4 - yoe div 100);
          mp = (5 * doy + 2) div 153;
          m = (if mp < 10 then mp + 3 else mp - 9)
      in (yoe + era * 400 + (if m \<le> 2 then 1 else 0), m, doy - (153 * mp + 2) div 5 + 1))"

definition days_from_civil :: "int \<Rightarrow> int \<Rightarrow> int \<Rightarrow> int" where
  "days_from_civil y0 m d =
     (let y = (if m \<le> 2 then y0 - 1 else y0);
          yoe = y mod 400;
          doy = (153 * (if m > 2 then m - 3 else m + 9) + 2) div 5 + d - 1
      in y div 400 * 146097 + (yoe * 365 + yoe div 4 - yoe div 100 + doy) - 719468)"

text \<open>\<open>pad n k\<close>: the decimal digits of \<open>k\<close>, with zeros in front up to width \<open>n\<close>.\<close>

definition pad :: "nat \<Rightarrow> int \<Rightarrow> string" where
  "pad n k = (let s = nat_text (nat \<bar>k\<bar>) in (if k < 0 then ''-'' else '''') @ replicate (n - length s) (CHR ''0'') @ s)"

definition format_day :: "int \<Rightarrow> string" where
  "format_day d = (case civil d of (y, m, dd) \<Rightarrow> pad 4 y @ ''-'' @ pad 2 m @ ''-'' @ pad 2 dd)"

definition format_RFC3339 :: "time \<Rightarrow> string" where
  "format_RFC3339 t =
     (let s = unix_sec t; r = s mod 86400
      in format_day (day_of_sec s) @ ''T'' @ pad 2 (r div 3600) @ '':''
         @ pad 2 (r div 60 mod 60) @ '':'' @ pad 2 (r mod 60) @ ''Z'')"

lemma civil_examples:
  "civil 0 = (1970, 1, 1)" "civil 19782 = (2024, 2, 29)" "civil 19783 = (2024, 3, 1)" "civil (-1) = (1969, 12, 31)"
  "days_from_civil 2024 2 29 = 19782" "days_from_civil 1 1 1 = -719162" "days_from_civil 5874897 12 31 = 2145042905"
  by code_simp+

lemma day_of_sec_mono: "s \<le> t \<Longrightarrow> day_of_sec s \<le> day_of_sec t"
  by (simp add: day_of_sec_def zdiv_mono1)

end
