(* ===== verification/Http.thy ===== *)
theory Http
imports Civil Platform
begin

section \<open>Requests and responses\<close>

text \<open>
  The part of \<open>net/http\<close> the handlers use, and \<open>internal/handler/respond.go\<close>. A request
  carries the values the code reads: method, path, remote address, header values, body, the path
  parameter of the route and the request id in its context. A handler gets the response
  headers the middleware has set so far and either writes a response or panics.
  JSON bodies are kept as values; turning them into bytes is left to \<open>encoding/json\<close>.
\<close>

record request =
  q_Method :: string
  q_Path :: string
  q_RemoteAddr :: string
  q_Header :: "string \<Rightarrow> string"
  q_Body :: string
  q_URLParam :: string
  q_RequestID :: string

datatype json =
    JNull | JStr string | JInt int
  | JObj "(string \<times> json) list" | JArr "json list"

datatype body = NoBody | JsonBody json | TextBody string

type_synonym headers = "string \<Rightarrow> string option"

record response =
  res_Status :: int
  res_Header :: headers
  res_Body :: body

text \<open>How a handler ends: a response, or a panic, with the headers that were set by then.\<close>

datatype outcome = Written (written: response) | Raised headers

type_synonym 'w handler = "request \<Rightarrow> headers \<Rightarrow> ('w, outcome) prog"

definition respond :: "int \<Rightarrow> headers \<Rightarrow> body \<Rightarrow> ('w, outcome) prog" where
  "respond status hs b = Ret (Written \<lparr>res_Status = status, res_Header = hs, res_Body = b\<rparr>)"

definition writeJSON :: "headers \<Rightarrow> int \<Rightarrow> json \<Rightarrow> ('w, outcome) prog" where
  "writeJSON hs status b =
     respond status (hs(''Content-Type'' \<mapsto> ''application/json; charset=utf-8'')) (JsonBody b)"

definition error_envelope :: "string \<Rightarrow> string \<Rightarrow> string \<Rightarrow> json" where
  "error_envelope code message requestID =
     JObj [(''error'', JObj [(''code'', JStr code), (''message'', JStr message),
       (''request_id'', JStr requestID), (''details'', JObj [])])]"

definition writeError :: "headers \<Rightarrow> int \<Rightarrow> string \<Rightarrow> string \<Rightarrow> string \<Rightarrow> ('w, outcome) prog" where
  "writeError hs status code message requestID = writeJSON hs status (error_envelope code message requestID)"

subsection \<open>http.Redirect\<close>

definition hex_digit :: "nat \<Rightarrow> char" where
  "hex_digit n = (''0123456789abcdef'' ! n)"

definition hexEscapeNonASCII :: "string \<Rightarrow> string" where
  "hexEscapeNonASCII s = concat (map (\<lambda>c. if byte c < 128 then [c]
     else [CHR ''%'', hex_digit (byte c div 16), hex_digit (byte c mod 16)]) s)"

definition htmlEscape :: "string \<Rightarrow> string" where
  "htmlEscape s = concat (map (\<lambda>c.
     if c = CHR ''&'' then ''&amp;'' else if c = CHR ''<'' then ''&lt;'' else if c = CHR ''>'' then ''&gt;''
     else if c = CHR 0x22 then ''&#34;'' else if c = CHR 0x27 then ''&#39;'' else [c]) s)"

text \<open>
  For a URL with a scheme; the branch of \<open>http.Redirect\<close> that completes a relative URL is
  left out, since every stored URL is absolute.
\<close>

definition http_Redirect :: "headers \<Rightarrow> request \<Rightarrow> string \<Rightarrow> ('w, outcome) prog" where
  "http_Redirect hs q target =
     (let hadCT = (hs ''Content-Type'' \<noteq> None);
          hs1 = hs(''Location'' \<mapsto> hexEscapeNonASCII target);
          hs2 = (if \<not> hadCT \<and> (q_Method q = ''GET'' \<or> q_Method q = ''HEAD'')
                 then hs1(''Content-Type'' \<mapsto> ''text/html; charset=utf-8'') else hs1)
      in respond 301 hs2
           (if \<not> hadCT \<and> q_Method q = ''GET''
            then TextBody (''<a href='' @ [CHR 0x22] @ htmlEscape target @ [CHR 0x22] @ ''>Moved Permanently</a>.'' @ [CHR 0x0A, CHR 0x0A])
            else NoBody))"

subsection \<open>Health\<close>

text \<open>\<open>internal/handler/health.go\<close>.\<close>

definition Health :: "'w handler" where
  "Health q hs = writeJSON hs 200 (JObj [(''status'', JStr ''ok'')])"

definition Ready :: "'x platform \<Rightarrow> 'x world handler" where
  "Ready P q hs =
     bindp (ext_act (p_ping_db P)) (\<lambda>e.
       case e of
         None \<Rightarrow> writeJSON hs 200 (JObj [(''status'', JStr ''ready''), (''database'', JStr ''ok'')])
       | Some err \<Rightarrow>
           writeJSON hs 503 (JObj [(''status'', JStr ''unavailable''), (''database'', JStr ''down'')]))"

lemma hexEscape_ascii: "is_ascii s \<Longrightarrow> hexEscapeNonASCII s = s"
  by (induction s) (auto simp: hexEscapeNonASCII_def is_ascii_def)

end
