(* ===== verification/Recorder.thy ===== *)
theory Recorder
imports Platform_Sim
begin

section \<open>The analytics recorder\<close>

text \<open>
  \<open>internal/analytics/recorder.go\<close>: a buffered channel of at most 4096 events
  (\<open>buffer\<close> of the world), a push that never blocks, and the goroutine that takes events
  out one at a time and appends them to the Redis stream. Sending on the channel and
  receiving from it are one action each.
\<close>

definition bufferSize :: nat where "bufferSize = 4096"

record recorder =
  rec_stream :: string

text \<open>
  \<open>NewRecorder\<close> makes the channel, the \<open>buffer\<close> of the world, empty when the process
  starts, and starts \<open>run\<close>, which theory Server_Props runs beside the requests.
\<close>

definition NewRecorder :: "string \<Rightarrow> recorder" where
  "NewRecorder stream = \<lparr>rec_stream = stream\<rparr>"

definition push_step :: "event \<Rightarrow> 'x world \<Rightarrow> bool \<times> 'x world" where
  \<comment> \<open>the \<open>select\<close> of \<open>Push\<close>\<close>
  "push_step e w = (if length (buffer w) < bufferSize then (True, w\<lparr>buffer := buffer w @ [e]\<rparr>) else (False, w))"

definition Push :: "event \<Rightarrow> ('x world, bool) prog" where
  "Push e = bindp (act (push_step e)) (\<lambda>ok.
     if ok then Ret True else bindp (Inc EventsDropped) (\<lambda>_. Ret False))"

definition take_step :: "'x world \<Rightarrow> event option \<times> 'x world" where
  \<comment> \<open>receiving from the channel; \<open>None\<close>: nothing there, the goroutine waits\<close>
  "take_step w = (case buffer w of [] \<Rightarrow> (None, w) | e # es \<Rightarrow> (Some e, w\<lparr>buffer := es\<rparr>))"

definition event_values :: "event \<Rightarrow> (string \<times> string) list" where
  "event_values e = [(''code'', ev_Code e), (''referrer'', ev_Referrer e), (''ts'', Itoa (ev_TS e div nano_s))]"

definition publish :: "'x platform \<Rightarrow> recorder \<Rightarrow> event \<Rightarrow> ('x world, unit) prog" where
  "publish P r e =
     bindp (ext_act (p_xadd P (rec_stream r) (event_values e))) (\<lambda>res.
       case res of
         Inl err \<Rightarrow> Inc EventsFailed
       | Inr i \<Rightarrow> Inc EventsPublished)"

text \<open>\<open>run\<close>, for \<open>n\<close> turns of its loop; the goroutine lives as long as the process.\<close>

fun run_recorder :: "'x platform \<Rightarrow> recorder \<Rightarrow> nat \<Rightarrow> ('x world, unit) prog" where
  "run_recorder P r 0 = Ret ()"
| "run_recorder P r (Suc n) =
     bindp (act take_step) (\<lambda>got.
       case got of
         None \<Rightarrow> run_recorder P r n
       | Some e \<Rightarrow> bindp (publish P r e) (\<lambda>_. run_recorder P r n))"

end
