(* ===== verification/Url_Handler.thy ===== *)
theory Url_Handler
imports Http Recorder Url_Service
begin

section \<open>The URL handlers\<close>

text \<open>
  \<open>internal/handler/url.go\<close>: the five endpoints, from the decoded request to the response,
  and the two functions that turn an error of the service into a status and an error code. The
  model of a request carries each header's first value, as \<open>Header.Get\<close> reads it.
\<close>

definition MaxBodyBytes :: nat where "MaxBodyBytes = 2 ^ 20"

record 'w url_handler =
  svc :: "'w url_service"
  recd :: "recorder option"

definition formatExpiry :: "time option \<Rightarrow> json" where
  "formatExpiry t = (case t of None \<Rightarrow> JNull | Some t \<Rightarrow> JStr (format_RFC3339 t))"

definition url_json :: "url \<Rightarrow> string \<Rightarrow> json" where
  "url_json u short = JObj
     [(''url'', JStr (LongURL u)), (''shortCode'', JStr (Code u)), (''shortUrl'', JStr short),
      (''createdAt'', JStr (format_RFC3339 (CreatedAt u))), (''expiresAt'', formatExpiry (ExpiresAt u))]"

text \<open>The \<open>switch\<close> of \<open>writeCreateError\<close>: status, code, and whether the message is the error's own.\<close>

definition create_error_case :: "goerr \<Rightarrow> int \<times> string \<times> bool" where
  "create_error_case err =
     (if errors_Is err ErrInvalidURL then (400, ''url_invalid'', True)
      else if errors_Is err ErrURLTooLong then (400, ''url_too_long'', True)
      else if errors_Is err ErrSelfReference then (400, ''self_reference'', True)
      else if errors_Is err ErrInvalidCode then (400, ''custom_code_invalid'', True)
      else if errors_Is err ErrInvalidExpiry then (400, ''expires_in_invalid'', True)
      else if errors_Is err ErrIdemKeyTooLong then (400, ''idempotency_key_too_long'', True)
      else if errors_Is err ErrInFlight then (409, ''idempotency_in_progress'', True)
      else if errors_Is err ErrCodeTaken then (409, ''custom_code_taken'', True)
      else (500, ''internal'', False))"

definition writeCreateError :: "request \<Rightarrow> headers \<Rightarrow> goerr \<Rightarrow> ('w, outcome) prog" where
  "writeCreateError q hs err =
     (case create_error_case err of (status, code, own) \<Rightarrow>
        writeError hs status code (if own then err_text err else ''internal error'') (q_RequestID q))"

definition resolve_error_case :: "goerr \<Rightarrow> int \<times> string \<times> string" where
  "resolve_error_case err =
     (if errors_Is err ErrNotFound then (404, ''not_found'', ''short code not found'')
      else if errors_Is err ErrExpired then (410, ''link_expired'', ''link has expired'')
      else (500, ''internal'', ''internal error''))"

definition writeResolveError :: "request \<Rightarrow> headers \<Rightarrow> goerr \<Rightarrow> ('w, outcome) prog" where
  "writeResolveError q hs err =
     (case resolve_error_case err of (status, code, message) \<Rightarrow> writeError hs status code message (q_RequestID q))"

definition handle_Create :: "'x platform \<Rightarrow> golib \<Rightarrow> 'x world url_handler \<Rightarrow> 'x world handler" where
  "handle_Create P L h q hs =
     (case json_Decode L MaxBodyBytes (q_Body q) of
        Inl MaxBytesError \<Rightarrow> writeError hs 413 ''body_too_large'' ''request body too large'' (q_RequestID q)
      | Inl (DecodeError m) \<Rightarrow> writeError hs 400 ''invalid_json'' ''request body must be valid JSON'' (q_RequestID q)
      | Inr r \<Rightarrow>
          bindp (service_Create P L (svc h)
              \<lparr>in_URL = req_URL r, in_CustomCode = req_CustomCode r, in_ExpiresIn = req_ExpiresIn r,
                in_IdempotencyKey = q_Header q ''Idempotency-Key''\<rparr>) (\<lambda>res.
            case res of
              Inl (Panicked m) \<Rightarrow> Ret (Raised hs)
            | Inl err \<Rightarrow> writeCreateError q hs err
            | Inr c \<Rightarrow>
                (let (status, again) = (if res_Replayed c then (200, ''true'') else (201, ''false''))
                 in writeJSON (hs(''Idempotency-Replay'' \<mapsto> again)) status (url_json (res_URL c) (res_ShortURL c)))))"

definition handle_Get :: "'x platform \<Rightarrow> golib \<Rightarrow> 'x world url_handler \<Rightarrow> 'x world handler" where
  "handle_Get P L h q hs =
     bindp (Resolve P L (svc h) (q_URLParam q)) (\<lambda>r.
       case r of
         Inl err \<Rightarrow> writeResolveError q hs err
       | Inr u \<Rightarrow> writeJSON hs 200 (url_json u (shortURLFor L (svc h) (Code u))))"

definition handle_Delete :: "'x platform \<Rightarrow> golib \<Rightarrow> 'x world url_handler \<Rightarrow> 'x world handler" where
  "handle_Delete P L h q hs =
     bindp (Resolve P L (svc h) (q_URLParam q)) (\<lambda>r.
       case r of
         Inl err \<Rightarrow> writeResolveError q hs err
       | Inr u \<Rightarrow>
           bindp (service_Delete P (svc h) (Code u)) (\<lambda>e.
             case e of
               Some err \<Rightarrow>
                 if errors_Is err ErrNotFound
                 then writeError hs 404 ''not_found'' ''short code not found'' (q_RequestID q)
                 else writeError hs 500 ''internal'' ''internal error'' (q_RequestID q)
             | None \<Rightarrow> respond 204 hs NoBody))"

definition stats_json :: "stats_summary \<Rightarrow> json" where
  "stats_json st = JObj
     [(''totalClicks'', JInt (TotalClicks st)),
      (''daily'', JArr (map (\<lambda>d. JObj [(''day'', JStr (format_day (Day d))), (''clicks'', JInt (Clicks d))]) (Daily st))),
      (''topReferrers'', JArr (map (\<lambda>r. JObj [(''referrer'', JStr (Referrer r)), (''clicks'', JInt (RefClicks r))])
         (TopReferrers st)))]"

definition handle_Stats :: "'x platform \<Rightarrow> golib \<Rightarrow> 'x world url_handler \<Rightarrow> 'x world handler" where
  "handle_Stats P L h q hs =
     bindp (GetStats P L (svc h) (q_URLParam q)) (\<lambda>r.
       case r of
         Inl err \<Rightarrow> writeResolveError q hs err
       | Inr st \<Rightarrow> writeJSON hs 200 (stats_json st))"

definition handle_Redirect :: "'x platform \<Rightarrow> golib \<Rightarrow> 'x world url_handler \<Rightarrow> 'x world handler" where
  "handle_Redirect P L h q hs =
     bindp (Resolve P L (svc h) (q_URLParam q)) (\<lambda>r.
       case r of
         Inl err \<Rightarrow> writeResolveError q hs err
       | Inr u \<Rightarrow>
           (case recd h of
              None \<Rightarrow> http_Redirect hs q (LongURL u)
            | Some rc \<Rightarrow>
                bindp (time_Now P) (\<lambda>now.
                bindp (Push \<lparr>ev_Code = Code u, ev_Referrer = q_Header q ''Referer'', ev_TS = now\<rparr>) (\<lambda>_.
                  http_Redirect hs q (LongURL u)))))"

end
