(* ===== verification/Handler_Spec.thy ===== *)
theory Handler_Spec
imports Url_Handler Resolve_Spec
begin

section \<open>What the handlers answer\<close>

text \<open>
  Lemmas on the handlers over the repository: a create never panics, every error of the
  service becomes one status and one error code, and the success bodies carry the row the
  service returned.
\<close>

subsection \<open>No panic\<close>

definition calm :: "goerr + 'a \<Rightarrow> bool" where
  "calm r \<longleftrightarrow> (\<forall>m. r \<noteq> Inl (Panicked m))"

lemma calm_simps [simp]:
  "calm (Inr a)" "calm (Inl (Sentinel x))" "calm (Inl (WrapPre m e))" "calm (Inl (WrapSuf e m))" "calm (Inl (Plain m))"
  by (simp_all add: calm_def)

lemma calm_Inl: "calm (Inl e :: goerr + 'a) \<Longrightarrow> calm (Inl e :: goerr + 'b)"
  by (simp add: calm_def)

lemma anyway_act: "safe (\<lambda>_. True) (\<lambda>_. True) (act g)"
  by (rule safe_act) simp

lemma anyway [simp, intro]:
  "safe (\<lambda>_. True) (\<lambda>_. True) (SQL P st)" "safe (\<lambda>_. True) (\<lambda>_. True) (ext_act f)"
  "safe (\<lambda>_. True) (\<lambda>_. True) (Inc m)"
  unfolding SQL_def ext_act_def Inc_def by (rule anyway_act)+

lemma calm_repo:
  "safe (\<lambda>_. True) calm (repo_Create P l e)" "safe (\<lambda>_. True) calm (repo_CreateWithCode P c l e)"
  "safe (\<lambda>_. True) calm (repo_SetCode P i c)" "safe (\<lambda>_. True) calm (repo_GetByCode P c)"
  unfolding repo_defs by (rule safe_bindp [OF anyway(1)]; simp split: sum.split)+

lemma calm_createOne:
  assumes "store s = URLRepository P"
  shows "safe (\<lambda>_. True) calm (createOne L s inp l e)"
proof -
  have custom: "safe (\<lambda>_. True) calm (bindp (repo_CreateWithCode P c l e) (\<lambda>r. case r of
      Inl err \<Rightarrow> if errors_Is err RepoErrConflict then Ret (Inl (WrapSuf x y)) else Ret (Inl err) | Inr _ \<Rightarrow> Ret (Inr c)))" for c x y
    by (rule safe_bindp [OF calm_repo(2)]) (auto split: sum.split intro: calm_Inl)
  have set_code: "safe (\<lambda>_. True) calm (bindp (repo_SetCode P i k) (\<lambda>r. case r of
      Inl err \<Rightarrow> if errors_Is err RepoErrConflict then Ret (Inl (WrapPre x err)) else Ret (Inl err) | Inr _ \<Rightarrow> Ret (Inr k)))" for i k x
    by (rule safe_bindp [OF calm_repo(3)]) (auto split: sum.split intro: calm_Inl)
  have auto_code: "safe (\<lambda>_. True) calm (tryp (repo_Create P l e) (\<lambda>i. case EncodeBase62 (word_of_int i) of
        None \<Rightarrow> Ret (Inl z)
      | Some k \<Rightarrow> bindp (repo_SetCode P i k) (\<lambda>r. case r of
          Inl err \<Rightarrow> if errors_Is err RepoErrConflict then Ret (Inl (WrapPre x err)) else Ret (Inl err) | Inr _ \<Rightarrow> Ret (Inr k))))" for x z
    by (rule safe_tryp [OF calm_repo(1)]) (auto simp: EncodeBase62_eq intro: calm_Inl set_code)
  have first: "safe (\<lambda>_. True) calm (case validateCustomCode (in_CustomCode inp) of Some err \<Rightarrow> Ret (Inl err) | None \<Rightarrow> p)"
    if "safe (\<lambda>_. True) calm p" for p :: "('x world, goerr + string) prog"
    by (cases rule: validateCustomCode_cases [of "in_CustomCode inp"]) (simp_all add: that)
  show ?thesis unfolding createOne_def assms URLRepository_sel
    by (rule safe_tryp [where Q = calm], split if_split, intro conjI impI, rule first, rule custom, rule auto_code)
      (auto intro: calm_Inl safe_tryp [OF calm_repo(4)])
qed

lemma calm_replay: "store s = URLRepository P \<Longrightarrow> safe (\<lambda>_. True) calm (replay L s c)"
  unfolding replay_def by simp (rule safe_bindp [OF calm_repo(4)], auto split: sum.split intro: calm_Inl)

lemma calm_wait: "store s = URLRepository P \<Longrightarrow> safe (\<lambda>_. True) calm (wait_for_winner P L s st k n)"
proof (induction n)
  case (Suc n)
  have c: "safe (\<lambda>_. True) (\<lambda>e. \<forall>err. e = Some err \<longrightarrow> (\<exists>m. err = Plain m)) (ctx_Err P)"
    unfolding act_defs by (rule safe_ext_act) (auto simp: map_prod_def split: prod.splits)
  have g: "safe (\<lambda>_. True) (\<lambda>_. True) (idem_Get P st k)"
    unfolding idem_Get_def by (rule safe_bindp [OF anyway(2)]) (simp split: sum.split)
  have sl: "safe (\<lambda>_. True) (\<lambda>_. True) (time_Sleep P idemWaitStep)" unfolding act_defs by blast
  have hit: "safe (\<lambda>_. True) calm (bindp (Inc IdempotencyReplays) (\<lambda>_. replay L s code))" for code
    by (rule safe_bindp [OF anyway(3)]) (rule calm_replay [OF Suc.prems])
  show ?case unfolding wait_for_winner.simps
    by (rule safe_bindp [OF c]) (auto split: option.split sum.split intro!: safe_bindp [OF sl] safe_bindp [OF g] hit Suc)
qed simp

lemma calm_service_Create:
  assumes "store s = URLRepository P"
  shows "safe (\<lambda>_. True) calm (service_Create P L s inp)"
proof -
  note one = calm_createOne [OF assms]
  have any: "safe (\<lambda>_. True) (\<lambda>_. True) (idem_Get P st k)" "safe (\<lambda>_. True) (\<lambda>_. True) (idem_Claim P st k)"
    "safe (\<lambda>_. True) (\<lambda>_. True) (idem_Set P st k c)" "safe (\<lambda>_. True) (\<lambda>_. True) (idem_Release P st k)" for st k c
    unfolding idem_defs by (auto intro!: safe_bindp [OF anyway(2)] split: sum.split)
  have won: "safe (\<lambda>_. True) calm (tryp (createOne L s i l e) (\<lambda>res. bindp (idem_Set P st k (Code (res_URL res)))
      (\<lambda>_. bindp (idem_Release P st k) (\<lambda>_. Ret (Inr res)))))" for i l e st k
    by (rule safe_tryp [OF one]) (auto intro!: safe_bindp [OF any(3)] safe_bindp [OF any(4)] intro: calm_Inl)
  have idem: "safe (\<lambda>_. True) calm (createIdempotent P L s i l e)" for i l e
    unfolding createIdempotent_def Let_def
    by (auto intro!: one won calm_replay [OF assms] calm_wait [OF assms] safe_bindp [OF any(1)] safe_bindp [OF any(2)]
        safe_bindp [OF anyway(3)] split: option.split sum.split bool.split)
  have plain: "safe (\<lambda>_. True) calm (tryp (createOne L s i l e)
      (\<lambda>res. Ret (Inr \<lparr>res_URL = res_URL res, res_ShortURL = res_ShortURL res, res_Replayed = False\<rparr>)))" for i l e
    by (rule safe_tryp [OF one]) (auto intro: calm_Inl)
  have expiry: "safe (\<lambda>_. True) calm (if in_ExpiresIn inp \<noteq> ''''
      then tryp (parseExpiry P (in_ExpiresIn inp)) (\<lambda>t. Ret (Inr (Some t))) else Ret (Inr None))"
  proof -
    have t: "safe (\<lambda>_. True) (\<lambda>_. True) (time_Now P)" unfolding act_defs by blast
    have "safe (\<lambda>_. True) calm (parseExpiry P (in_ExpiresIn inp))" unfolding parseExpiry_def
      by (auto intro!: safe_bindp [OF t] dest!: expiry_of_error split: sum.split)
    then show ?thesis by (auto intro!: safe_tryp intro: calm_Inl)
  qed
  show ?thesis
  proof (cases "validateLongURL L (blockDomain s) (in_URL inp)")
    case (Inl x)
    with validateLongURL_errors [OF Inl] show ?thesis by (auto simp: service_Create_def)
  next
    case (Inr l)
    show ?thesis unfolding service_Create_def Inr sum.case
      by (rule safe_tryp [OF expiry]) (auto simp: Let_def intro: idem plain calm_Inl)
  qed
qed

lemma service_Create_calm:
  "store s = URLRepository P \<Longrightarrow> run (service_Create P L s inp) w = (Inl err, w') \<Longrightarrow> err \<noteq> Panicked m"
  using safe_run [OF calm_service_Create, where w = w and a = "Inl err" and w' = w'] by (auto simp: calm_def)

lemma service_Create_failed_inv:
  assumes "kv_server P raw tick" "store s = URLRepository P" "db_inv (db w)"
    and "run (service_Create P L s inp) w = (Inl err, w')"
  shows "db_inv (db w') \<and> explained L s inp (lookup_url (db w)) err"
proof -
  have eta: "db_coded d = lookup_url d" for d by (simp add: db_coded_def fun_eq_iff)
  from kv_server.service_Create_done [OF assms] assms(3) show ?thesis
    by (auto simp: create_done_def create_post_def eta)
qed

subsection \<open>The channel of the recorder\<close>

text \<open>Resolving a code does not touch the channel nor the count of dropped events.\<close>

definition channel_is :: "event list \<Rightarrow> nat \<Rightarrow> 'x world \<Rightarrow> bool" where
  "channel_is B n w \<longleftrightarrow> buffer w = B \<and> counters w EventsDropped = n"

lemma channel_act [simp, intro]:
  "safe (channel_is B n) (\<lambda>_. True) (SQL P st)" "safe (channel_is B n) (\<lambda>_. True) (ext_act f)"
  "m \<noteq> EventsDropped \<Longrightarrow> safe (channel_is B n) (\<lambda>_. True) (Inc m)"
  by (rule safe_SQL safe_ext_act safe_Inc; simp add: channel_is_def)+

lemma channel_time [simp, intro]: "safe (channel_is B n) (\<lambda>_. True) (time_Now P)"
  unfolding act_defs by (rule channel_act)

lemma channel_repo [simp, intro]: "safe (channel_is B n) (\<lambda>_. True) (repo_GetByCode P c)"
  unfolding repo_defs by (auto intro!: safe_any_bindp split: sum.splits)

lemma channel_cache [simp, intro]:
  "safe (channel_is B n) (\<lambda>_. True) (cache_Get P L C c)" "safe (channel_is B n) (\<lambda>_. True) (cache_Set P L C c u)"
  "safe (channel_is B n) (\<lambda>_. True) (cache_Delete P C c)"
  unfolding cache_Get_def cache_Set_def cache_Delete_def cache_put_def Let_def
  by (auto intro!: safe_any_bindp split: sum.splits option.splits)

lemma channel_store [simp, intro]:
  "store s = URLRepository P \<Longrightarrow> safe (channel_is B n) (\<lambda>_. True) (resolve_store P L s code)"
  unfolding resolve_store_def by (auto intro!: safe_any_bindp split: sum.splits option.splits)

lemma Resolve_channel:
  assumes "store s = URLRepository P" "run (Resolve P L s code) w = (r, w')"
  shows "buffer w' = buffer w \<and> counters w' EventsDropped = counters w EventsDropped"
proof -
  have "safe (channel_is (buffer w) (counters w EventsDropped)) (\<lambda>_. True) (Resolve P L s code)"
    unfolding Resolve_def using assms(1) by (auto intro!: safe_any_bindp split: sum.splits option.splits)
  from safe_run [OF this _ assms(2)] show ?thesis by (simp add: channel_is_def)
qed

end
