(* ===== verification/Handler_Props.thy ===== *)
theory Handler_Props
imports Handler_Spec Create_Props Resolve_Props
begin

section \<open>Properties of the handlers\<close>

text \<open>
  What a client sees: for each endpoint the statuses it can answer with, and what each status
  says of the table.
\<close>

text \<open>The statuses and error codes of the create endpoint.\<close>

definition create_codes :: "(int \<times> string) set" where
  "create_codes = {(400, ''invalid_json''), (413, ''body_too_large''), (400, ''url_invalid''), (400, ''url_too_long''),
     (400, ''self_reference''), (400, ''custom_code_invalid''), (400, ''expires_in_invalid''),
     (400, ''idempotency_key_too_long''), (409, ''idempotency_in_progress''), (409, ''custom_code_taken''), (500, ''internal'')}"

lemma create_codes_not_success: "(status, code) \<in> create_codes \<Longrightarrow> status \<noteq> 200 \<and> status \<noteq> 201"
  unfolding create_codes_def by auto

lemma create_error_cases: "create_error_case err = (status, code, own) \<Longrightarrow> (status, code) \<in> create_codes"
  unfolding create_codes_def create_error_case_def by (auto split: if_splits)

lemma run_respond [run_simps]:
  "run (respond status hs b) w = (Written \<lparr>res_Status = status, res_Header = hs, res_Body = b\<rparr>, w)"
  by (simp add: respond_def)

text \<open>The response that carries an error in the JSON envelope.\<close>

definition error_response :: "response \<Rightarrow> int \<Rightarrow> string \<Rightarrow> string \<Rightarrow> string \<Rightarrow> bool" where
  "error_response resp status code message requestID \<longleftrightarrow>
     res_Status resp = status \<and> res_Body resp = JsonBody (error_envelope code message requestID)
     \<and> res_Header resp ''Content-Type'' = Some ''application/json; charset=utf-8''"

lemma run_writeError [run_simps]:
  "run (writeError hs status code message rid) w =
     (Written \<lparr>res_Status = status, res_Header = hs(''Content-Type'' \<mapsto> ''application/json; charset=utf-8''),
        res_Body = JsonBody (error_envelope code message rid)\<rparr>, w)"
  by (simp add: writeError_def writeJSON_def respond_def)

lemma writeCreateError_run:
  assumes "run (writeCreateError q hs err) w = (a, w')"
  obtains resp status code own where "w' = w" "a = Written resp" "create_error_case err = (status, code, own)"
    "error_response resp status code (if own then err_text err else ''internal error'') (q_RequestID q)"
proof -
  obtain status code own where c: "create_error_case err = (status, code, own)" by (cases "create_error_case err")
  with assms show thesis
    by (intro that [OF _ _ c, where resp = "written a"]) (auto simp: writeCreateError_def run_simps error_response_def)
qed

lemma writeResolveError_run:
  assumes "run (writeResolveError q hs err) w = (a, w')"
  obtains resp status code message where "w' = w" "a = Written resp" "resolve_error_case err = (status, code, message)"
    "error_response resp status code message (q_RequestID q)"
proof -
  obtain status code message where c: "resolve_error_case err = (status, code, message)" by (cases "resolve_error_case err")
  with assms show thesis
    by (intro that [OF _ _ c, where resp = "written a"]) (auto simp: writeResolveError_def run_simps error_response_def)
qed

subsection \<open>Create\<close>

definition handler_params :: "request \<Rightarrow> create_url_request \<Rightarrow> create_params" where
  "handler_params q r = \<lparr>in_URL = req_URL r, in_CustomCode = req_CustomCode r, in_ExpiresIn = req_ExpiresIn r,
     in_IdempotencyKey = q_Header q ''Idempotency-Key''\<rparr>"

lemma handle_Create_cases:
  assumes "store (svc h) = URLRepository P" and "run (handle_Create P L h q hs) w = (a, w')"
  obtains (body) m where "json_Decode L MaxBodyBytes (q_Body q) = Inl m" "w' = w"
      "\<exists>resp status code message. a = Written resp \<and> (status, code) \<in> create_codes
        \<and> error_response resp status code message (q_RequestID q)"
    | (failed) r err where "json_Decode L MaxBodyBytes (q_Body q) = Inr r"
      "run (service_Create P L (svc h) (handler_params q r)) w = (Inl err, w')"
      "\<exists>resp status code own. create_error_case err = (status, code, own) \<and> a = Written resp
        \<and> error_response resp status code (if own then err_text err else ''internal error'') (q_RequestID q)"
    | (made) r res where "json_Decode L MaxBodyBytes (q_Body q) = Inr r"
      "run (service_Create P L (svc h) (handler_params q r)) w = (Inr res, w')"
      "a = Written \<lparr>res_Status = (if res_Replayed res then 200 else 201),
         res_Header = hs(''Idempotency-Replay'' \<mapsto> (if res_Replayed res then ''true'' else ''false''),
            ''Content-Type'' \<mapsto> ''application/json; charset=utf-8''),
         res_Body = JsonBody (url_json (res_URL res) (res_ShortURL res))\<rparr>"
proof (cases "json_Decode L MaxBodyBytes (q_Body q)")
  case (Inl m)
  have "w' = w \<and> (\<exists>resp status code message. a = Written resp \<and> (status, code) \<in> create_codes
        \<and> error_response resp status code message (q_RequestID q))"
  proof (cases m)
    case MaxBytesError
    with Inl assms(2) have "w' = w" "a = Written (written a)"
      "error_response (written a) 413 ''body_too_large'' ''request body too large'' (q_RequestID q)"
      by (auto simp: handle_Create_def run_simps error_response_def)
    moreover have "(413, ''body_too_large'') \<in> create_codes" by (simp add: create_codes_def)
    ultimately show ?thesis by blast
  next
    case (DecodeError x)
    with Inl assms(2) have "w' = w" "a = Written (written a)"
      "error_response (written a) 400 ''invalid_json'' ''request body must be valid JSON'' (q_RequestID q)"
      by (auto simp: handle_Create_def run_simps error_response_def)
    moreover have "(400, ''invalid_json'') \<in> create_codes" by (simp add: create_codes_def)
    ultimately show ?thesis by blast
  qed
  then show thesis by (intro body [OF Inl]) auto
next
  case (Inr r)
  obtain c v where c: "run (service_Create P L (svc h) (handler_params q r)) w = (c, v)"
    by (cases "run (service_Create P L (svc h) (handler_params q r)) w")
  show thesis
  proof (cases c)
    case (Inl err)
    have calm: "err \<noteq> Panicked m" for m by (rule service_Create_calm [OF assms(1) c [unfolded Inl]])
    then have "run (writeCreateError q hs err) v = (a, w')"
      using assms(2) Inr c Inl
      by (cases err) (auto simp: handle_Create_def handler_params_def run_simps)
    from writeCreateError_run [OF this] c Inl show thesis by (metis failed [OF Inr])
  next
    case res: (Inr res)
    with assms(2) Inr c show thesis
      by (intro made [OF Inr]) (auto simp: handle_Create_def handler_params_def run_simps writeJSON_def Let_def split: if_splits)
  qed
qed

text \<open>What a success response says: of the table before (\<open>m\<close>) and after (\<open>m'\<close>).\<close>

definition create_success :: "golib \<Rightarrow> 'w url_service \<Rightarrow> coded_map \<Rightarrow> coded_map \<Rightarrow> string \<Rightarrow> response \<Rightarrow> bool" where
  "create_success L s m m' key resp \<longleftrightarrow>
     (\<exists>u. res_Body resp = JsonBody (url_json u (shortURLFor L s (Code u))) \<and> m' (Code u) = Some u
        \<and> (if res_Status resp = 201
           then res_Header resp ''Idempotency-Replay'' = Some ''false'' \<and> m (Code u) = None \<and> m' = m(Code u \<mapsto> u)
           else res_Status resp = 200 \<and> res_Header resp ''Idempotency-Replay'' = Some ''true'' \<and> m' = m
             \<and> TrimSpace key \<noteq> ''''))"


definition demo_handler :: "sim world url_handler" where
  "demo_handler = \<lparr>svc = demo_service, recd = Some \<lparr>rec_stream = ''v1:events''\<rparr>\<rparr>"

definition demo_http :: "string \<Rightarrow> string \<Rightarrow> string \<Rightarrow> request" where
  "demo_http meth code b = \<lparr>q_Method = meth, q_Path = ''/'' @ code, q_RemoteAddr = ''10.0.0.1:5000'', q_Header = (\<lambda>_. ''''),
     q_Body = b, q_URLParam = code, q_RequestID = ''r1''\<rparr>"

lemma demo_handler_sel [simp]: "svc demo_handler = demo_service" "recd demo_handler = Some \<lparr>rec_stream = ''v1:events''\<rparr>"
  by (simp_all add: demo_handler_def)

lemma demo_http_sel [simp]: "q_Body (demo_http meth code b) = b" "q_URLParam (demo_http meth code b) = code"
  "q_RequestID (demo_http meth code b) = ''r1''" "q_Header (demo_http meth code b) k = ''''" "q_Method (demo_http meth code b) = meth"
  by (simp_all add: demo_http_def)

lemma demo_decode: "b \<noteq> [] \<Longrightarrow> length b \<le> 1048576 \<Longrightarrow>
    json_Decode demo_lib MaxBodyBytes b = Inr \<lparr>req_URL = b, req_CustomCode = [], req_ExpiresIn = []\<rparr>"
  by (simp add: demo_lib_def MaxBodyBytes_def)

lemma demo_createOne_auto:
  "fst (run (createOne demo_lib demo_service (demo_request '''' '''' '''') ''http://a'' None) (world0 empty_db (sim0 0)))
     = Inr \<lparr>res_URL = \<lparr>ID = 1, Code = ''1'', LongURL = ''http://a'', ExpiresAt = None, CreatedAt = 0\<rparr>,
            res_ShortURL = ''http://sho.rt/1'', res_Replayed = False\<rparr>"
  by code_simp


text \<open>C29: The error code of a create that the service refuses tells the cause: a custom_code_taken names a code that is in the table, a custom_code_invalid one that fails the rules, the URL, expiry and key codes an input that fails its check, and idempotency_in_progress comes only with an idempotency key. An internal error carries no message of its own.\<close>

theorem create_error_causes:
  assumes "kv_server P raw tick" "store (svc h) = URLRepository P" "db_inv (db w)"
    and "json_Decode L MaxBodyBytes (q_Body q) = Inr r"
    and "run (handle_Create P L h q hs) w = (Written resp, w')"
    and "res_Body resp = JsonBody (error_envelope code message requestID)"
  shows "(code = ''custom_code_taken'' \<longrightarrow> lookup_url (db w) (req_CustomCode r) \<noteq> None)
    \<and> (code = ''custom_code_invalid'' \<longrightarrow> validateCustomCode (req_CustomCode r) \<noteq> None)
    \<and> (code = ''url_invalid'' \<longrightarrow> validateLongURL L (blockDomain (svc h)) (req_URL r) = Inl (Sentinel ErrInvalidURL))
    \<and> (code = ''url_too_long'' \<longrightarrow> validateLongURL L (blockDomain (svc h)) (req_URL r) = Inl (Sentinel ErrURLTooLong))
    \<and> (code = ''self_reference'' \<longrightarrow> validateLongURL L (blockDomain (svc h)) (req_URL r) = Inl (Sentinel ErrSelfReference))
    \<and> (code = ''expires_in_invalid'' \<longrightarrow> expiry_of (req_ExpiresIn r) = Inl (Sentinel ErrInvalidExpiry))
    \<and> (code = ''idempotency_key_too_long'' \<longrightarrow> 256 < length (TrimSpace (q_Header q ''Idempotency-Key'')))
    \<and> (code = ''idempotency_in_progress'' \<longrightarrow> TrimSpace (q_Header q ''Idempotency-Key'') \<noteq> '''')
    \<and> (code = ''internal'' \<longrightarrow> message = ''internal error'')"
  using assms(2,5)
proof (cases rule: handle_Create_cases)
  case (body m)
  with assms(4) show ?thesis by simp
next
  case (failed r' err)
  with assms(4) have ex: "explained L (svc h) (handler_params q r) (lookup_url (db w)) err"
    using service_Create_failed_inv [OF assms(1-3)] by simp
  have reason: "errors_Is err x \<Longrightarrow> create_reason L (svc h) (handler_params q r) (lookup_url (db w)) x" for x
    using ex by (simp add: explained_def)
  from failed(3) assms(6) obtain status own where c: "create_error_case err = (status, code, own)"
    "message = (if own then err_text err else ''internal error'')"
    by (auto simp: error_response_def error_envelope_def)
  from c show ?thesis unfolding create_error_case_def
    by (auto simp: handler_params_def split: if_splits dest!: reason)
next
  case (made r' res)
  with assms(6) show ?thesis by (auto simp: url_json_def error_envelope_def)
qed

theorem create_error_causes_witness:
  "\<exists>resp w' message. run (handle_Create sim_platform demo_lib demo_handler (demo_http ''POST'' '''' ''ftp://a'') Map.empty)
       (world0 empty_db (sim0 0)) = (Written resp, w')
     \<and> res_Body resp = JsonBody (error_envelope ''url_invalid'' message ''r1'')
     \<and> validateLongURL demo_lib ''sho.rt'' ''ftp://a'' = Inl (Sentinel ErrInvalidURL)"
proof -
  let ?q = "demo_http ''POST'' '''' ''ftp://a''" and ?w = "world0 empty_db (sim0 0)"
  let ?m = "err_text (Sentinel ErrInvalidURL)"
  have v: "validateLongURL demo_lib ''sho.rt'' ''ftp://a'' = Inl (Sentinel ErrInvalidURL)" by code_simp
  then obtain resp w' where r: "run (handle_Create sim_platform demo_lib demo_handler ?q Map.empty) ?w = (Written resp, w')"
    "res_Body resp = JsonBody (error_envelope ''url_invalid'' ?m ''r1'')"
    by (auto simp: handle_Create_def demo_decode service_Create_def writeCreateError_def create_error_case_def run_simps)
  have "db_inv (db ?w)" by (simp add: world0_def empty_db_inv)
  moreover have "json_Decode demo_lib MaxBodyBytes (q_Body ?q) = Inr \<lparr>req_URL = ''ftp://a'', req_CustomCode = [], req_ExpiresIn = []\<rparr>"
    by (simp add: demo_decode)
  ultimately show ?thesis
    using create_error_causes [OF sim_law _ _ _ r(1) r(2)] r by auto
qed

subsection \<open>Redirect and Delete\<close>

lemma resolve_error_cases:
  assumes "resolve_error_case err = (status, code, message)"
  shows "(status = 404 \<longrightarrow> errors_Is err ErrNotFound) \<and> (status = 410 \<longrightarrow> errors_Is err ErrExpired)
    \<and> (status, code) \<in> {(404, ''not_found''), (410, ''link_expired''), (500, ''internal'')}"
  using assms by (auto simp: resolve_error_case_def split: if_splits)

lemma resolve_facts:
  assumes "kv_server P raw tick" "lib_ok L" "store s = URLRepository P" "cache s = Some C"
    and "run (Resolve P L s code) w = (r, w')"
  shows "db w' = db w" "tick (ext w) \<le> tick (ext w')"
    "r = Inr u \<Longrightarrow> (lookup_url (db w) code = Some u \<or> kv_holds L C (raw (ext w)) code u)
       \<and> (\<forall>t. ExpiresAt u = Some t \<longrightarrow> tick (ext w) < t)"
    "r = Inl err \<Longrightarrow> errors_Is err ErrNotFound \<Longrightarrow> lookup_url (db w) code = None"
    "r = Inl err \<Longrightarrow> errors_Is err ErrExpired \<Longrightarrow>
       \<exists>u t. lookup_url (db w) code = Some u \<and> ExpiresAt u = Some t \<and> t \<le> tick (ext w')"
  using redis_cache.Resolve_run [OF redis_cacheI [OF assms(1,2)] assms(3) disjI2 [OF assms(4)] assms(5)]
  by (auto simp: resolve_error_ok_def expired_at_def split: option.splits)

text \<open>The event a redirect hands to the recorder, if there is room for it.\<close>

definition pushed :: "recorder option \<Rightarrow> event \<Rightarrow> 'x world \<Rightarrow> 'x world \<Rightarrow> bool" where
  "pushed rc e w w' \<longleftrightarrow>
     (if rc = None then buffer w' = buffer w \<and> counters w' EventsDropped = counters w EventsDropped
      else if length (buffer w) < bufferSize
      then buffer w' = buffer w @ [e] \<and> counters w' EventsDropped = counters w EventsDropped
      else buffer w' = buffer w \<and> counters w' EventsDropped = Suc (counters w EventsDropped))"

lemma handle_Redirect_found:
  assumes "run (Resolve P L (svc h) (q_URLParam q)) w = (Inr u, v)" "run (handle_Redirect P L h q hs) w = (a, w')"
    and "buffer v = buffer w \<and> counters v EventsDropped = counters w EventsDropped"
  shows "db w' = db v \<and> (\<exists>t. pushed (recd h) \<lparr>ev_Code = Code u, ev_Referrer = q_Header q ''Referer'', ev_TS = t\<rparr> w w')
    \<and> (\<exists>resp. a = Written resp \<and> res_Status resp = 301 \<and> res_Header resp ''Location'' = Some (hexEscapeNonASCII (LongURL u)))"
proof (cases "recd h")
  case None
  with assms show ?thesis by (auto simp: handle_Redirect_def run_simps http_Redirect_def pushed_def Let_def)
next
  case (Some rc)
  with assms show ?thesis
    by (auto simp: handle_Redirect_def run_simps http_Redirect_def pushed_def Let_def Push_def push_step_def act_defs
        split: prod.splits if_splits)
qed

text \<open>C17: A GET of a short code is always answered. A 301 sends the client to the long URL of the row under the code, or of the copy in the cache, escaped to ASCII and not expired when the request came, and hands exactly one event for the code to the recorder, which drops and counts it when its channel is full. A 404 says that the code is not in the table, a 410 that its row has expired; these and every other error push no event. No answer changes the database.\<close>

theorem redirect_response:
  assumes "kv_server P raw tick" "lib_ok L" "store (svc h) = URLRepository P" "cache (svc h) = Some C"
    and "run (handle_Redirect P L h q hs) w = (a, w')" and "code = q_URLParam q"
  shows "\<exists>resp. a = Written resp \<and> db w' = db w
    \<and> (if res_Status resp = 301
       then \<exists>u t. (lookup_url (db w) code = Some u \<or> kv_holds L C (raw (ext w)) code u)
            \<and> (\<forall>e. ExpiresAt u = Some e \<longrightarrow> tick (ext w) < e)
            \<and> res_Header resp ''Location'' = Some (hexEscapeNonASCII (LongURL u))
            \<and> pushed (recd h) \<lparr>ev_Code = Code u, ev_Referrer = q_Header q ''Referer'', ev_TS = t\<rparr> w w'
       else res_Status resp \<in> {404, 410, 500} \<and> buffer w' = buffer w
            \<and> (res_Status resp = 404 \<longrightarrow> lookup_url (db w) code = None)
            \<and> (res_Status resp = 410 \<longrightarrow>
                 (\<exists>u e. lookup_url (db w) code = Some u \<and> ExpiresAt u = Some e \<and> e \<le> tick (ext w'))))"
proof -
  obtain r v where r: "run (Resolve P L (svc h) code) w = (r, v)" by (cases "run (Resolve P L (svc h) code) w")
  note ok = resolve_facts [OF assms(1-4) r] and ch = Resolve_channel [OF assms(3) r]
  show ?thesis
  proof (cases r)
    case (Inl err)
    with assms(5,6) r have "run (writeResolveError q hs err) v = (a, w')" by (simp add: handle_Redirect_def run_simps)
    then show ?thesis
    proof (cases rule: writeResolveError_run)
      case (1 resp status c message)
      with resolve_error_cases [OF 1(3)] ok ch Inl show ?thesis by (auto simp: error_response_def)
    qed
  next
    case (Inr u)
    from handle_Redirect_found [OF _ assms(5) ch] r assms(6) Inr ok show ?thesis by fastforce
  qed
qed

theorem redirect_response_witness:
  "\<exists>resp w'. run (handle_Redirect sim_platform demo_lib demo_handler (demo_http ''GET'' ''ab0'' '''') Map.empty)
       (world0 (demo_db [''ab0''] None) (sim0 0)) = (Written resp, w')
     \<and> res_Header resp ''Location'' = Some ''http://a'' \<and> length (buffer w') = 1"
proof -
  let ?q = "demo_http ''GET'' ''ab0'' ''''" and ?w = "world0 (demo_db [''ab0''] None) (sim0 0)"
  let ?u = "row_url ''ab0'' (urls (demo_db [''ab0''] None) ! 0)"
  have "fst (run (Resolve sim_platform demo_lib demo_service ''ab0'') ?w) = Inr ?u" "hexEscapeNonASCII ''http://a'' = ''http://a''"
    "LongURL ?u = ''http://a''"
    by code_simp+
  then obtain v where v: "run (Resolve sim_platform demo_lib demo_service ''ab0'') ?w = (Inr ?u, v)" and loc: "hexEscapeNonASCII (LongURL ?u) = ''http://a''"
    by (metis prod.collapse)
  obtain a w' where r: "run (handle_Redirect sim_platform demo_lib demo_handler ?q Map.empty) ?w = (a, w')"
    by (cases "run (handle_Redirect sim_platform demo_lib demo_handler ?q Map.empty) ?w")
  have "run (Resolve sim_platform demo_lib (svc demo_handler) (q_URLParam ?q)) ?w = (Inr ?u, v)" using v by simp
  from handle_Redirect_found [OF this r Resolve_channel [OF demo_service_sel(1) v]]
  obtain resp where a: "a = Written resp" "res_Status resp = 301" by blast
  have raw: "s_kv (ext ?w) = Map.empty" "db ?w = demo_db [''ab0''] None" "buffer ?w = []" by (simp_all add: world0_def sim0_def)
  have look: "lookup_url (demo_db [''ab0''] None) ''ab0'' = Some ?u" by code_simp
  from redirect_response [OF sim_law demo_lib_ok _ _ r, of "NewURLCache ''v1:''" "''ab0''"] a raw look loc r show ?thesis
    by (auto simp: kv_holds_def pushed_def bufferSize_def)
qed

text \<open>C18: A GET of a URL's data is always answered. A 200 carries the row under the code, or the copy in the cache, not expired when the request came, as JSON with its own short URL; a 404 says that the code is not in the table, a 410 that its row has expired. No answer changes the database or pushes a click.\<close>

theorem get_response:
  assumes "kv_server P raw tick" "lib_ok L" "store (svc h) = URLRepository P" "cache (svc h) = Some C"
    and "run (handle_Get P L h q hs) w = (a, w')" and "code = q_URLParam q"
  shows "\<exists>resp. a = Written resp \<and> db w' = db w \<and> buffer w' = buffer w
    \<and> (if res_Status resp = 200
       then \<exists>u. (lookup_url (db w) code = Some u \<or> kv_holds L C (raw (ext w)) code u)
            \<and> (\<forall>e. ExpiresAt u = Some e \<longrightarrow> tick (ext w) < e)
            \<and> res_Body resp = JsonBody (url_json u (shortURLFor L (svc h) (Code u)))
       else res_Status resp \<in> {404, 410, 500}
            \<and> (res_Status resp = 404 \<longrightarrow> lookup_url (db w) code = None)
            \<and> (res_Status resp = 410 \<longrightarrow>
                 (\<exists>u e. lookup_url (db w) code = Some u \<and> ExpiresAt u = Some e \<and> e \<le> tick (ext w'))))"
proof -
  obtain r v where r: "run (Resolve P L (svc h) code) w = (r, v)" by (cases "run (Resolve P L (svc h) code) w")
  note ok = resolve_facts [OF assms(1-4) r] and ch = Resolve_channel [OF assms(3) r]
  show ?thesis
  proof (cases r)
    case (Inl err)
    with assms(5,6) r have "run (writeResolveError q hs err) v = (a, w')" by (simp add: handle_Get_def run_simps)
    then show ?thesis
    proof (cases rule: writeResolveError_run)
      case (1 resp status c message)
      with resolve_error_cases [OF 1(3)] ok ch Inl show ?thesis by (auto simp: error_response_def)
    qed
  next
    case (Inr u)
    with assms(5,6) r have "run (writeJSON hs 200 (url_json u (shortURLFor L (svc h) (Code u)))) v = (a, w')"
      by (simp add: handle_Get_def run_simps)
    then have "w' = v" "\<exists>resp. a = Written resp \<and> res_Status resp = 200 \<and> res_Body resp = JsonBody (url_json u (shortURLFor L (svc h) (Code u)))"
      by (auto simp: writeJSON_def respond_def run_simps)
    with ok ch Inr show ?thesis by auto
  qed
qed

theorem get_response_witness:
  "\<exists>resp w' u. run (handle_Get sim_platform demo_lib demo_handler (demo_http ''GET'' ''ab0'' '''') Map.empty)
       (world0 (demo_db [''ab0''] None) (sim0 0)) = (Written resp, w')
     \<and> res_Status resp = 200 \<and> res_Body resp = JsonBody (url_json u (shortURLFor demo_lib demo_service (Code u)))
     \<and> lookup_url (demo_db [''ab0''] None) ''ab0'' = Some u \<and> buffer w' = []"
proof -
  let ?q = "demo_http ''GET'' ''ab0'' ''''" and ?w = "world0 (demo_db [''ab0''] None) (sim0 0)"
  let ?u = "row_url ''ab0'' (urls (demo_db [''ab0''] None) ! 0)"
  have "fst (run (Resolve sim_platform demo_lib demo_service ''ab0'') ?w) = Inr ?u" by code_simp
  then obtain v where v: "run (Resolve sim_platform demo_lib demo_service ''ab0'') ?w = (Inr ?u, v)" by (metis prod.collapse)
  then obtain resp where r: "run (handle_Get sim_platform demo_lib demo_handler ?q Map.empty) ?w = (Written resp, v)" "res_Status resp = 200"
    by (auto simp: handle_Get_def run_simps writeJSON_def respond_def)
  have raw: "s_kv (ext ?w) = Map.empty" "db ?w = demo_db [''ab0''] None" "buffer ?w = []" by (simp_all add: world0_def sim0_def)
  from get_response [OF sim_law demo_lib_ok _ _ r(1), of "NewURLCache ''v1:''" "''ab0''"] r raw show ?thesis
    by (auto simp: kv_holds_def)
qed



subsection \<open>Replaying a deleted link\<close>

text \<open>C34: A create that replays an idempotency key whose link has since been deleted is answered with 500 and the code internal, whatever else the request asks for, for as long as the key is recorded: the replay's ErrNotFound has no case of its own in the handler.\<close>

theorem replay_of_deleted:
  assumes "kv_server_up P raw tick up" "store (svc h) = URLRepository P" "idem (svc h) = Some st" "up (ext w)" "db_inv (db w)"
    and "json_Decode L MaxBodyBytes (q_Body q) = Inr r"
    and "req_ExpiresIn r = '''' \<or> (\<exists>d. expiry_of (req_ExpiresIn r) = Inr d)"
    and "validateLongURL L (blockDomain (svc h)) (req_URL r) = Inr l"
    and "TrimSpace (q_Header q ''Idempotency-Key'') = key" "key \<noteq> ''''" "length key \<le> 256"
    and "raw (ext w) (respKey st key) = Some (c, Some dl)" "lookup_url (db w) c = None" "pg_text c"
    and "run (handle_Create P L h q hs) w = (a, w')" "tick (ext w') < dl"
  shows "\<exists>resp. a = Written resp \<and> db w' = db w \<and> res_Status resp = 500
    \<and> res_Body resp = JsonBody (error_envelope ''internal'' ''internal error'' (q_RequestID q))"
proof -
  obtain x v where x: "run (service_Create P L (svc h) (handler_params q r)) w = (x, v)"
    by (cases "run (service_Create P L (svc h) (handler_params q r)) w")
  have key: "TrimSpace (in_IdempotencyKey (handler_params q r)) = key" by (simp add: handler_params_def assms(9))
  have tk: "TrimSpace key = key" using TrimSpace_idem assms(9) by metis
  obtain l' e v0 where b: "run (createIdempotent P L (svc h) ((handler_params q r)\<lparr>in_IdempotencyKey := key\<rparr>) l' e) v0 = (x, v)"
    and v0: "db v0 = db w" "raw (ext v0) = raw (ext w)" "up (ext v0)"
    using kv_server_up.keyed_body [OF assms(1) _ x] assms(4,7,8,10) key by (auto simp: handler_params_def)
  from assms(2,15) show ?thesis
  proof (cases rule: handle_Create_cases)
    case (body m)
    with assms(6) show ?thesis by simp
  next
    case (failed r' err)
    with x assms(6) have v: "v = w'" "x = Inl err" by simp_all
    have "x = Inl (Sentinel ErrNotFound) \<and> db v = db v0"
      by (rule kv_server_up.createIdempotent_gone_up [OF assms(1) v0(3) _ assms(2,3) _ _ _ _ assms(14) b])
        (use v0 v tk assms in auto)
    with v v0 failed(3) show ?thesis by (auto simp: create_error_case_def error_response_def)
  next
    case (made r' res)
    with x assms(6) have v: "v = w'" "x = Inr res" by simp_all
    have "x = Inl (Sentinel ErrNotFound) \<and> db v = db v0"
      by (rule kv_server_up.createIdempotent_gone_up [OF assms(1) v0(3) _ assms(2,3) _ _ _ _ assms(14) b])
        (use v0 v tk assms in auto)
    with v show ?thesis by simp
  qed
qed

definition recorded_world :: "sim world" where
  \<comment> \<open>the key k is recorded with the code ab0, which is not in the table\<close>
  "recorded_world = world0 empty_db ((sim0 0)\<lparr>s_kv := [respKey (NewStore ''v1:'') ''k'' \<mapsto> (''ab0'', Some 1)]\<rparr>)"

theorem replay_of_deleted_witness:
  "\<exists>resp w'. run (handle_Create sim_platform demo_lib demo_handler
        ((demo_http ''POST'' '''' ''http://a'')\<lparr>q_Header := (\<lambda>_. ''k'')\<rparr>) Map.empty) recorded_world = (Written resp, w')
     \<and> res_Status resp = 500 \<and> db w' = empty_db"
proof -
  let ?q = "(demo_http ''POST'' '''' ''http://a'')\<lparr>q_Header := (\<lambda>_. ''k'')\<rparr>"
  let ?r = "\<lparr>req_URL = ''http://a'', req_CustomCode = [], req_ExpiresIn = []\<rparr>"
  let ?p = "handle_Create sim_platform demo_lib demo_handler ?q Map.empty"
  have par: "handler_params ?q ?r = demo_request '''' '''' ''k''" by (simp add: handler_params_def demo_request_def)
  have "(case run (createIdempotent sim_platform demo_lib demo_service (demo_request '''' '''' ''k'') ''http://a'' None) recorded_world of
      (x, v) \<Rightarrow> s_clock (ext v)) = 0" by code_simp
  then have clock: "run (service_Create sim_platform demo_lib demo_service (handler_params ?q ?r)) recorded_world = (x, v) \<Longrightarrow> s_clock (ext v) = 0" for x v
    unfolding par demo_create_keyed by simp
  obtain a w' where run: "run ?p recorded_world = (a, w')" by (cases "run ?p recorded_world")
  have dec: "json_Decode demo_lib MaxBodyBytes (q_Body ?q) = Inr ?r" by (simp add: demo_decode)
  have "store (svc demo_handler) = URLRepository sim_platform" by simp
  from this run have "s_clock (ext w') = 0"
  proof (cases rule: handle_Create_cases)
    case (body m)
    then show ?thesis by (simp add: recorded_world_def world0_def sim0_def)
  next
    case (failed r err)
    with clock dec show ?thesis by simp
  next
    case (made r res)
    with clock dec show ?thesis by simp
  qed
  moreover have "pg_text ''ab0''" by code_simp
  moreover have "lookup_url empty_db ''ab0'' = None" by code_simp
  ultimately show ?thesis
    using replay_of_deleted [OF sim.kv_server_up_axioms _ _ _ _ dec _ _ _ _ _ _ _ _ run, of "NewStore ''v1:''" "''http://a''" "''k''" "''ab0''" 1] run
    by (auto simp: recorded_world_def world0_def sim0_def sim_up_def empty_db_inv demo_valid demo_trim)
qed

end
