(* ===== verification/Rate_Limit.thy ===== *)
theory Rate_Limit
imports Http
begin

section \<open>The rate limiter\<close>

text \<open>
  \<open>internal/middleware/ratelimit.go\<close>: a counter per client address and minute in Redis.
  \<open>SplitHost\<close> is the host part of \<open>net.SplitHostPort\<close>, \<open>None\<close> where that
  returns an error. Go's integer division truncates towards zero.
\<close>

record rate_limiter =
  rl_keyBase :: string
  perMinute :: int

definition RateLimit :: "string \<Rightarrow> int \<Rightarrow> rate_limiter" where
  "RateLimit keyBase n = \<lparr>rl_keyBase = keyBase, perMinute = (if n \<le> 0 then 60 else n)\<rparr>"

definition go_div :: "int \<Rightarrow> int \<Rightarrow> int" where
  "go_div a b = (if a < 0 then - ((- a) div b) else a div b)"

definition go_mod :: "int \<Rightarrow> int \<Rightarrow> int" where
  "go_mod a b = a - b * go_div a b"

definition IndexByte :: "string \<Rightarrow> char \<Rightarrow> nat option" where
  "IndexByte s c = (let n = length (takeWhile (\<lambda>d. d \<noteq> c) s) in if n < length s then Some n else None)"

definition LastIndexByte :: "string \<Rightarrow> char \<Rightarrow> nat option" where
  "LastIndexByte s c = map_option (\<lambda>n. length s - 1 - n) (IndexByte (rev s) c)"

definition SplitHost :: "string \<Rightarrow> string option" where
  "SplitHost hp =
     (case LastIndexByte hp (CHR '':'') of
        None \<Rightarrow> None
      | Some i \<Rightarrow>
          if hd hp = CHR ''['' then
            (case IndexByte hp (CHR '']'') of
               None \<Rightarrow> None
             | Some e \<Rightarrow>
                 if e + 1 \<noteq> i then None
                 else if CHR ''['' \<in> set (drop 1 hp) \<or> CHR '']'' \<in> set (drop (e + 1) hp) then None
                 else Some (take (e - 1) (drop 1 hp)))
          else
            (let host = take i hp
             in if CHR '':'' \<in> set host then None
                else if CHR ''['' \<in> set hp \<or> CHR '']'' \<in> set hp then None
                else Some host))"

definition clientIP :: "string \<Rightarrow> string" where
  "clientIP remote = TrimSpace (case SplitHost remote of None \<Rightarrow> remote | Some host \<Rightarrow> host)"

definition rate_key :: "rate_limiter \<Rightarrow> string \<Rightarrow> int \<Rightarrow> string" where
  "rate_key rl ip window = rl_keyBase rl @ ''rl:ip:'' @ ip @ '':'' @ Itoa window"

definition allow :: "'x platform \<Rightarrow> rate_limiter \<Rightarrow> string \<Rightarrow> ('x world, goerr + bool \<times> int) prog" where
  "allow P rl remote =
     bindp (time_Now P) (\<lambda>now.
       let key = rate_key rl (clientIP remote) (go_div (unix_sec now) 60)
       in tryp (ext_act (p_incr P key)) (\<lambda>count.
            bindp (if count = 1 then bindp (ext_act (p_expire P key (61 * nano_s))) (\<lambda>_. Ret ()) else Ret ()) (\<lambda>_.
              if count > perMinute rl
              then bindp (time_Now P) (\<lambda>now2.
                     let retryAfter = 60 - go_mod (unix_sec now2) 60
                     in Ret (Inr (False, if retryAfter < 1 then 1 else retryAfter)))
              else Ret (Inr (True, 0)))))"

definition rate_limited_body :: "string \<Rightarrow> json" where
  "rate_limited_body requestID =
     JObj [(''error'', JObj [(''code'', JStr ''rate_limited''), (''message'', JStr ''too many requests''),
       (''request_id'', JStr requestID)])]"

definition rate_limit :: "'x platform \<Rightarrow> rate_limiter \<Rightarrow> 'x world handler \<Rightarrow> 'x world handler" where
  \<comment> \<open>\<open>rateLimiter.middleware\<close>\<close>
  "rate_limit P rl nxt q hs =
     bindp (allow P rl (q_RemoteAddr q)) (\<lambda>r.
       case r of
         Inl err \<Rightarrow> bindp (Inc RateLimitFailOpen) (\<lambda>_. nxt q hs)
       | Inr (allowed, retryAfter) \<Rightarrow>
           if \<not> allowed
           then respond 429 (hs(''Content-Type'' \<mapsto> ''application/json'', ''Retry-After'' \<mapsto> Itoa retryAfter))
                  (JsonBody (rate_limited_body (q_RequestID q)))
           else nxt q hs)"

end
