(* ===== verification/Credit.thy ===== *)
theory Credit
imports Prog
begin

section \<open>Accounting over pools of programs\<close>

text \<open>
  An amortised argument for programs that interleave. \<open>Phi\<close> measures the world; a program
  that holds \<open>k\<close> credits may let the measure grow by what it gives up, and must still hold
  \<open>cost a\<close> when it returns \<open>a\<close>. What all programs of a pool together have returned is
  then bounded by the drop of the measure, whatever the interleaving. \<open>I\<close> is an invariant;
  the books are kept only while \<open>G\<close> holds, and once \<open>G\<close> has failed it stays so (a time
  window that is over).
\<close>

primrec credit :: "('w \<Rightarrow> bool) \<Rightarrow> ('w \<Rightarrow> bool) \<Rightarrow> ('w \<Rightarrow> int) \<Rightarrow> ('a \<Rightarrow> int) \<Rightarrow> ('w, 'a) prog \<Rightarrow> int \<Rightarrow> bool" where
  "credit I G Phi cost (Ret a) = (\<lambda>k. cost a \<le> k)"
| "credit I G Phi cost (Act f) = (\<lambda>k. \<forall>w. I w \<longrightarrow>
     (\<lambda>(c, w'). I w' \<and> (G w' \<longrightarrow> G w) \<and> (\<exists>k'. 0 \<le> k' \<and> c k' \<and> (G w' \<longrightarrow> Phi w' + k' \<le> Phi w + k)))
       (map_prod (credit I G Phi cost) id (f w)))"

lemma credit_Act: "credit I G Phi cost (Act f) k \<longleftrightarrow>
    (\<forall>w p w'. I w \<longrightarrow> f w = (p, w') \<longrightarrow> I w' \<and> (G w' \<longrightarrow> G w)
       \<and> (\<exists>k'. 0 \<le> k' \<and> credit I G Phi cost p k' \<and> (G w' \<longrightarrow> Phi w' + k' \<le> Phi w + k)))"
  unfolding credit.simps case_prod_beta fst_map_prod snd_map_prod id_apply
  by (metis prod.collapse fst_conv snd_conv)

declare credit.simps(2) [simp del]

lemma credit_ActD:
  assumes "credit I G Phi cost (Act f) k" "I w" "f w = (p, w')"
  obtains k' where "I w'" "G w' \<Longrightarrow> G w" "0 \<le> k'" "credit I G Phi cost p k'" "G w' \<Longrightarrow> Phi w' + k' \<le> Phi w + k"
  using assms unfolding credit_Act by blast

lemma credit_mono: "credit I G Phi cost p k \<Longrightarrow> k \<le> m \<Longrightarrow> credit I G Phi cost p m"
proof (cases p)
  case (Act f)
  assume c: "credit I G Phi cost p k" and km: "k \<le> m"
  show ?thesis unfolding Act credit_Act
  proof (intro allI impI)
    fix w q w'
    assume I: "I w" and f: "f w = (q, w')"
    obtain k' where "I w'" "G w' \<longrightarrow> G w" "0 \<le> k'" "credit I G Phi cost q k'" "G w' \<longrightarrow> Phi w' + k' \<le> Phi w + k"
      using credit_ActD [OF c [unfolded Act] I f] by metis
    with km show "I w' \<and> (G w' \<longrightarrow> G w) \<and> (\<exists>k'. 0 \<le> k' \<and> credit I G Phi cost q k' \<and> (G w' \<longrightarrow> Phi w' + k' \<le> Phi w + m))"
      by (auto intro!: exI [of _ k'])
  qed
qed auto

lemma credit_Ret: "cost a \<le> k \<Longrightarrow> credit I G Phi cost (Ret a) k"
  by simp

lemma credit_act:
  fixes I :: "'w \<Rightarrow> bool" and cost :: "'a \<Rightarrow> int"
  assumes "\<And>w a w'. I w \<Longrightarrow> g w = (a, w') \<Longrightarrow>
      I w' \<and> (G w' \<longrightarrow> G w) \<and> 0 \<le> cost a \<and> (G w' \<longrightarrow> Phi w' + cost a \<le> Phi w + k)"
  shows "credit I G Phi cost (act g) k"
  unfolding act_def credit_Act
proof (intro allI impI)
  fix w w' :: 'w and p :: "('w, 'a) prog"
  assume I: "I w" and f: "(case g w of (a, w') \<Rightarrow> (Ret a, w')) = (p, w')"
  then obtain a where "g w = (a, w')" "p = Ret a" by (cases "g w") auto
  with assms [OF I this(1)] show "I w' \<and> (G w' \<longrightarrow> G w)
      \<and> (\<exists>k'. 0 \<le> k' \<and> credit I G Phi cost p k' \<and> (G w' \<longrightarrow> Phi w' + k' \<le> Phi w + k))"
    by (intro conjI exI [of _ "cost a"]) auto
qed

lemma credit_bindp:
  "credit I G Phi mid m k \<Longrightarrow> (\<And>a. credit I G Phi cost (h a) (mid a)) \<Longrightarrow> credit I G Phi cost (bindp m h) k"
proof (induction m arbitrary: k)
  case (Ret a)
  then show ?case by (auto intro: credit_mono)
next
  case (Act f)
  show ?case unfolding bindp.simps credit_Act
  proof (intro allI impI)
    fix w p w'
    assume I: "I w" and f: "(map_prod (\<lambda>p. bindp p h) id \<circ> f) w = (p, w')"
    obtain q v where q: "f w = (q, v)" by (cases "f w")
    then have r: "(q, v) \<in> range f" by (metis rangeI)
    obtain k' where k: "I v" "G v \<longrightarrow> G w" "0 \<le> k'" "credit I G Phi mid q k'" "G v \<longrightarrow> Phi v + k' \<le> Phi w + k"
      using credit_ActD [OF Act.prems(1) I q] by metis
    from Act.IH [OF r _ k(4) Act.prems(2)] have "credit I G Phi cost (bindp q h) k'" by simp
    with k f q show "I w' \<and> (G w' \<longrightarrow> G w)
        \<and> (\<exists>k'. 0 \<le> k' \<and> credit I G Phi cost p k' \<and> (G w' \<longrightarrow> Phi w' + k' \<le> Phi w + k))"
      by (intro conjI exI [of _ k']) auto
  qed
qed

lemma credit_tryp:
  assumes "credit I G Phi mid m k" "\<And>e. cost (Inl e) \<le> mid (Inl e)" "\<And>a. credit I G Phi cost (h a) (mid (Inr a))"
  shows "credit I G Phi cost (tryp m h) k"
  unfolding tryp_def by (rule credit_bindp [OF assms(1)]) (auto split: sum.split simp: assms(2,3))

subsection \<open>Pools\<close>

definition pool_credit ::
  "('w \<Rightarrow> bool) \<Rightarrow> ('w \<Rightarrow> bool) \<Rightarrow> ('w \<Rightarrow> int) \<Rightarrow> (nat \<Rightarrow> 'a \<Rightarrow> int) \<Rightarrow> ('w, 'a) pool \<Rightarrow> int list \<Rightarrow> bool" where
  "pool_credit I G Phi cost c ks \<longleftrightarrow> I (fst c) \<and> length ks = length (snd c)
     \<and> (\<forall>i < length (snd c). 0 \<le> ks ! i \<and> credit I G Phi (cost i) (snd c ! i) (ks ! i))"

lemma sum_list_update_le:
  "i < length ks \<Longrightarrow> sum_list (ks[i := k]) = sum_list ks - ks ! i + (k :: int)"
  by (induction ks arbitrary: i) (auto split: nat.splits simp: nth_Cons')

lemma pstep_credit:
  "pstep c d \<Longrightarrow> pool_credit I G Phi cost c ks \<Longrightarrow>
     \<exists>ks'. pool_credit I G Phi cost d ks' \<and> (G (fst d) \<longrightarrow> G (fst c) \<and> Phi (fst d) + sum_list ks' \<le> Phi (fst c) + sum_list ks)"
proof (induction rule: pstep.induct)
  case (move i ps f w p w')
  from move.prems move.hyps(1,2) have I: "I w" and c: "credit I G Phi (cost i) (Act f) (ks ! i)" and len: "length ks = length ps"
    by (auto simp: pool_credit_def dest!: spec [of _ i])
  obtain k' where k: "I w'" "G w' \<longrightarrow> G w" "0 \<le> k'" "credit I G Phi (cost i) p k'" "G w' \<longrightarrow> Phi w' + k' \<le> Phi w + ks ! i"
    using credit_ActD [OF c I move.hyps(3)] by metis
  have "pool_credit I G Phi cost (w', ps[i := p]) (ks[i := k'])"
    using move.prems k len move.hyps(1) by (simp add: pool_credit_def nth_list_update)
  with k len move.hyps(1) show ?case by (intro exI [of _ "ks[i := k']"]) (auto simp: sum_list_update_le)
qed

lemma psteps_credit:
  "pstep\<^sup>*\<^sup>* c d \<Longrightarrow> pool_credit I G Phi cost c ks \<Longrightarrow>
     \<exists>ks'. pool_credit I G Phi cost d ks' \<and> (G (fst d) \<longrightarrow> G (fst c) \<and> Phi (fst d) + sum_list ks' \<le> Phi (fst c) + sum_list ks)"
proof (induction rule: rtranclp_induct)
  case base
  then show ?case by blast
next
  case (step d e)
  then obtain ks1 where 1: "pool_credit I G Phi cost d ks1"
    "G (fst d) \<longrightarrow> G (fst c) \<and> Phi (fst d) + sum_list ks1 \<le> Phi (fst c) + sum_list ks" by blast
  obtain ks2 where "pool_credit I G Phi cost e ks2"
    "G (fst e) \<longrightarrow> G (fst d) \<and> Phi (fst e) + sum_list ks2 \<le> Phi (fst d) + sum_list ks1"
    using pstep_credit [OF step.hyps(2) 1(1)] by blast
  with 1 show ?case by fastforce
qed

text \<open>What the finished programs of a pool have returned, at the price \<open>cost\<close>.\<close>

definition spent :: "(nat \<Rightarrow> 'a \<Rightarrow> int) \<Rightarrow> ('w, 'a) prog list \<Rightarrow> int" where
  "spent cost ps = (\<Sum>i < length ps. case ps ! i of Ret a \<Rightarrow> cost i a | Act f \<Rightarrow> 0)"

lemma spent_credit:
  assumes "pool_credit I G Phi cost (w, ps) ks"
  shows "spent cost ps \<le> sum_list ks"
proof -
  have "(case ps ! i of Ret a \<Rightarrow> cost i a | Act f \<Rightarrow> 0) \<le> ks ! i" if "i < length ps" for i
    using assms that by (cases "ps ! i") (auto simp: pool_credit_def dest!: spec [of _ i])
  then have "spent cost ps \<le> (\<Sum>i < length ps. ks ! i)" unfolding spent_def by (intro sum_mono) auto
  also have "\<dots> = sum_list ks" using assms by (simp add: pool_credit_def sum_list_sum_nth atLeast0LessThan)
  finally show ?thesis .
qed

lemma pool_spent:
  assumes "pstep\<^sup>*\<^sup>* (w, ps) (w', ps')" "I w" "\<And>i. i < length ps \<Longrightarrow> credit I G Phi (cost i) (ps ! i) 0" "G w'"
  shows "I w' \<and> Phi w' + spent cost ps' \<le> Phi w"
proof -
  have c: "pool_credit I G Phi cost (w, ps) (replicate (length ps) 0)"
    using assms(2,3) by (simp add: pool_credit_def)
  from psteps_credit [OF assms(1) c] assms(4) obtain ks where ks: "pool_credit I G Phi cost (w', ps') ks"
    "Phi w' + sum_list ks \<le> Phi w" by (auto simp: sum_list_replicate)
  with spent_credit [OF ks(1)] show ?thesis by (auto simp: pool_credit_def)
qed

end
