(* ===== verification/Rate_Props.thy ===== *)
theory Rate_Props
imports Rate_Limit Credit Service_Sim
begin

section \<open>Properties of the rate limiter\<close>

text \<open>
  The counter key of one address and minute, and the books kept on it: each request that is let
  through has raised the counter by one, so no more than \<open>perMinute\<close> get through, however
  the requests interleave and whatever Redis refuses.
\<close>

lemma ParseInt_Itoa_dest: "ParseInt (Itoa n) = Some k \<Longrightarrow> 0 \<le> n \<Longrightarrow> k = n"
proof -
  assume p: "ParseInt (Itoa n) = Some k" and n: "0 \<le> n"
  have "hd (nat_text (nat n)) \<noteq> CHR ''-''" "hd (nat_text (nat n)) \<noteq> CHR ''+''"
    using nat_text_digits [of "nat n"] nat_text_nonempty [of "nat n"]
    by (cases "nat_text (nat n)"; auto simp: is_digit_def byte_def)+
  with p n show ?thesis by (auto simp: ParseInt_def Itoa_def Let_def nat_text_val split: if_splits)
qed

lemma dec_val_Itoa: "0 \<le> n \<Longrightarrow> dec_val (Itoa n) = n"
  by (simp add: Itoa_def nat_text_val)

text \<open>The number in a counter key, and the shape the limiter gives its keys.\<close>

definition counted :: "(string \<times> time option) option \<Rightarrow> int" where
  "counted e = (case e of None \<Rightarrow> 0 | Some (v, dl) \<Rightarrow> dec_val v)"

definition counter_ok :: "time \<Rightarrow> (string \<times> time option) option \<Rightarrow> bool" where
  "counter_ok hi e \<longleftrightarrow> (case e of None \<Rightarrow> True
     | Some (v, dl) \<Rightarrow> (\<exists>n. 1 \<le> n \<and> v = Itoa n) \<and> (case dl of None \<Rightarrow> True | Some t \<Rightarrow> hi \<le> t))"

lemma counted_nonneg: "counter_ok hi e \<Longrightarrow> 0 \<le> counted e"
  by (auto simp: counter_ok_def counted_def dec_val_Itoa split: option.splits)

lemma counter_live: "counter_ok hi (m k) \<Longrightarrow> t < hi \<Longrightarrow> live m t k = map_option fst (m k)"
  by (auto simp: counter_ok_def live_def split: option.splits)

lemma counter_incremented:
  assumes "counter_ok hi (m k)" "incremented m t k n m'"
  shows "counter_ok hi (m' k) \<and> (t < hi \<longrightarrow> counted (m' k) = counted (m k) + 1 \<and> n = counted (m' k))"
proof (cases "live m t k")
  case None
  with assms show ?thesis
    using counter_live [where m = m and k = k and t = t, OF assms(1)]
    by (auto simp: incremented_def counter_ok_def counted_def dec_val_Itoa split: option.splits)
next
  case (Some v)
  then obtain dl where v: "m k = Some (v, dl)" by (auto dest: live_Some_raw)
  with assms(1) obtain c where c: "1 \<le> c" "v = Itoa c" by (auto simp: counter_ok_def)
  with assms(2) Some have "ParseInt (Itoa c) = Some (n - 1)" "m' = m(k \<mapsto> (Itoa n, dl))"
    by (auto simp: incremented_def v)
  moreover from ParseInt_Itoa_dest [OF this(1)] c(1) have n: "n = c + 1" by simp
  moreover have "\<exists>j\<ge>1. Itoa (c + 1) = Itoa j" using c(1) by (intro exI [of _ "c + 1"]) simp
  ultimately show ?thesis using c assms(1) v
    by (auto simp: counter_ok_def counted_def dec_val_Itoa)
qed

lemma counter_incr_runs:
  assumes "incr_runs m lo t k n m'" "counter_ok hi (m k)"
  shows "counter_ok hi (m' k) \<and> (t < hi \<longrightarrow> counted (m k) < counted (m' k) \<and> n = counted (m' k))"
  using assms
proof (induction rule: incr_runs.induct)
  case (once t u t' m k n m')
  with counter_incremented [OF once.prems once.hyps(3)] show ?case by auto
next
  case (again t u t' m k j m1 n m')
  with counter_incremented [OF again.prems again.hyps(3)] show ?case by auto
qed

lemma counter_deadline:
  assumes "counter_ok hi (m k)" "deadline_set m k ttl t t' m'" "hi \<le> t + ttl"
  shows "counter_ok hi (m' k) \<and> counted (m' k) = counted (m k)"
  using assms by (auto simp: deadline_set_def counter_ok_def counted_def dest!: live_Some_raw)

text \<open>The minute with the given number, as instants.\<close>

definition minute_start :: "int \<Rightarrow> time" where
  "minute_start n = n * 60 * nano_s"

lemma window_number: "0 \<le> n \<Longrightarrow> minute_start n \<le> t \<Longrightarrow> t < minute_start (n + 1) \<Longrightarrow> go_div (unix_sec t) 60 = n"
proof -
  assume n: "0 \<le> n" and t: "minute_start n \<le> t" "t < minute_start (n + 1)"
  have s: "n * 60 \<le> unix_sec t" "unix_sec t < n * 60 + 60"
    using t by (auto simp: unix_sec_def minute_start_def nano_s_def)
  then have "unix_sec t div 60 = n" by auto
  with s n show ?thesis by (simp add: go_div_def)
qed

definition was_allowed :: "goerr + bool \<times> int \<Rightarrow> bool" where
  "was_allowed r \<longleftrightarrow> (case r of Inl err \<Rightarrow> False | Inr (b, x) \<Rightarrow> b)"

context kv_server begin

definition rate_inv :: "string \<Rightarrow> int \<Rightarrow> 'x world \<Rightarrow> bool" where
  "rate_inv k n w \<longleftrightarrow> minute_start n \<le> tick (ext w) \<and> counter_ok (minute_start (n + 1)) (raw (ext w) k)"

definition rate_open :: "int \<Rightarrow> 'x world \<Rightarrow> bool" where
  "rate_open n w \<longleftrightarrow> tick (ext w) < minute_start (n + 1)"

definition rate_left :: "string \<Rightarrow> int \<Rightarrow> 'x world \<Rightarrow> int" where
  "rate_left k pm w = - min (counted (raw (ext w) k)) pm"

lemmas rate_defs = rate_inv_def rate_open_def rate_left_def

lemma credit_now:
  assumes "\<And>t. 0 \<le> c t" "\<And>t. minute_start n \<le> t \<Longrightarrow> t < minute_start (n + 1) \<Longrightarrow> c t \<le> k"
  shows "credit (rate_inv K n) (rate_open n) (rate_left K pm) c (time_Now P) k"
  unfolding act_defs ext_act_def
proof (rule credit_act)
  fix w :: "'x world" and a w'
  assume I: "rate_inv K n w" and r: "(case p_now P (ext w) of (r, x) \<Rightarrow> (r, w\<lparr>ext := x\<rparr>)) = (a, w')"
  obtain x where x: "p_now P (ext w) = (a, x)" "w' = w\<lparr>ext := x\<rparr>" using r by (cases "p_now P (ext w)") auto
  from now_law [OF x(1)] I assms x(2)
  show "rate_inv K n w' \<and> (rate_open n w' \<longrightarrow> rate_open n w) \<and> 0 \<le> c a
      \<and> (rate_open n w' \<longrightarrow> rate_left K pm w' + c a \<le> rate_left K pm w + k)"
    by (auto simp: rate_defs)
qed

lemma credit_expire:
  assumes "0 \<le> k"
  shows "credit (rate_inv K n) (rate_open n) (rate_left K pm) (\<lambda>_. k) (ext_act (p_expire P key (61 * nano_s))) k"
  unfolding ext_act_def
proof (rule credit_act)
  fix w :: "'x world" and a w'
  assume I: "rate_inv K n w" and r: "(case p_expire P key (61 * nano_s) (ext w) of (r, x) \<Rightarrow> (r, w\<lparr>ext := x\<rparr>)) = (a, w')"
  obtain x where x: "p_expire P key (61 * nano_s) (ext w) = (a, x)" "w' = w\<lparr>ext := x\<rparr>"
    using r by (cases "p_expire P key (61 * nano_s) (ext w)") auto
  note law = expire_law [OF x(1)]
  have hi: "minute_start (n + 1) \<le> tick (ext w) + 61 * nano_s"
    using I by (simp add: rate_inv_def minute_start_def nano_s_def)
  have "counter_ok (minute_start (n + 1)) (raw x K) \<and> counted (raw x K) = counted (raw (ext w) K)"
  proof (cases "K = key")
    case True
    with law I counter_deadline [OF _ _ hi] show ?thesis by (auto simp: rate_inv_def)
  next
    case False
    with law have "raw x K = raw (ext w) K" by auto
    with I show ?thesis by (simp add: rate_inv_def counted_def)
  qed
  with law I assms x(2)
  show "rate_inv K n w' \<and> (rate_open n w' \<longrightarrow> rate_open n w) \<and> 0 \<le> k
      \<and> (rate_open n w' \<longrightarrow> rate_left K pm w' + k \<le> rate_left K pm w + k)"
    by (auto simp: rate_defs)
qed

text \<open>An INCR of any key; of the key on the books, the answer pays for one request.\<close>

lemma credit_incr:
  fixes b k :: int
  assumes "0 \<le> b" "b \<le> 1" "0 \<le> k" "key = K \<or> b \<le> k"
  shows "credit (rate_inv K n) (rate_open n) (rate_left K pm)
     (\<lambda>r :: goerr + int. case r of Inl err \<Rightarrow> 0 | Inr c \<Rightarrow> if c \<le> pm then b else 0) (ext_act (p_incr P key)) k"
  unfolding ext_act_def
proof (rule credit_act)
  fix w w' :: "'x world" and a :: "goerr + int"
  let ?c = "case a of Inl err \<Rightarrow> 0 | Inr c \<Rightarrow> if c \<le> pm then b else 0"
  assume I: "rate_inv K n w" and r: "(case p_incr P key (ext w) of (r, x) \<Rightarrow> (r, w\<lparr>ext := x\<rparr>)) = (a, w')"
  obtain x where x: "p_incr P key (ext w) = (a, x)" "w' = w\<lparr>ext := x\<rparr>" using r by (cases "p_incr P key (ext w)") auto
  note law = incr_law [OF x(1)]
  have ok: "counter_ok (minute_start (n + 1)) (raw (ext w) K)" using I by (simp add: rate_inv_def)
  have "counter_ok (minute_start (n + 1)) (raw x K) \<and> (tick x < minute_start (n + 1) \<longrightarrow>
      (if \<exists>c. a = Inr c \<and> key = K then counted (raw (ext w) K) < counted (raw x K) \<and> a = Inr (counted (raw x K))
       else counted (raw (ext w) K) \<le> counted (raw x K)))"
  proof (cases "key = K")
    case True
    note runs = counter_incr_runs [where m = "raw (ext w)" and k = K, OF _ ok]
    show ?thesis
    proof (cases a)
      case (Inl e)
      with law True consider "raw x = raw (ext w)" | j where "incr_runs (raw (ext w)) (tick (ext w)) (tick x) K j (raw x)" by auto
      then show ?thesis using ok Inl runs by cases (simp_all, metis less_imp_le)
    next
      case (Inr c)
      with law True runs [of "tick (ext w)" "tick x" c "raw x"] show ?thesis by simp
    qed
  next
    case False
    with law have "raw x K = raw (ext w) K" by auto
    with ok False show ?thesis by (simp add: counted_def)
  qed
  with law I assms x(2) counted_nonneg [OF ok]
  show "rate_inv K n w' \<and> (rate_open n w' \<longrightarrow> rate_open n w) \<and> 0 \<le> ?c
      \<and> (rate_open n w' \<longrightarrow> rate_left K pm w' + ?c \<le> rate_left K pm w + k)"
    by (auto simp: rate_defs split: sum.splits if_splits)
qed

lemma credit_allow:
  assumes n: "0 \<le> n" and b: "b = (if clientIP remote = ip then 1 else 0)"
  shows "credit (rate_inv (rate_key rl ip n) n) (rate_open n) (rate_left (rate_key rl ip n) (perMinute rl))
     (\<lambda>r. if was_allowed r then b else 0) (allow P rl remote) 0"
proof -
  let ?cr = "\<lambda>c p k. credit (rate_inv (rate_key rl ip n) n) (rate_open n) (rate_left (rate_key rl ip n) (perMinute rl)) c p k"
  let ?in = "\<lambda>t. minute_start n \<le> t \<and> t < minute_start (n + 1)"
  let ?cost = "\<lambda>r. if was_allowed r then b else 0"
  have b01: "0 \<le> b" "b \<le> 1" using b by auto
  have answer: "?cr ?cost (if count > perMinute rl
        then bindp (time_Now P) (\<lambda>now2. let retryAfter = 60 - go_mod (unix_sec now2) 60
             in Ret (Inr (False, if retryAfter < 1 then 1 else retryAfter)))
        else Ret (Inr (True, 0))) (if count \<le> perMinute rl then b else 0)" for count
  proof (cases "count > perMinute rl")
    case True
    have "?cr (\<lambda>_. 0) (time_Now P) 0" by (rule credit_now) auto
    have "?cr ?cost (bindp (time_Now P) (\<lambda>now2. Ret (Inr (False, x now2)))) 0" for x :: "time \<Rightarrow> int"
      by (rule credit_bindp [OF \<open>?cr (\<lambda>_. 0) (time_Now P) 0\<close>]) (simp add: was_allowed_def)
    with True show ?thesis by (simp add: Let_def)
  qed (simp add: was_allowed_def)
  have first: "?cr (\<lambda>_. k) (if count = 1 then bindp (ext_act (p_expire P key (61 * nano_s))) (\<lambda>_. Ret ()) else Ret ()) k"
    if "0 \<le> k" for k key and count :: int
    using credit_bindp [OF credit_expire [OF that], where cost = "\<lambda>_. k" and h = "\<lambda>_. Ret ()"] by simp
  have rest: "?cr ?cost (tryp (ext_act (p_incr P key)) (\<lambda>count.
      bindp (if count = 1 then bindp (ext_act (p_expire P key (61 * nano_s))) (\<lambda>_. Ret ()) else Ret ()) (\<lambda>_.
        if count > perMinute rl
        then bindp (time_Now P) (\<lambda>now2. let retryAfter = 60 - go_mod (unix_sec now2) 60
             in Ret (Inr (False, if retryAfter < 1 then 1 else retryAfter)))
        else Ret (Inr (True, 0))))) k"
    if "0 \<le> k" "key = rate_key rl ip n \<or> b \<le> k" for key k
  proof (rule credit_tryp [OF credit_incr [OF b01 that, where pm = "perMinute rl"]], goal_cases)
    case (2 a)
    show ?case unfolding sum.case by (rule credit_bindp [OF first answer]) (use b01 in auto)
  qed (simp add: was_allowed_def)
  have key: "?in t \<Longrightarrow> rate_key rl (clientIP remote) (go_div (unix_sec t) 60) = rate_key rl ip n \<or> b \<le> 0" for t
    using window_number [OF n] b by auto
  show ?thesis unfolding allow_def Let_def
  proof (rule credit_bindp [where mid = "\<lambda>t. if ?in t then 0 else b"])
    show "?cr (\<lambda>t. if ?in t then 0 else b) (time_Now P) 0" by (rule credit_now) (use b01 in auto)
    show "?cr ?cost (tryp (ext_act (p_incr P (rate_key rl (clientIP remote) (go_div (unix_sec t) 60)))) (\<lambda>count.
      bindp (if count = 1 then bindp (ext_act (p_expire P (rate_key rl (clientIP remote) (go_div (unix_sec t) 60)) (61 * nano_s))) (\<lambda>_. Ret ()) else Ret ()) (\<lambda>_.
        if count > perMinute rl
        then bindp (time_Now P) (\<lambda>now2. Ret (Inr (False, if 60 - go_mod (unix_sec now2) 60 < 1 then 1 else 60 - go_mod (unix_sec now2) 60)))
        else Ret (Inr (True, 0))))) (if ?in t then 0 else b)" for t
      by (rule rest [unfolded Let_def]) (use key [of t] b01 in auto)
  qed
qed

end

text \<open>C13: In one minute no more than the configured number of requests of one client address are let through by the limiter, however many requests of this and other addresses interleave, and whichever Redis commands fail: the requests run in the pool between the minute's start and its end, and the address had no counter for that minute before. (Requests whose INCR failed are not counted here; they fail open.)\<close>

theorem rate_limit_per_minute:
  assumes "kv_server P raw tick" "0 \<le> n" "0 < perMinute rl"
    and "pstep\<^sup>*\<^sup>* (w, map (allow P rl) remotes) (w', ps)"
    and "minute_start n \<le> tick (ext w)" "tick (ext w') < minute_start (n + 1)"
    and "raw (ext w) (rate_key rl ip n) = None"
  shows "int (card {i. i < length remotes \<and> clientIP (remotes ! i) = ip \<and> (\<exists>x. ps ! i = Ret (Inr (True, x)))}) \<le> perMinute rl"
proof -
  let ?K = "rate_key rl ip n"
  let ?b = "\<lambda>i. if clientIP (remotes ! i) = ip then 1 else 0 :: int"
  let ?cost = "\<lambda>i r. if was_allowed r then ?b i else 0"
  have len: "length ps = length remotes" using psteps_length [OF assms(4)] by simp
  have inv: "kv_server.rate_inv raw tick ?K n w"
    using assms(5,7) by (simp add: kv_server.rate_inv_def [OF assms(1)] counter_ok_def)
  have each: "credit (kv_server.rate_inv raw tick ?K n) (kv_server.rate_open tick n) (kv_server.rate_left raw ?K (perMinute rl))
      (?cost i) (map (allow P rl) remotes ! i) 0" if "i < length (map (allow P rl) remotes)" for i
    using that kv_server.credit_allow [OF assms(1,2), of "?b i" "remotes ! i" ip rl] by simp
  have "kv_server.rate_open tick n w'" using assms(6) by (simp add: kv_server.rate_open_def [OF assms(1)])
  from pool_spent [OF assms(4) inv each this] assms(3,7) have "spent ?cost ps \<le> perMinute rl"
    by (auto simp: kv_server.rate_left_def [OF assms(1)] counted_def)
  moreover have "spent ?cost ps = int (card {i. i < length remotes \<and> clientIP (remotes ! i) = ip \<and> (\<exists>x. ps ! i = Ret (Inr (True, x)))})"
  proof -
    have "(case ps ! i of Ret a \<Rightarrow> ?cost i a | Act f \<Rightarrow> 0)
        = (if clientIP (remotes ! i) = ip \<and> (\<exists>x. ps ! i = Ret (Inr (True, x))) then 1 else 0)" for i
      by (auto simp: was_allowed_def split: prog.split sum.split)
    then show ?thesis unfolding spent_def len by (simp add: sum.If_cases Int_def)
  qed
  ultimately show ?thesis by simp
qed

definition demo_limiter :: rate_limiter where
  "demo_limiter = RateLimit ''v1:'' 1"

definition demo_limited_world :: "sim world" where
  "demo_limited_world = \<lparr>db = empty_db, ext = sim0 0, counters = (\<lambda>_. 0), buffer = []\<rparr>"

theorem rate_limit_per_minute_witness:
  "\<exists>w'. pstep\<^sup>*\<^sup>* (demo_limited_world, map (allow sim_platform demo_limiter) [''10.0.0.1:1'', ''10.0.0.1:2''])
       (w', [Ret (Inr (True, 0)), Ret (Inr (False, 60))])
     \<and> card {i. i < length [''10.0.0.1:1'', ''10.0.0.1:2''] \<and> clientIP ([''10.0.0.1:1'', ''10.0.0.1:2''] ! i) = ''10.0.0.1''
          \<and> (\<exists>x. [Ret (Inr (True, 0)), Ret (Inr (False, 60))] ! i = (Ret (Inr (True, x)) :: (sim world, goerr + bool \<times> int) prog))} \<le> 1"
proof -
  let ?c = "(demo_limited_world, map (allow sim_platform demo_limiter) [''10.0.0.1:1'', ''10.0.0.1:2''])"
  let ?d = "sched (replicate 4 0 @ replicate 4 1) ?c"
  have "(case ?d of (v, ps) \<Rightarrow> (map returned ps, s_clock (ext v))) = ([Some (Inr (True, 0)), Some (Inr (False, 60))], 0)"
    by code_simp
  then have d: "snd ?d = [Ret (Inr (True, 0)), Ret (Inr (False, 60))]" "s_clock (ext (fst ?d)) = 0"
    by (auto simp: map_eq_Cons_conv case_prod_beta)
  from sched_reaches [OF d(1)] have steps: "pstep\<^sup>*\<^sup>* ?c (fst ?d, [Ret (Inr (True, 0)), Ret (Inr (False, 60))])" .
  have "perMinute demo_limiter = 1" by (simp add: demo_limiter_def RateLimit_def)
  with rate_limit_per_minute [OF sim_law _ _ steps, of 0 "''10.0.0.1''"] d(2) steps show ?thesis
    by (auto simp: demo_limited_world_def sim0_def minute_start_def nano_s_def)
qed

subsection \<open>The answers of the limiter\<close>

lemma go_mod_minute: "0 \<le> s \<Longrightarrow> 0 \<le> go_mod s 60 \<and> go_mod s 60 < 60"
  by (simp add: go_mod_def go_div_def minus_mult_div_eq_mod)

context kv_server begin

lemma allow_safe:
  "safe (\<lambda>v. db v = d \<and> 0 \<le> tick (ext v)) (\<lambda>r. \<forall>s. r = Inr (False, s) \<longrightarrow> 1 \<le> s \<and> s \<le> 60) (allow P rl remote)"
proof -
  let ?I = "\<lambda>v :: 'x world. db v = d \<and> 0 \<le> tick (ext v)"
  have now: "safe ?I (\<lambda>t. 0 \<le> t) (time_Now P)"
    unfolding act_defs by (rule safe_ext_act) (auto dest!: now_law)
  have incr: "safe ?I (\<lambda>_. True) (ext_act (p_incr P k))" for k
    by (rule safe_ext_act) (auto dest!: incr_law)
  have expire: "safe ?I (\<lambda>_. True) (ext_act (p_expire P k ttl))" for k ttl
    by (rule safe_ext_act) (auto dest!: expire_law)
  have retry: "0 \<le> t \<Longrightarrow> 0 \<le> go_mod (unix_sec t) 60" for t
    using go_mod_minute [of "unix_sec t"] by (simp add: unix_sec_def nano_s_def pos_imp_zdiv_nonneg_iff)
  have answer: "safe ?I (\<lambda>r. \<forall>s. r = Inr (False, s) \<longrightarrow> 1 \<le> s \<and> s \<le> 60)
     (bindp (time_Now P) (\<lambda>now2. let retryAfter = 60 - go_mod (unix_sec now2) 60
             in Ret (Inr (False, if retryAfter < 1 then 1 else retryAfter))))"
    by (rule safe_bindp [OF now]) (auto simp: Let_def dest: retry)
  have step: "safe ?I (\<lambda>_. True) (if c = 1 then bindp (ext_act (p_expire P k ttl)) (\<lambda>_. Ret ()) else Ret ())" for c :: int and k ttl
    by (simp add: safe_bindp [OF expire])
  have last: "safe ?I (\<lambda>r. \<forall>s. r = Inr (False, s) \<longrightarrow> 1 \<le> s \<and> s \<le> 60) (if b then p else Ret (Inr (True, 0)))"
    if "safe ?I (\<lambda>r. \<forall>s. r = Inr (False, s) \<longrightarrow> 1 \<le> s \<and> s \<le> 60) p" for b :: bool and p :: "('x world, goerr + bool \<times> int) prog"
    using that by simp
  show ?thesis unfolding allow_def
    by (rule safe_bindp [OF now], simp only: Let_def, rule safe_tryp [OF incr _ safe_bindp [OF step]], simp)
      (rule last, rule answer [unfolded Let_def])
qed

end

text \<open>The limiter either answers 429 itself, with a Retry-After between 1 and 60 seconds, or hands the request to the next handler unchanged: when the counter is within the limit, and also when INCR fails, which is counted. Its own steps change no row.\<close>

theorem rate_limit_response:
  assumes "kv_server P raw tick" "0 \<le> tick (ext w)" "run (rate_limit P rl nxt q hs) w = (a, w')"
  shows "\<exists>r v. run (allow P rl (q_RemoteAddr q)) w = (r, v) \<and> db v = db w
    \<and> (case r of
         Inl err \<Rightarrow> run (nxt q hs) (inc_metric RateLimitFailOpen v) = (a, w')
       | Inr (ok, s) \<Rightarrow>
           if ok then run (nxt q hs) v = (a, w')
           else w' = v \<and> 1 \<le> s \<and> s \<le> 60 \<and> (\<exists>resp. a = Written resp \<and> res_Status resp = 429
             \<and> res_Header resp ''Retry-After'' = Some (Itoa s)
             \<and> res_Body resp = JsonBody (rate_limited_body (q_RequestID q))))"
proof -
  obtain r v where r: "run (allow P rl (q_RemoteAddr q)) w = (r, v)" by (cases "run (allow P rl (q_RemoteAddr q)) w")
  from safe_run [OF kv_server.allow_safe [OF assms(1)] _ r, of "db w"] assms(2)
  have "db v = db w \<and> (\<forall>s. r = Inr (False, s) \<longrightarrow> 1 \<le> s \<and> s \<le> 60)" by blast
  with r assms(3) show ?thesis
    by (intro exI [of _ r] exI [of _ v])
      (auto simp: rate_limit_def run_simps respond_def split: sum.splits prod.splits if_splits)
qed

theorem rate_limit_response_witness:
  "\<exists>resp w'. run (rate_limit sim_platform demo_limiter Health \<lparr>q_Method = ''GET'', q_Path = ''/health'', q_RemoteAddr = ''10.0.0.1:5'',
        q_Header = (\<lambda>_. ''''), q_Body = '''', q_URLParam = '''', q_RequestID = ''r1''\<rparr> Map.empty)
      (demo_limited_world\<lparr>ext := (sim0 0)\<lparr>s_kv := [''v1:rl:ip:10.0.0.1:0'' \<mapsto> (''1'', None)]\<rparr>\<rparr>) = (Written resp, w')
     \<and> res_Status resp = 429 \<and> res_Header resp ''Retry-After'' = Some ''60''"
proof -
  let ?q = "\<lparr>q_Method = ''GET'', q_Path = ''/health'', q_RemoteAddr = ''10.0.0.1:5'',
        q_Header = (\<lambda>_. ''''), q_Body = '''', q_URLParam = '''', q_RequestID = ''r1''\<rparr>"
  let ?w = "demo_limited_world\<lparr>ext := (sim0 0)\<lparr>s_kv := [''v1:rl:ip:10.0.0.1:0'' \<mapsto> (''1'', None)]\<rparr>\<rparr>"
  obtain a w' where r: "run (rate_limit sim_platform demo_limiter Health ?q Map.empty) ?w = (a, w')"
    by (cases "run (rate_limit sim_platform demo_limiter Health ?q Map.empty) ?w")
  have "fst (run (allow sim_platform demo_limiter ''10.0.0.1:5'') ?w) = Inr (False, 60)" "Itoa 60 = ''60''" by code_simp+
  moreover have "0 \<le> s_clock (ext ?w)" by (simp add: sim0_def)
  ultimately show ?thesis using rate_limit_response [OF sim_law _ r] r by auto
qed

end
