(* ===== verification/Recorder_Props.thy ===== *)
theory Recorder_Props
imports Recorder Service_Sim
begin

section \<open>Properties of the recorder\<close>

text \<open>
  The goroutine of the recorder empties the channel: each turn takes the oldest event and sends
  it to the stream once, and the outcome is counted.
\<close>

lemma publish_run:
  assumes "run (publish P r e) w = (a, w')"
  shows "buffer w' = buffer w \<and> db w' = db w
    \<and> counters w' EventsPublished + counters w' EventsFailed = Suc (counters w EventsPublished + counters w EventsFailed)
    \<and> counters w' EventsDropped = counters w EventsDropped"
  using assms by (auto simp: publish_def run_simps split: prod.splits sum.splits)

text \<open>The recorder's goroutine drains the channel: after as many turns as there are events in it, with no push in between, the channel is empty, and each of those events has been counted once, as published or as failed. A failed event is not put back, and the database is not touched.\<close>

theorem recorder_drains:
  assumes "run (run_recorder P r n) w = (u, w')" "length (buffer w) \<le> n"
  shows "buffer w' = [] \<and> db w' = db w
    \<and> counters w' EventsPublished + counters w' EventsFailed
        = counters w EventsPublished + counters w EventsFailed + length (buffer w)"
  using assms
proof (induction n arbitrary: w)
  case 0
  then show ?case by (simp add: run_simps)
next
  case (Suc n)
  show ?case
  proof (cases "buffer w")
    case Nil
    with Suc.prems have "run (run_recorder P r n) w = (u, w')" by (simp add: run_simps take_step_def)
    from Suc.IH [OF this] Nil show ?thesis by simp
  next
    case (Cons e es)
    obtain a v where p: "run (publish P r e) (w\<lparr>buffer := es\<rparr>) = (a, v)" by (cases "run (publish P r e) (w\<lparr>buffer := es\<rparr>)")
    with Suc.prems Cons have "run (run_recorder P r n) v = (u, w')" by (simp add: run_simps take_step_def)
    from Suc.IH [OF this] publish_run [OF p] Suc.prems(2) Cons show ?thesis by simp
  qed
qed

definition demo_events :: "nat \<Rightarrow> event list" where
  "demo_events n = map (\<lambda>i. \<lparr>ev_Code = ''ab0'', ev_Referrer = '''', ev_TS = int i\<rparr>) [0..<n]"

theorem recorder_drains_witness:
  "\<exists>w'. run (run_recorder sim_platform \<lparr>rec_stream = ''v1:events''\<rparr> 3) ((world0 empty_db (sim0 0))\<lparr>buffer := demo_events 2\<rparr>) = ((), w')
     \<and> buffer w' = [] \<and> counters w' EventsPublished + counters w' EventsFailed = 2"
proof -
  let ?w = "(world0 empty_db (sim0 0))\<lparr>buffer := demo_events 2\<rparr>"
  obtain u w' where r: "run (run_recorder sim_platform \<lparr>rec_stream = ''v1:events''\<rparr> 3) ?w = (u, w')"
    by (cases "run (run_recorder sim_platform \<lparr>rec_stream = ''v1:events''\<rparr> 3) ?w")
  from recorder_drains [OF r] r show ?thesis by (simp add: demo_events_def world0_def)
qed

subsection \<open>The channel under concurrent pushes\<close>

definition channel_prog :: "'x platform \<Rightarrow> recorder \<Rightarrow> event option \<Rightarrow> nat \<Rightarrow> ('x world, unit) prog" where
  \<comment> \<open>one request's push, or \<open>n\<close> turns of the recorder\<close>
  "channel_prog P r x n = (case x of None \<Rightarrow> run_recorder P r n | Some e \<Rightarrow> bindp (Push e) (\<lambda>_. Ret ()))"

definition channel_bounded :: "'x world \<Rightarrow> bool" where
  "channel_bounded w \<longleftrightarrow> length (buffer w) \<le> bufferSize"

lemma channel_prog_safe: "safe channel_bounded (\<lambda>_. True) (channel_prog P r x n)"
proof (cases x)
  case None
  have inc: "safe channel_bounded (\<lambda>_. True) (Inc m)" for m
    by (rule safe_Inc) (simp_all add: channel_bounded_def)
  have add: "safe channel_bounded (\<lambda>_. True) (ext_act f)" for f :: "'x \<Rightarrow> 'q \<times> 'x"
    by (rule safe_ext_act) (simp add: channel_bounded_def)
  have pub: "safe channel_bounded (\<lambda>_. True) (publish P r e)" for e
    unfolding publish_def by (rule safe_bindp [OF add]) (simp split: sum.split add: inc)
  have tk: "safe channel_bounded (\<lambda>_. True) (act take_step)"
    by (rule safe_act) (auto simp: channel_bounded_def take_step_def split: list.splits)
  have "safe channel_bounded (\<lambda>_. True) (run_recorder P r n)"
  proof (induction n)
    case (Suc n)
    show ?case unfolding run_recorder.simps
      by (rule safe_bindp [OF tk]) (auto split: option.split intro: Suc safe_bindp [OF pub])
  qed simp
  with None show ?thesis by (simp add: channel_prog_def)
next
  case (Some e)
  have "safe channel_bounded (\<lambda>_. True) (act (push_step e))"
    by (rule safe_act) (auto simp: channel_bounded_def push_step_def split: if_splits)
  moreover have "safe channel_bounded (\<lambda>_. True) (Inc EventsDropped)"
    by (rule safe_Inc) (simp_all add: channel_bounded_def)
  ultimately have "safe channel_bounded (\<lambda>_. True) (Push e)"
    unfolding Push_def by (auto intro!: safe_bindp [where Q = "\<lambda>_. True" and I = channel_bounded])
  with Some show ?thesis by (auto simp: channel_prog_def intro: safe_bindp)
qed

text \<open>However many requests push events while the recorder takes them out, the channel never holds more than 4096 events.\<close>

theorem recorder_channel_bound:
  assumes "pstep\<^sup>*\<^sup>* (w, map (\<lambda>(x, n). channel_prog P r x n) progs) (w', ps)" "length (buffer w) \<le> 4096"
  shows "length (buffer w') \<le> 4096"
proof -
  have "pool_inv channel_bounded (\<lambda>_ _. True) (w, map (\<lambda>(x, n). channel_prog P r x n) progs)"
    using assms(2) by (auto simp: pool_inv_def channel_bounded_def bufferSize_def channel_prog_safe case_prod_beta)
  from psteps_pool_inv [OF assms(1) this] show ?thesis by (simp add: pool_inv_def channel_bounded_def bufferSize_def)
qed

theorem recorder_channel_bound_witness:
  "\<exists>w' ps. pstep\<^sup>*\<^sup>* ((world0 empty_db (sim0 0))\<lparr>buffer := demo_events 4096\<rparr>,
        map (\<lambda>(x, n). channel_prog sim_platform \<lparr>rec_stream = ''v1:events''\<rparr> x n) [(Some (demo_events 1 ! 0), 0)]) (w', ps)
     \<and> counters w' EventsDropped = 1 \<and> length (buffer w') \<le> 4096"
proof -
  let ?w = "(world0 empty_db (sim0 0))\<lparr>buffer := demo_events 4096\<rparr>" and ?e = "demo_events 1 ! 0"
  let ?p = "channel_prog sim_platform \<lparr>rec_stream = ''v1:events''\<rparr> (Some ?e) 0"
  have len: "length (demo_events 4096) = 4096" by (simp add: demo_events_def)
  obtain u w' where r: "run ?p ?w = (u, w')" by (cases "run ?p ?w")
  with len have d: "counters w' EventsDropped = 1"
    by (auto simp: channel_prog_def Push_def push_step_def run_simps bufferSize_def world0_def)
  from run_psteps [OF r] have steps: "pstep\<^sup>*\<^sup>* (?w, map (\<lambda>(x, n). channel_prog sim_platform \<lparr>rec_stream = ''v1:events''\<rparr> x n) [(Some ?e, 0)]) (w', [Ret u])"
    by simp
  from recorder_channel_bound [OF this] len steps d show ?thesis by auto
qed

end
