(* ===== verification/Consumer.thy ===== *)
theory Consumer
imports Platform_Sim Civil
begin

section \<open>The analytics consumer\<close>

text \<open>
  \<open>internal/consumer/consumer.go\<close>: the worker that reads events from the stream as a
  member of a consumer group, claims each event id in the table \<open>idempotency_records\<close>, adds
  the click to \<open>analytics_daily\<close> and acknowledges the message. \<open>ProcessOnce\<close> returns how
  many messages it handled beside its error. The text of the event day and its reading as a
  DATE are taken together: a day is a number of days since 1970.
\<close>

definition batchSize :: nat where "batchSize = 32"
definition idempotencyTTL :: dur where "idempotencyTTL = 24 * nano_hour"

record consumer =
  cons_stream :: string

definition consumer_New :: "string \<Rightarrow> consumer" where
  "consumer_New stream = \<lparr>cons_stream = stream\<rparr>"

definition EnsureGroup :: "'x platform \<Rightarrow> consumer \<Rightarrow> ('x world, goerr option) prog" where
  "EnsureGroup P c =
     bindp (ext_act (p_xgroup P (cons_stream c))) (\<lambda>r.
       case r of
         None \<Rightarrow> Ret None
       | Some err \<Rightarrow>
           if \<not> contains ''BUSYGROUP'' (err_text err) then Ret (Some (WrapPre ''create group'' err)) else Ret None)"

text \<open>\<open>msg.Values[k].(string)\<close> with the comma-ok form: the empty string if absent.\<close>

definition msg_value :: "xmessage \<Rightarrow> string \<Rightarrow> string" where
  "msg_value msg k = (case map_of (msg_Values msg) k of None \<Rightarrow> '''' | Some v \<Rightarrow> v)"

definition consumer_claim :: "'x platform \<Rightarrow> string \<Rightarrow> ('x world, goerr + bool) prog" where
  "consumer_claim P i =
     tryp (SQL P (insert_idem i ''analytics'' idempotencyTTL)) (\<lambda>n. Ret (Inr (n = 1)))"

definition consumer_ack :: "'x platform \<Rightarrow> consumer \<Rightarrow> string \<Rightarrow> ('x world, goerr option) prog" where
  "consumer_ack P c i = ext_act (p_xack P (cons_stream c) i)"

definition eventDay :: "'x platform \<Rightarrow> xmessage \<Rightarrow> ('x world, int) prog" where
  "eventDay P msg =
     (case ParseInt (msg_value msg ''ts'') of
        Some sec \<Rightarrow> Ret (day_of_sec sec)
      | None \<Rightarrow> bindp (time_Now P) (\<lambda>now. Ret (day_of_sec (unix_sec now))))"

text \<open>The part of \<open>handle\<close> after a successful claim and the lookup of the URL.\<close>

definition count_click ::
  "'x platform \<Rightarrow> consumer \<Rightarrow> xmessage \<Rightarrow> int \<Rightarrow> int \<Rightarrow> ('x world, goerr option) prog" where
  "count_click P c msg day urlID =
     bindp (SQL P (upsert_daily urlID day ''total'' ''clicks'')) (\<lambda>r1.
       case r1 of
         Inl err \<Rightarrow> Ret (Some (WrapPre ''upsert total'' err))
       | Inr _ \<Rightarrow>
           bindp
             (if msg_value msg ''referrer'' \<noteq> ''''
              then bindp (SQL P (upsert_daily urlID day ''referrer'' (msg_value msg ''referrer''))) (\<lambda>r2.
                     case r2 of
                       Inl err \<Rightarrow> Ret (Some (WrapPre ''upsert referrer'' err))
                     | Inr _ \<Rightarrow> Ret None)
              else Ret None)
             (\<lambda>e. case e of
                Some err \<Rightarrow> Ret (Some err)
              | None \<Rightarrow> bindp (Inc AnalyticsProcessed) (\<lambda>_. consumer_ack P c (msg_ID msg))))"

definition handle :: "'x platform \<Rightarrow> consumer \<Rightarrow> xmessage \<Rightarrow> ('x world, goerr option) prog" where
  "handle P c msg =
     (if msg_value msg ''code'' = '''' then Ret None
      else
        bindp (consumer_claim P (msg_ID msg)) (\<lambda>r.
          case r of
            Inl err \<Rightarrow> Ret (Some err)
          | Inr processed \<Rightarrow>
              if \<not> processed
              then bindp (Inc AnalyticsDeduped) (\<lambda>_. consumer_ack P c (msg_ID msg))
              else
                bindp (eventDay P msg) (\<lambda>day.
                bindp (SQL P (select_url_id (msg_value msg ''code''))) (\<lambda>r.
                  case r of
                    Inl err \<Rightarrow>
                      if err = Sentinel PgxErrNoRows
                      then bindp (Inc AnalyticsDeduped) (\<lambda>_. consumer_ack P c (msg_ID msg))
                      else Ret (Some (WrapPre ''lookup code'' err))
                  | Inr urlID \<Rightarrow> count_click P c msg day urlID))))"

fun handle_all ::
  "'x platform \<Rightarrow> consumer \<Rightarrow> nat \<Rightarrow> xmessage list \<Rightarrow> ('x world, nat \<times> goerr option) prog" where
  "handle_all P c processed [] = Ret (processed, None)"
| "handle_all P c processed (msg # msgs) =
     bindp (handle P c msg) (\<lambda>e.
       case e of
         Some err \<Rightarrow> Ret (processed, Some (WrapPre (''handle '' @ msg_ID msg) err))
       | None \<Rightarrow> handle_all P c (Suc processed) msgs)"

definition ProcessOnce :: "'x platform \<Rightarrow> consumer \<Rightarrow> bool \<Rightarrow> ('x world, nat \<times> goerr option) prog" where
  "ProcessOnce P c block =
     bindp (ext_act (p_xreadgroup P (cons_stream c) batchSize block)) (\<lambda>r.
       case r of
         Inl err \<Rightarrow> if err = Sentinel RedisNil then Ret (0, None) else Ret (0, Some err)
       | Inr msgs \<Rightarrow> handle_all P c 0 msgs)"

text \<open>\<open>Run\<close>, for at most \<open>n\<close> turns of its loop; \<open>True\<close> when it has returned.\<close>

fun consumer_Run :: "'x platform \<Rightarrow> consumer \<Rightarrow> nat \<Rightarrow> ('x world, bool) prog" where
  "consumer_Run P c 0 = Ret False"
| "consumer_Run P c (Suc n) =
     bindp (ctx_Err P) (\<lambda>e.
       case e of
         Some err \<Rightarrow> Ret True
       | None \<Rightarrow>
           bindp (ProcessOnce P c True) (\<lambda>(k, perr).
             if k = 0
             then bindp (ctx_Err P) (\<lambda>d.
                    case d of
                      Some err \<Rightarrow> Ret True
                    | None \<Rightarrow> bindp (time_Sleep P (100 * nano_ms)) (\<lambda>_. consumer_Run P c n))
             else consumer_Run P c n))"

end
