(* ===== verification/Consumer_Props.thy ===== *)
theory Consumer_Props
imports Consumer Credit Up_Spec Service_Sim
begin

section \<open>Properties of the consumer\<close>

text \<open>
  Each click in \<open>analytics_daily\<close> is paid for by a claimed event id, over any number of
  workers; a fresh event is counted exactly once when nothing fails.
\<close>

subsection \<open>Counting\<close>

definition total_clicks :: "database \<Rightarrow> int" where
  "total_clicks d = sum_list (map d_count (filter (\<lambda>a. d_dim a = ''total'') (analytics_daily d)))"

definition claimed :: "database \<Rightarrow> string set" where
  "claimed d = {i_key r |r. r \<in> set (idempotency_records d) \<and> i_scope r = ''analytics''}"

text \<open>The clicks in the rows whose keys satisfy \<open>Q\<close>.\<close>

definition clicks_in :: "(int \<times> int \<times> string \<times> string \<Rightarrow> bool) \<Rightarrow> database \<Rightarrow> int" where
  "clicks_in Q d = sum_list (map d_count (filter (\<lambda>a. Q (daily_key a)) (analytics_daily d)))"

definition daily_count :: "database \<Rightarrow> int \<times> int \<times> string \<times> string \<Rightarrow> int" where
  "daily_count d k = clicks_in (\<lambda>q. q = k) d"

lemma finite_claimed [simp]: "finite (claimed d)"
proof -
  have "claimed d \<subseteq> i_key ` set (idempotency_records d)" by (auto simp: claimed_def)
  then show ?thesis by (rule finite_subset) simp
qed

text \<open>Adding one to the row with a given key, where keys are distinct.\<close>

lemma sum_bump:
  assumes "distinct (map daily_key as)" "Q k" "\<exists>a \<in> set as. daily_key a = k"
  shows "sum_list (map d_count (filter (\<lambda>a. Q (daily_key a)) (map (bump_row k) as)))
     = sum_list (map d_count (filter (\<lambda>a. Q (daily_key a)) as)) + 1"
  using assms
proof (induction as)
  case (Cons a as)
  show ?case
  proof (cases "daily_key a = k")
    case True
    with Cons.prems(1) have "map (bump_row k) as = as" by (intro map_idI) (auto simp: bump_row_def image_iff)
    with True Cons.prems(2) show ?thesis by simp
  next
    case False
    with Cons show ?thesis by auto
  qed
qed simp

lemma sum_bump_other:
  "\<not> Q k \<Longrightarrow> sum_list (map d_count (filter (\<lambda>a. Q (daily_key a)) (map (bump_row k) as)))
     = sum_list (map d_count (filter (\<lambda>a. Q (daily_key a)) as))"
  by (induction as) auto

lemma upsert_daily_Inr:
  assumes "upsert_daily i day dim v now d = (Inr u, d')" "daily_inv d"
  shows "clicks_in Q d' = clicks_in Q d + of_bool (Q (i, day, dim, v))"
    "idempotency_records d' = idempotency_records d" "urls d' = urls d"
proof -
  let ?k = "(i, day, dim, v)"
  have dist: "distinct (map daily_key (analytics_daily d))" using assms(2) by (simp add: daily_inv_def)
  show "clicks_in Q d' = clicks_in Q d + of_bool (Q ?k)"
    unfolding clicks_in_def using assms(1) sum_bump [OF dist, where k = ?k and Q = Q] sum_bump_other [where k = ?k and Q = Q]
    by (auto simp: upsert_daily_def Let_def list_ex_iff daily_key_def split: if_splits)
  show "idempotency_records d' = idempotency_records d" "urls d' = urls d"
    using assms(1) by (auto simp: upsert_daily_def Let_def split: if_splits)
qed

lemma upsert_daily_Inl: "upsert_daily i day dim v now d = (Inl e, d') \<Longrightarrow> d' = d"
  by (auto simp: upsert_daily_def Let_def split: if_splits)

lemma upsert_total:
  assumes "upsert_daily i day dim v now d = (r, d')" "daily_inv d"
  shows "total_clicks d' \<le> total_clicks d + (if dim = ''total'' then 1 else 0)"
proof (cases r)
  case (Inl e)
  with assms(1) have "d' = d" by (blast dest: upsert_daily_Inl)
  then show ?thesis by simp
next
  case (Inr u)
  with upsert_daily_Inr(1) [of i day dim v now d u d' "\<lambda>k. fst (snd (snd k)) = ''total''"] assms
  show ?thesis by (simp add: total_clicks_def clicks_in_def daily_key_def split: if_splits)
qed

lemma upsert_claimed: "upsert_daily i day dim v now d = (r, d') \<Longrightarrow> claimed d' = claimed d"
  by (auto simp: upsert_daily_def Let_def claimed_def split: if_splits)

lemma insert_idem_claimed:
  assumes "insert_idem k ''analytics'' ttl now d = (r, d')"
  shows "analytics_daily d' = analytics_daily d" "urls d' = urls d"
    "claimed d \<subseteq> claimed d'" "claimed d' \<subseteq> insert k (claimed d)"
    "r = Inr 1 \<Longrightarrow> k \<notin> claimed d \<and> k \<in> claimed d'" "r = Inr 0 \<Longrightarrow> d' = d \<and> k \<in> claimed d" "\<exists>e. r = Inl e \<or> r = Inr 0 \<or> r = Inr 1"
proof -
  let ?row = "\<lparr>i_key = k, i_scope = ''analytics'', i_expires_at = pg_ts (now + ttl)\<rparr>"
  from assms consider (bad) "r = Inl (PgError ''22021'')" "d' = d"
    | (dup) "r = Inr 0" "d' = d" "k \<in> claimed d"
    | (new) "r = Inr 1" "d' = d\<lparr>idempotency_records := idempotency_records d @ [?row]\<rparr>" "k \<notin> claimed d"
    by (auto simp: insert_idem_def claimed_def list_ex_iff list_ex_False_iff split: if_splits)
  then show "analytics_daily d' = analytics_daily d" "urls d' = urls d"
    "claimed d \<subseteq> claimed d'" "claimed d' \<subseteq> insert k (claimed d)"
    "r = Inr 1 \<Longrightarrow> k \<notin> claimed d \<and> k \<in> claimed d'" "r = Inr 0 \<Longrightarrow> d' = d \<and> k \<in> claimed d" "\<exists>e. r = Inl e \<or> r = Inr 0 \<or> r = Inr 1"
    by (cases; force simp: claimed_def)+
qed

subsection \<open>At most once\<close>

text \<open>The books: a claim that succeeds leaves one credit, and counting a click spends it.\<close>

definition paid :: "'x world \<Rightarrow> int" where
  "paid w = total_clicks (db w) - int (card (claimed (db w)))"

abbreviation "count_credit \<equiv> credit (\<lambda>w. db_inv (db w)) (\<lambda>_. True) paid"

lemma credit_ext: "0 \<le> k \<Longrightarrow> count_credit (\<lambda>_. k) (ext_act g) k"
  unfolding ext_act_def by (rule credit_act) (auto simp: paid_def split: prod.splits)

lemma credit_Inc: "0 \<le> k \<Longrightarrow> count_credit (\<lambda>_. k) (Inc m) k"
  unfolding Inc_def by (rule credit_act) (auto simp: paid_def)

lemma credit_SQL:
  assumes "\<And>now d r d'. st now d = (r, d') \<Longrightarrow> db_inv d \<Longrightarrow> db_inv d' \<and> 0 \<le> c r
      \<and> total_clicks d' - int (card (claimed d')) + c r \<le> total_clicks d - int (card (claimed d)) + k"
    and "\<And>now d r d' m. st now d = (r, d') \<Longrightarrow> c (Inl m) \<le> c r" "\<And>m. 0 \<le> c (Inl m) \<and> c (Inl m) \<le> k"
  shows "count_credit c (SQL (P :: 'x platform) st) k"
  unfolding SQL_def
proof (rule credit_act)
  fix w :: "'x world" and a w'
  assume I: "db_inv (db w)" and s: "sql_step P st w = (a, w')"
  from s show "db_inv (db w') \<and> (True \<longrightarrow> True) \<and> 0 \<le> c a \<and> (True \<longrightarrow> paid w' + c a \<le> paid w + k)"
  proof (cases rule: sql_step_cases)
    case (refused m x)
    with I assms(3) [of "Plain m"] show ?thesis by (simp add: paid_def)
  next
    case (executed x d)
    with assms(1) [OF executed(2) I] show ?thesis by (simp add: paid_def)
  next
    case (unacked m x q d)
    with assms(1) [OF unacked(2) I] assms(2) [OF unacked(2), of "Plain m"] assms(3) [of "Plain m"] show ?thesis
      by (simp add: paid_def)
  qed
qed

lemma credit_upsert:
  assumes "k = (if dim = ''total'' then 1 else 0)"
  shows "count_credit (\<lambda>_. 0) (SQL P (upsert_daily i day dim v)) k"
proof (rule credit_SQL)
  fix now d r d'
  assume u: "upsert_daily i day dim v now d = (r, d')" and inv: "db_inv d"
  from upsert_total [OF u] upsert_claimed [OF u] upsert_daily_inv [OF u inv] inv assms
  show "db_inv d' \<and> 0 \<le> (0 :: int) \<and> total_clicks d' - int (card (claimed d')) + 0 \<le> total_clicks d - int (card (claimed d)) + k"
    by (simp add: db_inv_def)
qed (use assms in auto)

lemma credit_claim:
  "count_credit (\<lambda>r. if r = Inr 1 then 1 else 0) (SQL P (insert_idem i ''analytics'' ttl)) 0"
proof (rule credit_SQL)
  fix now d r d'
  assume u: "insert_idem i ''analytics'' ttl now d = (r, d')" and inv: "db_inv d"
  note c = insert_idem_claimed [OF u]
  have "card (claimed d) + (if r = Inr 1 then 1 else 0) \<le> card (claimed d')"
  proof (cases "r = Inr 1")
    case True
    with c(3-5) have "claimed d' = insert i (claimed d)" "i \<notin> claimed d" by auto
    with True show ?thesis by simp
  qed (simp add: card_mono c(3))
  moreover have "total_clicks d' = total_clicks d" by (simp add: total_clicks_def c(1))
  ultimately show "db_inv d' \<and> 0 \<le> (if r = Inr 1 then 1 else 0 :: int)
      \<and> total_clicks d' - int (card (claimed d')) + (if r = Inr 1 then 1 else 0) \<le> total_clicks d - int (card (claimed d)) + 0"
    using insert_idem_inv [OF u inv] by (auto split: if_splits)
qed auto

lemma credit_select: "0 \<le> k \<Longrightarrow> count_credit (\<lambda>_. k) (SQL P (select_url_id c)) k"
  by (rule credit_SQL) (auto dest: select_url_id_inv)

lemma credit_count_click: "count_credit (\<lambda>_. 0) (count_click P c msg day i) 1"
proof -
  have ack: "count_credit (\<lambda>_. 0) (bindp (Inc AnalyticsProcessed) (\<lambda>_. consumer_ack P c (msg_ID msg))) 0"
    unfolding consumer_ack_def by (rule credit_bindp [OF credit_Inc]) (simp_all add: credit_ext)
  have ref: "count_credit (\<lambda>_. 0) (if msg_value msg ''referrer'' \<noteq> ''''
      then bindp (SQL P (upsert_daily i day ''referrer'' (msg_value msg ''referrer''))) (\<lambda>r2.
             case r2 of Inl err \<Rightarrow> Ret (Some (WrapPre ''upsert referrer'' err)) | Inr _ \<Rightarrow> Ret None)
      else Ret None) 0"
    by (auto intro!: credit_bindp [OF credit_upsert] split: sum.split)
  show ?thesis unfolding count_click_def
  proof (rule credit_bindp [OF credit_upsert])
    fix r1 :: "goerr + unit"
    show "count_credit (\<lambda>_. 0) (case r1 of Inl err \<Rightarrow> Ret (Some (WrapPre ''upsert total'' err))
      | Inr _ \<Rightarrow> bindp (if msg_value msg ''referrer'' \<noteq> ''''
              then bindp (SQL P (upsert_daily i day ''referrer'' (msg_value msg ''referrer''))) (\<lambda>r2.
                     case r2 of
                       Inl err \<Rightarrow> Ret (Some (WrapPre ''upsert referrer'' err))
                     | Inr _ \<Rightarrow> Ret None)
              else Ret None)
             (\<lambda>e. case e of
                Some err \<Rightarrow> Ret (Some err)
              | None \<Rightarrow> bindp (Inc AnalyticsProcessed) (\<lambda>_. consumer_ack P c (msg_ID msg)))) 0"
      by (cases r1) (simp, simp only: sum.case, rule credit_bindp [OF ref], simp split: option.split add: ack)
  qed simp
qed

lemma credit_handle: "count_credit (\<lambda>_. 0) (handle P c msg) 0"
proof -
  have claim: "count_credit (\<lambda>r. if r = Inr True then 1 else 0) (consumer_claim P (msg_ID msg)) 0"
    unfolding consumer_claim_def by (rule credit_tryp [OF credit_claim]) auto
  have ack: "count_credit (\<lambda>_. 0) (bindp (Inc AnalyticsDeduped) (\<lambda>_. consumer_ack P c (msg_ID msg))) k" if "0 \<le> k" for k
    unfolding consumer_ack_def by (rule credit_bindp [OF credit_Inc [OF that]]) (auto intro: credit_mono [OF credit_ext] simp: that)
  have day: "count_credit (\<lambda>_. 1) (eventDay P msg) 1"
    unfolding eventDay_def act_defs by (auto intro!: credit_bindp [OF credit_ext] split: option.split)
  have won: "count_credit (\<lambda>_. 0) (bindp (eventDay P msg) (\<lambda>day. bindp (SQL P (select_url_id (msg_value msg ''code''))) (\<lambda>r.
      case r of
        Inl err \<Rightarrow> if err = Sentinel PgxErrNoRows
            then bindp (Inc AnalyticsDeduped) (\<lambda>_. consumer_ack P c (msg_ID msg))
            else Ret (Some (WrapPre ''lookup code'' err))
      | Inr urlID \<Rightarrow> count_click P c msg day urlID))) 1"
    by (rule credit_bindp [OF day], rule credit_bindp [OF credit_select [of 1]])
      (auto split: sum.split intro: ack credit_count_click)
  show ?thesis unfolding handle_def
    by (auto intro!: credit_bindp [OF claim] won ack split: sum.split)
qed

lemma credit_handle_all: "count_credit (\<lambda>_. 0) (handle_all P c k msgs) 0"
proof (induction msgs arbitrary: k)
  case (Cons msg msgs)
  then show ?case by (auto intro!: credit_bindp [OF credit_handle] split: option.split)
qed simp

lemma credit_ProcessOnce: "count_credit (\<lambda>_. 0) (ProcessOnce P c block) 0"
  unfolding ProcessOnce_def
  by (rule credit_bindp [OF credit_ext [of 0]]) (auto split: sum.split intro: credit_handle_all)

lemma credit_Run: "count_credit (\<lambda>_. 0) (consumer_Run P c n) 0"
proof (induction n)
  case (Suc n)
  have ctx: "count_credit (\<lambda>_. 0) (ctx_Err P) 0" and sl: "count_credit (\<lambda>_. 0) (time_Sleep P d) 0" for d
    unfolding act_defs by (simp_all add: credit_ext)
  show ?case unfolding consumer_Run.simps
    by (rule credit_bindp [OF ctx])
      (auto intro!: credit_bindp [OF credit_ProcessOnce] credit_bindp [OF ctx] credit_bindp [OF sl] Suc split: option.split)
qed simp


definition demo_message :: xmessage where
  "demo_message = \<lparr>msg_ID = ''1-0'', msg_Values = [(''code'', ''ab0''), (''referrer'', ''x''), (''ts'', ''100'')]\<rparr>"

definition demo_consumer :: consumer where
  "demo_consumer = \<lparr>cons_stream = ''v1:events''\<rparr>"


subsection \<open>Exactly once when nothing fails\<close>

definition room :: "database \<Rightarrow> int \<times> int \<times> string \<times> string \<Rightarrow> bool" where
  "room d k \<longleftrightarrow> (\<forall>a \<in> set (analytics_daily d). daily_key a = k \<longrightarrow> d_count a < max_int64)"

lemma upsert_daily_ok:
  assumes "pg_date day" "pg_text v" "room d (i, day, dim, v)" "\<exists>r \<in> set (urls d). r_id r = i"
  shows "fst (upsert_daily i day dim v now d) = Inr ()"
  using assms by (auto simp: upsert_daily_def Let_def room_def list_ex_iff)

lemma upsert_room: "upsert_daily i day dim v now d = (r, d') \<Longrightarrow> k \<noteq> (i, day, dim, v) \<Longrightarrow> room d k \<Longrightarrow> room d' k"
  by (auto simp: upsert_daily_def Let_def room_def daily_key_def bump_row_def split: if_splits)

text \<open>The two kinds of row a click goes to.\<close>

definition click_keys :: "int \<Rightarrow> int \<Rightarrow> string \<Rightarrow> (int \<times> int \<times> string \<times> string) list" where
  "click_keys i day referrer = (i, day, ''total'', ''clicks'')
     # (if referrer = '''' then [] else [(i, day, ''referrer'', referrer)])"

definition hits :: "('k \<Rightarrow> bool) \<Rightarrow> 'k list \<Rightarrow> int" where
  "hits Q ks = int (length (filter Q ks))"

lemma hits_simps [simp]: "hits Q [] = 0" "hits Q (k # ks) = of_bool (Q k) + hits Q ks"
  "hits Q (ks @ ls) = hits Q ks + hits Q ls"
  by (simp_all add: hits_def)

lemma hits_eq: "distinct ks \<Longrightarrow> hits (\<lambda>q. q = k) ks = of_bool (k \<in> set ks)"
  by (induction ks) auto

lemma distinct_click_keys: "distinct (click_keys i day referrer)"
  by (simp add: click_keys_def)

context kv_server_up begin

lemma ack_up:
  assumes "up (ext w)" "run (bindp (Inc m) (\<lambda>_. consumer_ack P c i)) w = (e, w')"
  shows "e = None \<and> up (ext w') \<and> db w' = db w \<and> counters w' = (counters w)(m := Suc (counters w m))"
proof -
  obtain r x where x: "p_xack P (cons_stream c) i (ext w) = (r, x)" by (cases "p_xack P (cons_stream c) i (ext w)")
  from xack_up [OF assms(1), of "cons_stream c" i] x assms(2) show ?thesis
    by (auto simp: consumer_ack_def run_simps inc_metric_def)
qed

lemma SQL_up:
  assumes "up (ext w)" "run (SQL P st) w = (r, w')"
  obtains now where "r = fst (st now (db w))" "db w' = snd (st now (db w))" "up (ext w')" "counters w' = counters w"
  using assms(1)
proof (rule sql_step_up [where st = st])
  fix x
  assume "sql_step P st w = (fst (st (p_sql_now P x) (db w)), w\<lparr>db := snd (st (p_sql_now P x) (db w)), ext := x\<rparr>)" "up x"
  with assms(2) show thesis by (intro that [of "p_sql_now P x"]) (auto simp: run_simps)
qed

lemma handle_claimed_up:
  assumes "up (ext w)" "msg_value msg ''code'' \<noteq> ''''" "pg_text (msg_ID msg)" "msg_ID msg \<in> claimed (db w)"
    and "run (handle P c msg) w = (e, w')"
  shows "e = None \<and> db w' = db w \<and> up (ext w')
    \<and> counters w' = (counters w)(AnalyticsDeduped := Suc (counters w AnalyticsDeduped))"
proof -
  obtain r v where r: "run (SQL P (insert_idem (msg_ID msg) ''analytics'' idempotencyTTL)) w = (r, v)"
    by (cases "run (SQL P (insert_idem (msg_ID msg) ''analytics'' idempotencyTTL)) w")
  have "insert_idem (msg_ID msg) ''analytics'' idempotencyTTL now (db w) = (Inr 0, db w)" for now
    using assms(3,4) by (auto simp: insert_idem_def claimed_def list_ex_iff)
  with SQL_up [OF assms(1) r] have v: "r = Inr 0" "db v = db w" "up (ext v)" "counters v = counters w" by auto
  with r assms(2,5) have "run (bindp (Inc AnalyticsDeduped) (\<lambda>_. consumer_ack P c (msg_ID msg))) v = (e, w')"
    by (simp add: handle_def consumer_claim_def run_tryp run_bindp [of "consumer_claim P i" for i] run_bindp run_Ret)
  from ack_up [OF v(3) this] v show ?thesis by simp
qed

lemma count_click_up:
  assumes "up (ext w)" "db_inv (db w)" "pg_date day" "pg_text (msg_value msg ''referrer'')" "\<exists>r \<in> set (urls (db w)). r_id r = i"
    and "\<And>k. k \<in> set (click_keys i day (msg_value msg ''referrer'')) \<Longrightarrow> room (db w) k"
    and "run (count_click P c msg day i) w = (e, w')"
  shows "e = None \<and> counters w' = (counters w)(AnalyticsProcessed := Suc (counters w AnalyticsProcessed))
    \<and> claimed (db w') = claimed (db w) \<and> urls (db w') = urls (db w) \<and> up (ext w')
    \<and> db_inv (db w') \<and> (\<forall>Q. clicks_in Q (db w') = clicks_in Q (db w) + hits Q (click_keys i day (msg_value msg ''referrer'')))"
proof -
  let ?ref = "msg_value msg ''referrer''"
  have clicks: "pg_text ''clicks''" by code_simp
  obtain r1 v1 where r1: "run (SQL P (upsert_daily i day ''total'' ''clicks'')) w = (r1, v1)"
    by (cases "run (SQL P (upsert_daily i day ''total'' ''clicks'')) w")
  obtain n1 where n1: "upsert_daily i day ''total'' ''clicks'' n1 (db w) = (r1, db v1)" "up (ext v1)" "counters v1 = counters w"
    using SQL_up [OF assms(1) r1] by (metis prod.collapse)
  from upsert_daily_ok [of day "''clicks''" "db w" i "''total''" n1] assms(3,5,6) clicks n1(1)
  have i1: "r1 = Inr ()" by (simp add: click_keys_def)
  note u1 = upsert_daily_Inr(1,3) [OF n1(1) [unfolded i1]]
  have inv1: "daily_inv (db w)" "db_inv (db v1)" using assms(2) upsert_daily_inv [OF n1(1)] by (simp_all add: db_inv_def)
  show ?thesis
  proof (cases "?ref = ''''")
    case True
    with assms(7) r1 i1 have "run (bindp (Inc AnalyticsProcessed) (\<lambda>_. consumer_ack P c (msg_ID msg))) v1 = (e, w')"
      by (simp add: count_click_def run_bindp run_Ret)
    from ack_up [OF n1(2) this] n1 u1 [OF inv1(1)] inv1(2) upsert_claimed [OF n1(1)] True show ?thesis by (simp add: click_keys_def)
  next
    case False
    obtain r2 v2 where r2: "run (SQL P (upsert_daily i day ''referrer'' ?ref)) v1 = (r2, v2)"
      by (cases "run (SQL P (upsert_daily i day ''referrer'' ?ref)) v1")
    obtain n2 where n2: "upsert_daily i day ''referrer'' ?ref n2 (db v1) = (r2, db v2)" "up (ext v2)" "counters v2 = counters v1"
      using SQL_up [OF n1(2) r2] by (metis prod.collapse)
    have "room (db v1) (i, day, ''referrer'', ?ref)"
      using upsert_room [OF n1(1), of "(i, day, ''referrer'', ?ref)"] assms(6) False by (simp add: click_keys_def)
    with upsert_daily_ok [of day ?ref "db v1" i "''referrer''" n2] assms(3-5) u1(2) [OF inv1(1)] n2(1)
    have i2: "r2 = Inr ()" by simp
    have "daily_inv (db v1)" using inv1(2) by (simp add: db_inv_def)
    note u2 = upsert_daily_Inr(1,3) [OF n2(1) [unfolded i2] this]
    from assms(7) r1 i1 r2 i2 False have "run (bindp (Inc AnalyticsProcessed) (\<lambda>_. consumer_ack P c (msg_ID msg))) v2 = (e, w')"
      by (simp add: count_click_def run_bindp run_Ret)
    from ack_up [OF n2(2) this] n1 n2 u1 [OF inv1(1)] u2 upsert_daily_inv [OF n2(1) inv1(2)] upsert_claimed [OF n1(1)] upsert_claimed [OF n2(1)] False
    show ?thesis by (simp add: click_keys_def)
  qed
qed

lemma handle_fresh_up:
  assumes "up (ext w)" "db_inv (db w)" "msg_value msg ''code'' = code" "code \<noteq> ''''"
    and "pg_text (msg_ID msg)" "msg_ID msg \<notin> claimed (db w)"
    and "lookup_url (db w) code = Some u" "ParseInt (msg_value msg ''ts'') = Some sec" "pg_date (day_of_sec sec)"
    and "pg_text (msg_value msg ''referrer'')"
    and "\<And>k. k \<in> set (click_keys (ID u) (day_of_sec sec) (msg_value msg ''referrer'')) \<Longrightarrow> room (db w) k"
    and "run (handle P c msg) w = (e, w')"
  shows "e = None \<and> claimed (db w') = insert (msg_ID msg) (claimed (db w)) \<and> urls (db w') = urls (db w)
    \<and> counters w' = (counters w)(AnalyticsProcessed := Suc (counters w AnalyticsProcessed))
    \<and> db_inv (db w') \<and> up (ext w')
    \<and> (\<forall>Q. clicks_in Q (db w') = clicks_in Q (db w) + hits Q (click_keys (ID u) (day_of_sec sec) (msg_value msg ''referrer'')))"
proof -
  let ?i = "insert_idem (msg_ID msg) ''analytics'' idempotencyTTL"
  obtain r v where r: "run (SQL P ?i) w = (r, v)" by (cases "run (SQL P ?i) w")
  obtain n where n: "?i n (db w) = (r, db v)" "up (ext v)" "counters v = counters w"
    using SQL_up [OF assms(1) r] by (metis prod.collapse)
  note cl = insert_idem_claimed [OF n(1)]
  have "r \<noteq> Inl x" for x using n(1) assms(5) by (auto simp: insert_idem_def split: if_splits)
  with cl(6,7) assms(6) have r1: "r = Inr 1" by auto
  with cl have new: "claimed (db v) = insert (msg_ID msg) (claimed (db w))" by auto
  have same: "lookup_url (db v) = lookup_url (db w)" "clicks_in Q (db v) = clicks_in Q (db w)" "room (db v) = room (db w)" for Q
    using cl(1,2) by (simp_all add: lookup_url_def clicks_in_def room_def fun_eq_iff)
  have inv: "db_inv (db v)" by (rule insert_idem_inv [OF n(1) assms(2)])
  have tx: "pg_text code" using lookup_format [OF assms(2,7)] by (rule code_pg_text)
  obtain q y where q: "run (SQL P (select_url_id code)) v = (q, y)" by (cases "run (SQL P (select_url_id code)) v")
  have sel: "select_url_id code now (db v) = (Inr (ID u), db v)" for now
    using tx assms(7) cl(2) unfolding select_url_id_def lookup_url_def by (auto simp: row_url_def)
  from SQL_up [OF n(2) q] sel have y: "q = Inr (ID u)" "db y = db v" "up (ext y)" "counters y = counters v" by auto
  have row: "\<exists>r \<in> set (urls (db y)). r_id r = ID u"
    using lookup_SomeD [of "db v" code u] assms(7) same(1) y(2) by (auto simp: row_url_def)
  have "run (count_click P c msg (day_of_sec sec) (ID u)) y = (e, w')"
    using assms(3,4,8,12) r r1 q y(1)
    by (simp add: handle_def consumer_claim_def eventDay_def run_tryp run_bindp run_Ret)
  from count_click_up [OF y(3) _ assms(9,10) row _ this] inv y assms(11) same new cl(2) n(3) show ?thesis by simp
qed

end

text \<open>When nothing fails, an event that has not been claimed, for a code in the table, is counted exactly once: its id is claimed, the row of its day and, if it has a referrer, the referrer's row grow by one, no other count changes, and it is acknowledged.\<close>

theorem consumer_counts_event:
  assumes "kv_server_up P raw tick up" "up (ext w)" "db_inv (db w)" "msg_value msg ''code'' = code" "code \<noteq> ''''"
    and "pg_text (msg_ID msg)" "msg_ID msg \<notin> claimed (db w)"
    and "lookup_url (db w) code = Some u" "ParseInt (msg_value msg ''ts'') = Some sec" "pg_date (day_of_sec sec)"
    and "pg_text (msg_value msg ''referrer'')"
    and "\<forall>k \<in> set (click_keys (ID u) (day_of_sec sec) (msg_value msg ''referrer'')). room (db w) k"
    and "run (handle P c msg) w = (e, w')"
  shows "e = None \<and> claimed (db w') = insert (msg_ID msg) (claimed (db w)) \<and> urls (db w') = urls (db w)
    \<and> counters w' = (counters w)(AnalyticsProcessed := Suc (counters w AnalyticsProcessed))
    \<and> (\<forall>k. daily_count (db w') k = daily_count (db w) k
          + of_bool (k \<in> set (click_keys (ID u) (day_of_sec sec) (msg_value msg ''referrer''))))"
  using kv_server_up.handle_fresh_up [OF assms(1-11) _ assms(13)] assms(12)
  by (simp add: daily_count_def hits_eq distinct_click_keys)

theorem consumer_counts_event_witness:
  "\<exists>w'. run (handle sim_platform demo_consumer demo_message) (world0 (demo_db [''ab0''] None) (sim0 0)) = (None, w')
     \<and> daily_count (db w') (1, 0, ''total'', ''clicks'') = 1 \<and> daily_count (db w') (1, 0, ''referrer'', ''x'') = 1"
proof -
  let ?w = "world0 (demo_db [''ab0''] None) (sim0 0)"
  let ?u = "row_url ''ab0'' (urls (demo_db [''ab0''] None) ! 0)"
  obtain e w' where r: "run (handle sim_platform demo_consumer demo_message) ?w = (e, w')"
    by (cases "run (handle sim_platform demo_consumer demo_message) ?w")
  have f: "db_inv (demo_db [''ab0''] None)" "pg_text ''1-0''" "ParseInt ''100'' = Some 100" "pg_date (day_of_sec 100)"
    "day_of_sec 100 = 0" "pg_text ''x''" "lookup_url (demo_db [''ab0''] None) ''ab0'' = Some ?u" "ID ?u = 1"
    by code_simp+
  have w: "db ?w = demo_db [''ab0''] None" "sim_up (ext ?w)" "claimed (db ?w) = {}" "analytics_daily (db ?w) = []"
    by (simp_all add: world0_def claimed_def demo_db_def sim_up_def sim0_def)
  have m: "msg_ID demo_message = ''1-0''" "msg_value demo_message ''code'' = ''ab0''" "msg_value demo_message ''referrer'' = ''x''"
    "msg_value demo_message ''ts'' = ''100''"
    by (simp_all add: demo_message_def msg_value_def)
  from consumer_counts_event [OF sim.kv_server_up_axioms w(2) _ m(2) _ _ _ _ _ _ _ _ r, of ?u 100] f w m r
  show ?thesis by (auto simp: room_def daily_count_def clicks_in_def click_keys_def)
qed

text \<open>When nothing fails, a redelivered event, one whose id has been claimed, is acknowledged and counts nothing.\<close>

theorem consumer_redelivery:
  assumes "kv_server_up P raw tick up" "up (ext w)" "msg_value msg ''code'' \<noteq> ''''" "pg_text (msg_ID msg)"
    and "msg_ID msg \<in> claimed (db w)" "run (handle P c msg) w = (e, w')"
  shows "e = None \<and> db w' = db w \<and> counters w' = (counters w)(AnalyticsDeduped := Suc (counters w AnalyticsDeduped))"
  using kv_server_up.handle_claimed_up [OF assms] by blast

theorem consumer_redelivery_witness:
  "\<exists>w'. run (handle sim_platform demo_consumer demo_message)
       (world0 ((demo_db [''ab0''] None)\<lparr>idempotency_records := [\<lparr>i_key = ''1-0'', i_scope = ''analytics'', i_expires_at = 0\<rparr>]\<rparr>) (sim0 0))
      = (None, w') \<and> analytics_daily (db w') = []"
proof -
  let ?w = "world0 ((demo_db [''ab0''] None)\<lparr>idempotency_records := [\<lparr>i_key = ''1-0'', i_scope = ''analytics'', i_expires_at = 0\<rparr>]\<rparr>) (sim0 0)"
  obtain e w' where r: "run (handle sim_platform demo_consumer demo_message) ?w = (e, w')"
    by (cases "run (handle sim_platform demo_consumer demo_message) ?w")
  have w: "sim_up (ext ?w)" "claimed (db ?w) = {''1-0''}" "analytics_daily (db ?w) = []" "pg_text ''1-0''"
    by (simp_all add: world0_def claimed_def demo_db_def sim_up_def sim0_def) code_simp
  have m: "msg_ID demo_message = ''1-0''" "msg_value demo_message ''code'' \<noteq> ''''"
    by (simp_all add: demo_message_def msg_value_def)
  from consumer_redelivery [OF sim.kv_server_up_axioms w(1) m(2) _ _ r] w m r show ?thesis by auto
qed

subsection \<open>Where a click gets lost\<close>


text \<open>An event without a code is reported as handled but is not acknowledged, whatever the comment beside that branch says: the entry stays pending in the group, and since the consumer only asks for new entries, for ever.\<close>

theorem consumer_malformed_pending:
  "\<exists>w'. run (ProcessOnce sim_platform demo_consumer True)
        (world0 empty_db ((sim0 0)\<lparr>s_stream := [\<lparr>msg_ID = ''1-0'', msg_Values = []\<rparr>]\<rparr>)) = ((1, None), w')
     \<and> s_delivered (ext w') = 1 \<and> s_acked (ext w') = [] \<and> idempotency_records (db w') = []"
proof -
  let ?w = "world0 empty_db ((sim0 0)\<lparr>s_stream := [\<lparr>msg_ID = ''1-0'', msg_Values = []\<rparr>]\<rparr>)"
  have "(case run (ProcessOnce sim_platform demo_consumer True) ?w of (r, w') \<Rightarrow>
      (r, s_delivered (ext w'), s_acked (ext w'), idempotency_records (db w'))) = ((1, None), 1, [], [])"
    by code_simp
  then show ?thesis by (cases "run (ProcessOnce sim_platform demo_consumer True) ?w") auto
qed

end
