(* ===== verification/Event_Stream.thy ===== *)
theory Event_Stream
imports Platform_Sim
begin

section \<open>The event stream between recorder and worker\<close>

text \<open>
  The recorder appends its events to a Redis stream; the workers read the stream as one consumer
  group. The interface between them is the locale \<open>stream_server\<close>: in the states in which
  nothing fails, XADD appends the entry under an id that no entry has had, and XREADGROUP with
  \<open>">"\<close> hands the oldest entries the group has not been given to the caller, at least
  one and at most \<open>n\<close>, or answers \<open>redis.Nil\<close> when there is none. \<open>unread\<close> is the part of the
  stream \<open>st\<close> not yet handed out, \<open>seen\<close> the ids of all its entries. Every other
  command leaves the stream alone, XACK too: what has been handed out is not handed out again by
  \<open>">"\<close>, acknowledged or not.
\<close>

locale stream_server = kv_server_up P raw tick up
  for P :: "'x platform" and raw :: "'x \<Rightarrow> kv" and tick :: "'x \<Rightarrow> time" and up :: "'x \<Rightarrow> bool" +
  fixes st :: string and unread :: "'x \<Rightarrow> xmessage list" and seen :: "'x \<Rightarrow> string set"
  assumes xadd_appends: "up x \<Longrightarrow> p_xadd P st vs x = (Inr i, x') \<Longrightarrow>
      unread x' = unread x @ [\<lparr>msg_ID = i, msg_Values = vs\<rparr>] \<and> i \<notin> seen x \<and> pg_text i \<and> seen x' = insert i (seen x)"
    and xread_takes: "up x \<Longrightarrow> p_xreadgroup P st n b x = (r, x') \<Longrightarrow> up x' \<and> seen x' = seen x
      \<and> (\<exists>ms. unread x = ms @ unread x' \<and> length ms \<le> n \<and> (0 < n \<and> unread x \<noteq> [] \<longrightarrow> ms \<noteq> [])
           \<and> r = (if ms = [] then Inl (Sentinel RedisNil) else Inr ms))"
    and unread_seen: "up x \<Longrightarrow> msg_ID ` set (unread x) \<subseteq> seen x"
    and now_stream: "up x \<Longrightarrow> p_now P x = (t, x') \<Longrightarrow> unread x' = unread x \<and> seen x' = seen x"
    and sleep_stream: "up x \<Longrightarrow> unread (p_sleep P d x) = unread x \<and> seen (p_sleep P d x) = seen x"
    and ctx_stream: "up x \<Longrightarrow> p_ctx_err P x = (e, x') \<Longrightarrow> unread x' = unread x \<and> seen x' = seen x"
    and sql_stream: "up x \<Longrightarrow> p_sql P x = (f, x') \<Longrightarrow> unread x' = unread x \<and> seen x' = seen x"
    and get_stream: "up x \<Longrightarrow> p_get P k x = (g, x') \<Longrightarrow> unread x' = unread x \<and> seen x' = seen x"
    and set_stream: "up x \<Longrightarrow> p_set P k v ttl x = (e', x') \<Longrightarrow> unread x' = unread x \<and> seen x' = seen x"
    and del_stream: "up x \<Longrightarrow> p_del P k x = (e', x') \<Longrightarrow> unread x' = unread x \<and> seen x' = seen x"
    and xack_stream: "up x \<Longrightarrow> p_xack P st i x = (e', x') \<Longrightarrow> unread x' = unread x \<and> seen x' = seen x"

subsection \<open>The simulation provides it\<close>

definition sim_stream_up :: "sim \<Rightarrow> bool" where
  "sim_stream_up s \<longleftrightarrow> sim_up s \<and> s_delivered s \<le> length (s_stream s)
     \<and> (\<forall>m \<in> set (s_stream s). \<exists>k < s_next s. msg_ID m = nat_text k @ ''-0'')"

definition sim_unread :: "sim \<Rightarrow> xmessage list" where
  "sim_unread s = drop (s_delivered s) (s_stream s)"

definition sim_seen :: "sim \<Rightarrow> string set" where
  "sim_seen s = msg_ID ` set (s_stream s)"

lemma entry_id_text: "pg_text (nat_text k @ ''-0'')"
proof -
  have "list_all (\<lambda>c. byte c < 128 \<and> c \<noteq> CHR 0x00) (nat_text k)"
    using nat_text_digits [of k] by (auto simp: list_all_iff is_digit_def byte_def)
  then show ?thesis unfolding pg_text_def
    by (intro conjI valid_utf8_ascii) (auto simp: is_ascii_def list_all_iff byte_def)
qed

lemma sim_up_idle:
  assumes "sim_up x"
  shows "next_fault x = (ROk, x)" "redis_cmd f x = f x" "sim_sql x = (Executed, x)"
  using assms by (simp_all add: sim_up_def next_fault_def redis_cmd_def sim_sql_def)

lemma sim_stream_frame:
  assumes "sim_stream_up x" "s_faults y = s_faults x" "s_fates y = s_fates x" "s_cancelled y = s_cancelled x"
    and "s_stream y = s_stream x" "s_delivered y = s_delivered x" "s_next y = s_next x"
  shows "sim_stream_up y" "sim_unread y = sim_unread x" "sim_seen y = sim_seen x"
  using assms by (simp_all add: sim_stream_up_def sim_up_def sim_unread_def sim_seen_def)

lemma sim_keeps_stream:
  assumes "sim_up x" "y \<in> {snd (sim_get k x), snd (sim_set k v ttl x), snd (sim_setnx k v ttl x), snd (sim_del k x),
      snd (sim_incr k x), snd (sim_expire k ttl x), snd (sim_xack st i x), snd (sim_sql x), x\<lparr>s_clock := t\<rparr>}"
  shows "s_faults y = s_faults x \<and> s_fates y = s_fates x \<and> s_cancelled y = s_cancelled x
    \<and> s_stream y = s_stream x \<and> s_delivered y = s_delivered x \<and> s_next y = s_next x"
  using assms by (auto simp: sim_up_def sim_defs split: option.splits if_splits)

lemma sim_up_of: "sim_stream_up x \<Longrightarrow> sim_up x"
  by (simp add: sim_stream_up_def)

lemma sim_kept:
  assumes "sim_stream_up x" "y \<in> {snd (sim_get k x), snd (sim_set k v ttl x), snd (sim_setnx k v ttl x), snd (sim_del k x),
      snd (sim_incr k x), snd (sim_expire k ttl x), snd (sim_xack st i x), snd (sim_sql x), x\<lparr>s_clock := t\<rparr>}"
  shows "sim_stream_up y \<and> sim_unread y = sim_unread x \<and> sim_seen y = sim_seen x"
  using sim_stream_frame [OF assms(1)] sim_keeps_stream [OF sim_up_of [OF assms(1)] assms(2)] by blast

lemma sim_xadd_stream:
  assumes "sim_stream_up x"
  shows "\<exists>i y. sim_xadd st vs x = (Inr i, y) \<and> sim_stream_up y \<and> sim_unread y = sim_unread x @ [\<lparr>msg_ID = i, msg_Values = vs\<rparr>]
    \<and> i \<notin> sim_seen x \<and> pg_text i \<and> sim_seen y = insert i (sim_seen x)"
proof -
  have fresh: "nat_text (s_next x) @ ''-0'' \<notin> sim_seen x"
    using assms nat_text_inject [of "s_next x"] by (auto simp: sim_seen_def sim_stream_up_def dest!: bspec)
  from assms show ?thesis
    by (simp add: sim_xadd_def sim_up_idle [OF sim_up_of [OF assms]] Let_def fresh entry_id_text sim_unread_def)
      (auto simp: sim_stream_up_def sim_up_def sim_seen_def less_Suc_eq)
qed

lemma sim_xread_stream:
  assumes "sim_stream_up x"
  shows "\<exists>ms y. sim_xreadgroup st n b x = (if ms = [] then Inl (Sentinel RedisNil) else Inr ms, y) \<and> sim_stream_up y
    \<and> sim_seen y = sim_seen x \<and> sim_unread x = ms @ sim_unread y \<and> length ms \<le> n \<and> (0 < n \<and> sim_unread x \<noteq> [] \<longrightarrow> ms \<noteq> [])"
proof -
  let ?ms = "take n (drop (s_delivered x) (s_stream x))"
  let ?y = "if ?ms = [] then x else x\<lparr>s_delivered := s_delivered x + length ?ms\<rparr>"
  have "sim_xreadgroup st n b x = (if ?ms = [] then Inl (Sentinel RedisNil) else Inr ?ms, ?y)"
    by (simp add: sim_xreadgroup_def sim_up_idle [OF sim_up_of [OF assms]] Let_def)
  moreover have "sim_stream_up ?y" "sim_seen ?y = sim_seen x"
    using assms by (auto simp: sim_stream_up_def sim_up_def sim_seen_def)
  moreover have "sim_unread x = ?ms @ sim_unread ?y"
    using append_take_drop_id [of n "drop (s_delivered x) (s_stream x)"]
    by (auto simp: sim_unread_def min_def add.commute)
  ultimately show ?thesis by (intro exI [of _ ?ms] exI [of _ ?y]) (auto simp: sim_unread_def)
qed

lemma sim_kept_ops:
  assumes "sim_stream_up x"
  shows "sim_stream_up (snd (sim_get k x))" "sim_stream_up (snd (sim_set k v ttl x))" "sim_stream_up (snd (sim_setnx k v ttl x))"
    "sim_stream_up (snd (sim_del k x))" "sim_stream_up (snd (sim_incr k x))" "sim_stream_up (snd (sim_expire k ttl x))"
    "sim_stream_up (snd (sim_xack st i x))" "sim_stream_up (snd (sim_sql x))" "sim_stream_up (x\<lparr>s_clock := t\<rparr>)"
  using sim_kept [OF assms, where k = k and v = v and ttl = ttl and st = st and i = i and t = t] by blast+

interpretation simq: stream_server sim_platform s_kv s_clock sim_stream_up st sim_unread sim_seen
proof (rule stream_server.intro)
  show "kv_server_up sim_platform s_kv s_clock sim_stream_up"
  proof (rule kv_server_up.intro [OF sim_law], unfold_locales)
    fix x :: sim and k v :: string and ttl d :: dur and s mid :: string and vs
    assume u: "sim_stream_up x"
    note u' = sim_up_of [OF u]
    show "sim_stream_up (snd (p_incr sim_platform k x)) \<and>
        ((\<forall>v t. live (s_kv x) t k = Some v \<longrightarrow> (\<exists>m. v = Itoa m \<and> 0 \<le> m \<and> m < max_int64)) \<longrightarrow>
         (\<exists>n. fst (p_incr sim_platform k x) = Inr n))"
      using sim.incr_up [OF u', of k] sim_kept_ops(5) [OF u, of k] by simp
    show "sim_stream_up (snd (p_get sim_platform k x)) \<and> (\<forall>e. fst (p_get sim_platform k x) = Inl e \<longrightarrow> e = Sentinel RedisNil)"
      using sim.get_up [OF u', of k] sim_kept_ops(1) [OF u, of k] by simp
    show "sim_stream_up (snd (p_set sim_platform k v ttl x)) \<and> (0 < ttl \<longrightarrow> fst (p_set sim_platform k v ttl x) = None)"
      using sim.set_up [OF u', of k v ttl] sim_kept_ops(2) [OF u, of k v ttl] by simp
    show "sim_stream_up (snd (p_setnx sim_platform k v ttl x)) \<and> (\<exists>b. fst (p_setnx sim_platform k v ttl x) = Inr b)"
      using sim.setnx_up [OF u', of k v ttl] sim_kept_ops(3) [OF u, of k v ttl] by simp
    show "sim_stream_up (snd (p_del sim_platform k x)) \<and> fst (p_del sim_platform k x) = None"
      using sim.del_up [OF u', of k] sim_kept_ops(4) [OF u, of k] by simp
    show "sim_stream_up (snd (p_expire sim_platform k ttl x)) \<and> fst (p_expire sim_platform k ttl x) = None"
      using sim.expire_up [OF u', of k ttl] sim_kept_ops(6) [OF u, of k ttl] by simp
    show "sim_stream_up (snd (p_xack sim_platform s mid x)) \<and> fst (p_xack sim_platform s mid x) = None"
      using sim.xack_up [OF u', of s mid] sim_kept_ops(7) [OF u, of s mid] by simp
    show "sim_stream_up (snd (p_sql sim_platform x)) \<and> fst (p_sql sim_platform x) = Executed"
      using sim.sql_up [OF u'] sim_kept_ops(8) [OF u] by simp
    show "sim_stream_up (snd (p_xadd sim_platform s vs x)) \<and> (\<exists>i. fst (p_xadd sim_platform s vs x) = Inr i)"
      using sim_xadd_stream [OF u, of s vs] by auto
  qed (simp_all add: sim_kept_ops sim_stream_up_def sim_up_def)
  show "stream_server_axioms sim_platform sim_stream_up st sim_unread sim_seen"
  proof (unfold_locales, goal_cases)
    case (1 x vs i x')
    with sim_xadd_stream [OF 1(1), of st vs] show ?case by auto
  next
    case (2 x n b r x')
    from sim_xread_stream [OF 2(1), of st n b] obtain ms y where
      y: "sim_xreadgroup st n b x = (if ms = [] then Inl (Sentinel RedisNil) else Inr ms, y)" and
      props: "sim_stream_up y" "sim_seen y = sim_seen x" "sim_unread x = ms @ sim_unread y" "length ms \<le> n"
        "0 < n \<and> sim_unread x \<noteq> [] \<longrightarrow> ms \<noteq> []"
      by blast
    from 2(2) y have "r = (if ms = [] then Inl (Sentinel RedisNil) else Inr ms)" "x' = y"
      unfolding sim_platform_sel by simp_all
    with props show ?case by blast
  next
    case (3 x)
    show ?case using set_drop_subset [of "s_delivered x" "s_stream x"] by (auto simp: sim_unread_def sim_seen_def)
  next
    case (7 x f x')
    then have "x' = snd (sim_sql x)" by simp
    with sim_kept [OF 7(1), where y = x'] show ?case by blast
  next
    case (8 x k g x')
    then have "x' = snd (sim_get k x)" by simp
    with sim_kept [OF 8(1), where y = x' and k = k] show ?case by blast
  next
    case (9 x k v ttl e' x')
    then have "x' = snd (sim_set k v ttl x)" by simp
    with sim_kept [OF 9(1), where y = x' and k = k and v = v and ttl = ttl] show ?case by blast
  next
    case (10 x k e' x')
    then have "x' = snd (sim_del k x)" by simp
    with sim_kept [OF 10(1), where y = x' and k = k] show ?case by blast
  next
    case (11 x i e' x')
    then have "x' = snd (sim_xack st i x)" by simp
    with sim_kept [OF 11(1), where y = x' and st = st and i = i] show ?case by blast
  qed (auto simp: sim_unread_def sim_seen_def)
qed

end
