(* ===== verification/Pipeline.thy ===== *)
theory Pipeline
imports Consumer_Props Recorder_Props Event_Stream
begin

section \<open>From a click to the daily counts\<close>

text \<open>
  The recorder, the Redis stream and the worker together: when nothing fails, every event in
  the recorder's channel is counted exactly once in the rows of its URL, its day and its
  referrer. What the two programs rely on of the stream is the locale of theory Event_Stream.
\<close>

definition event_sec :: "event \<Rightarrow> int" where
  "event_sec e = ev_TS e div nano_s"

text \<open>The rows of \<open>analytics_daily\<close> that an event is counted in.\<close>

definition event_keys :: "database \<Rightarrow> event \<Rightarrow> (int \<times> int \<times> string \<times> string) list" where
  "event_keys d e = (case lookup_url d (ev_Code e) of
     None \<Rightarrow> [] | Some u \<Rightarrow> click_keys (ID u) (day_of_sec (event_sec e)) (ev_Referrer e))"

text \<open>An event whose texts PostgreSQL takes, at an instant whose second and day are in range.\<close>

definition countable_event :: "event \<Rightarrow> bool" where
  "countable_event e \<longleftrightarrow> ev_Code e \<noteq> '''' \<and> pg_text (ev_Code e) \<and> pg_text (ev_Referrer e)
     \<and> min_int64 \<le> event_sec e \<and> event_sec e \<le> max_int64 \<and> pg_date (day_of_sec (event_sec e))"

definition known_code :: "database \<Rightarrow> event \<Rightarrow> bool" where
  "known_code d e \<longleftrightarrow> lookup_url d (ev_Code e) \<noteq> None"

text \<open>All of \<open>es\<close> have been counted between \<open>w\<close> and \<open>w'\<close>, and nothing else.\<close>

definition counted :: "event list \<Rightarrow> 'x world \<Rightarrow> 'x world \<Rightarrow> bool" where
  "counted es w w' \<longleftrightarrow> db_inv (db w') \<and> urls (db w') = urls (db w)
     \<and> (\<forall>Q. clicks_in Q (db w') = clicks_in Q (db w) + hits Q (concat (map (event_keys (db w)) es)))
     \<and> counters w' AnalyticsProcessed = counters w AnalyticsProcessed + length (filter (known_code (db w)) es)
     \<and> counters w' AnalyticsDeduped = counters w AnalyticsDeduped + length (filter (\<lambda>e. \<not> known_code (db w) e) es)"

lemma same_urls:
  assumes "urls d' = urls d"
  shows "event_keys d' = event_keys d" "known_code d' = known_code d"
  using assms by (simp_all add: fun_eq_iff event_keys_def known_code_def lookup_url_def)

lemma counted_trans: "counted es w v \<Longrightarrow> counted fs v w' \<Longrightarrow> counted (es @ fs) w w'"
proof -
  assume a: "counted es w v" and b: "counted fs v w'"
  from a have "urls (db v) = urls (db w)" by (simp add: counted_def)
  note same = same_urls [OF this]
  from a b show ?thesis unfolding counted_def same by simp
qed

lemma counted_none: "db_inv (db w) \<Longrightarrow> db w' = db w \<Longrightarrow> counters w' = counters w \<Longrightarrow> counted [] w w'"
  by (simp add: counted_def)

lemma event_values_sel:
  assumes "msg_Values m = event_values e"
  shows "msg_value m ''code'' = ev_Code e" "msg_value m ''referrer'' = ev_Referrer e" "msg_value m ''ts'' = Itoa (event_sec e)"
  by (simp_all add: msg_value_def assms event_values_def event_sec_def)

subsection \<open>Room for the counts\<close>

definition room_for :: "nat \<Rightarrow> database \<Rightarrow> bool" where
  "room_for n d \<longleftrightarrow> (\<forall>k. daily_count d k + int n \<le> max_int64)"

lemma room_for_mono: "room_for n d \<Longrightarrow> m \<le> n \<Longrightarrow> room_for m d"
proof -
  assume r: "room_for n d" and "m \<le> n"
  then have "int m \<le> int n" by simp
  with r show "room_for m d" unfolding room_for_def by (meson add_left_mono order_trans)
qed

lemma daily_count_row:
  assumes "distinct (map daily_key (analytics_daily d))"
  shows "a \<in> set (analytics_daily d) \<Longrightarrow> daily_count d (daily_key a) = d_count a"
    "k \<notin> daily_key ` set (analytics_daily d) \<Longrightarrow> daily_count d k = 0"
proof -
  have "distinct (map daily_key as) \<Longrightarrow> sum_list (map d_count (filter (\<lambda>a. daily_key a = k) as))
      = (if k \<in> daily_key ` set as then d_count (the (find (\<lambda>a. daily_key a = k) as)) else 0)" for as k
    by (induction as) auto
  note eq = this [OF assms]
  have "distinct (map daily_key as) \<Longrightarrow> a \<in> set as \<Longrightarrow> find (\<lambda>b. daily_key b = daily_key a) as = Some a" for as
    by (induction as) (auto simp: image_iff)
  with eq [of "daily_key a"] assms show "a \<in> set (analytics_daily d) \<Longrightarrow> daily_count d (daily_key a) = d_count a"
    by (simp add: daily_count_def clicks_in_def)
  show "k \<notin> daily_key ` set (analytics_daily d) \<Longrightarrow> daily_count d k = 0"
    using eq [of k] by (simp add: daily_count_def clicks_in_def)
qed

lemma room_for_rows:
  assumes "daily_inv d" "\<forall>a \<in> set (analytics_daily d). d_count a + int n \<le> max_int64" "int n \<le> max_int64"
  shows "room_for n d"
  unfolding room_for_def
proof
  fix k
  have dist: "distinct (map daily_key (analytics_daily d))" using assms(1) by (simp add: daily_inv_def)
  show "daily_count d k + int n \<le> max_int64"
    using daily_count_row [OF dist] assms(2,3) by (cases "k \<in> daily_key ` set (analytics_daily d)") auto
qed

lemma room_for_room:
  assumes "daily_inv d" "room_for (Suc n) d"
  shows "room d k"
  unfolding room_def
proof (intro ballI impI)
  fix a
  assume "a \<in> set (analytics_daily d)" "daily_key a = k"
  moreover have "distinct (map daily_key (analytics_daily d))" using assms(1) by (simp add: daily_inv_def)
  ultimately have "d_count a = daily_count d k" using daily_count_row(1) by metis
  moreover have "daily_count d k + int (Suc n) \<le> max_int64" using assms(2) unfolding room_for_def by blast
  ultimately show "d_count a < max_int64" by simp
qed

lemma event_hits: "hits (\<lambda>q. q = k) (event_keys d e) \<le> 1"
proof -
  have "distinct (event_keys d e)" by (simp add: event_keys_def distinct_click_keys split: option.split)
  then show ?thesis by (simp add: hits_eq)
qed

lemma counted_room: "counted es w w' \<Longrightarrow> room_for (length es + n) (db w) \<Longrightarrow> room_for n (db w')"
proof -
  assume c: "counted es w w'" and room: "room_for (length es + n) (db w)"
  have "hits (\<lambda>q. q = k) (concat (map (event_keys (db w)) es)) \<le> int (length es)" for k
  proof (induction es)
    case (Cons e es)
    with event_hits [of k "db w" e] show ?case by simp
  qed simp
  with c room show ?thesis unfolding counted_def daily_count_def room_for_def
    by (smt (verit) of_nat_add)
qed

subsection \<open>The worker counts an event\<close>

context kv_server_up begin

lemma handle_unknown_up:
  assumes "up (ext w)" "db_inv (db w)" "msg_value msg ''code'' \<noteq> ''''" "pg_text (msg_value msg ''code'')"
    and "pg_text (msg_ID msg)" "msg_ID msg \<notin> claimed (db w)" "lookup_url (db w) (msg_value msg ''code'') = None"
    and "ParseInt (msg_value msg ''ts'') = Some sec" "run (handle P c msg) w = (e, w')"
  shows "e = None \<and> claimed (db w') = insert (msg_ID msg) (claimed (db w)) \<and> urls (db w') = urls (db w)
    \<and> counters w' = (counters w)(AnalyticsDeduped := Suc (counters w AnalyticsDeduped))
    \<and> db_inv (db w') \<and> up (ext w') \<and> (\<forall>Q. clicks_in Q (db w') = clicks_in Q (db w))"
proof -
  let ?i = "insert_idem (msg_ID msg) ''analytics'' idempotencyTTL" and ?code = "msg_value msg ''code''"
  obtain r v where r: "run (SQL P ?i) w = (r, v)" by (cases "run (SQL P ?i) w")
  obtain n where n: "?i n (db w) = (r, db v)" "up (ext v)" "counters v = counters w"
    using SQL_up [OF assms(1) r] by (metis prod.collapse)
  note cl = insert_idem_claimed [OF n(1)]
  have "r \<noteq> Inl x" for x using n(1) assms(5) by (auto simp: insert_idem_def split: if_splits)
  with cl(6,7) assms(6) have r1: "r = Inr 1" by auto
  with cl have new: "claimed (db v) = insert (msg_ID msg) (claimed (db w))" by auto
  have inv: "db_inv (db v)" by (rule insert_idem_inv [OF n(1) assms(2)])
  obtain q y where q: "run (SQL P (select_url_id ?code)) v = (q, y)" by (cases "run (SQL P (select_url_id ?code)) v")
  have "select_url_id ?code now (db v) = (Inl (Sentinel PgxErrNoRows), db v)" for now
    using assms(4,7) cl(2) by (simp add: select_url_id_def lookup_url_def)
  with SQL_up [OF n(2) q] have y: "q = Inl (Sentinel PgxErrNoRows)" "db y = db v" "up (ext y)" "counters y = counters v" by auto
  have "run (bindp (Inc AnalyticsDeduped) (\<lambda>_. consumer_ack P c (msg_ID msg))) y = (e, w')"
    using assms(3,8,9) r r1 q y(1)
    by (simp add: handle_def consumer_claim_def eventDay_def run_tryp run_bindp run_Ret)
  from ack_up [OF y(3) this] y new cl(1,2) inv n(3) show ?thesis by (simp add: clicks_in_def)
qed

lemma handle_event_up:
  assumes up: "up (ext w)" and inv: "db_inv (db w)" and m: "msg_Values m = event_values e" and ev: "countable_event e"
    and i: "pg_text (msg_ID m)" "msg_ID m \<notin> claimed (db w)" and room: "room_for (Suc n) (db w)"
    and r: "run (handle P c m) w = (res, w')"
  shows "res = None \<and> up (ext w') \<and> counted [e] w w' \<and> claimed (db w') = insert (msg_ID m) (claimed (db w))"
proof -
  note sel = event_values_sel [OF m]
  have code: "ev_Code e \<noteq> ''''" "pg_text (ev_Code e)" "pg_text (ev_Referrer e)"
    and ts: "ParseInt (Itoa (event_sec e)) = Some (event_sec e)" "pg_date (day_of_sec (event_sec e))"
    using ev ParseInt_Itoa by (simp_all add: countable_event_def)
  have "daily_inv (db w)" using inv by (simp add: db_inv_def)
  note rooms = room_for_room [OF this room]
  show ?thesis
  proof (cases "lookup_url (db w) (ev_Code e)")
    case None
    with handle_unknown_up [OF up inv _ _ i _ _ r, of "event_sec e"] sel code ts
    show ?thesis by (simp add: counted_def known_code_def event_keys_def)
  next
    case (Some u)
    with handle_fresh_up [OF up inv _ code(1) i _ _ ts(2) _ rooms r, of u] sel code ts
    show ?thesis by (simp add: counted_def known_code_def event_keys_def)
  qed
qed

end

subsection \<open>The worker drains the stream\<close>

context stream_server begin

definition stream_is :: "xmessage list \<Rightarrow> string set \<Rightarrow> event list \<Rightarrow> 'x world \<Rightarrow> bool" where
  "stream_is U S B w \<longleftrightarrow> up (ext w) \<and> unread (ext w) = U \<and> seen (ext w) = S \<and> buffer w = B"

abbreviation leaves :: "xmessage list \<Rightarrow> string set \<Rightarrow> event list \<Rightarrow> ('x world, 'a) prog \<Rightarrow> bool" where
  "leaves U S B p \<equiv> safe (stream_is U S B) (\<lambda>_. True) p"

lemma leaves_SQL [intro]: "leaves U S B (SQL P stm)"
proof (rule safe_SQL)
  fix w x f r d
  assume "stream_is U S B w" "p_sql P (ext w) = (f, x)" "stm (p_sql_now P x) (db w) = (r, d)"
  then show "True \<and> stream_is U S B (w\<lparr>db := d, ext := x\<rparr>)"
    using sql_up [of "ext w"] sql_stream [of "ext w"] by (simp add: stream_is_def)
next
  fix w x f
  assume "stream_is U S B w" "p_sql P (ext w) = (f, x)"
  then show "stream_is U S B (w\<lparr>ext := x\<rparr>)"
    using sql_up [of "ext w"] sql_stream [of "ext w"] by (simp add: stream_is_def)
qed simp

lemma leaves_Inc [intro]: "leaves U S B (Inc m)"
  by (rule safe_Inc) (simp_all add: stream_is_def)

lemma leaves_ext:
  assumes "\<And>x r x'. up x \<Longrightarrow> g x = (r, x') \<Longrightarrow> up x' \<and> unread x' = unread x \<and> seen x' = seen x"
  shows "leaves U S B (ext_act g)"
  by (rule safe_ext_act) (use assms in \<open>fastforce simp: stream_is_def\<close>)

lemma leaves_time [intro]: "leaves U S B (time_Now P)" "leaves U S B (time_Sleep P d)" "leaves U S B (ctx_Err P)"
proof -
  show "leaves U S B (time_Now P)" unfolding act_defs
    by (rule leaves_ext) (metis now_up now_stream snd_conv)
  show "leaves U S B (time_Sleep P d)" unfolding act_defs
    by (rule leaves_ext) (use sleep_up sleep_stream in auto)
  show "leaves U S B (ctx_Err P)" unfolding act_defs
  proof (rule leaves_ext)
    fix x r x'
    assume "up x" "map_prod (map_option Plain) id (p_ctx_err P x) = (r, x')"
    with ctx_up [of x] ctx_stream [of x] show "up x' \<and> unread x' = unread x \<and> seen x' = seen x"
      by (cases "p_ctx_err P x") auto
  qed
qed

lemma leaves_handle:
  assumes "cons_stream c = st"
  shows "leaves U S B (handle P c msg)"
proof -
  have ack: "leaves U S B (consumer_ack P c i)" for i
    unfolding consumer_ack_def assms by (rule leaves_ext) (metis xack_up xack_stream fst_conv snd_conv prod.collapse)
  have day: "leaves U S B (eventDay P msg)"
    unfolding eventDay_def by (auto intro!: safe_any_bindp leaves_time split: option.split)
  have count: "leaves U S B (count_click P c msg d i)" for d i
    unfolding count_click_def by (auto intro!: safe_any_bindp leaves_SQL leaves_Inc ack split: sum.split option.split)
  show ?thesis unfolding handle_def consumer_claim_def tryp_def
    by (auto intro!: safe_any_bindp leaves_SQL leaves_Inc ack day count split: sum.split)
qed

lemma handle_frame:
  assumes "cons_stream c = st" "up (ext w)" "run (handle P c m) w = (res, w')"
  shows "unread (ext w') = unread (ext w) \<and> seen (ext w') = seen (ext w) \<and> buffer w' = buffer w"
  using safe_run [OF leaves_handle [OF assms(1)] _ assms(3), of "unread (ext w)" "seen (ext w)" "buffer w"] assms(2)
  by (simp add: stream_is_def)

text \<open>
  \<open>batch_of es ms w\<close>: the messages \<open>ms\<close> carry the events \<open>es\<close>, under ids of
  their own that no worker has claimed.
\<close>

definition batch_of :: "event list \<Rightarrow> xmessage list \<Rightarrow> 'x world \<Rightarrow> bool" where
  "batch_of es ms w \<longleftrightarrow> map msg_Values ms = map event_values es \<and> (\<forall>e \<in> set es. countable_event e)
     \<and> distinct (map msg_ID ms) \<and> (\<forall>m \<in> set ms. pg_text (msg_ID m) \<and> msg_ID m \<notin> claimed (db w))"

lemma handle_all_up:
  assumes "cons_stream c = st" "up (ext w)" "db_inv (db w)" "batch_of es ms w" "room_for (length es) (db w)"
    and "run (handle_all P c k ms) w = (res, w')"
  shows "res = (k + length es, None) \<and> up (ext w') \<and> counted es w w'
    \<and> claimed (db w') = msg_ID ` set ms \<union> claimed (db w)
    \<and> unread (ext w') = unread (ext w) \<and> seen (ext w') = seen (ext w) \<and> buffer w' = buffer w"
  using assms(2-)
proof (induction ms arbitrary: es k w)
  case Nil
  then show ?case by (simp add: batch_of_def counted_none run_Ret)
next
  case (Cons m ms)
  from Cons.prems(3) obtain e fs where es: "es = e # fs" by (cases es) (auto simp: batch_of_def)
  obtain r v where h: "run (handle P c m) w = (r, v)" by (cases "run (handle P c m) w")
  have m: "msg_Values m = event_values e" "countable_event e" "pg_text (msg_ID m)" "msg_ID m \<notin> claimed (db w)"
    using Cons.prems(3) by (auto simp: batch_of_def es)
  have room: "room_for (Suc (length fs)) (db w)" using Cons.prems(4) by (simp add: es)
  note one = handle_event_up [OF Cons.prems(1,2) m room h] and frame = handle_frame [OF assms(1) Cons.prems(1) h]
  have "batch_of fs ms v" using Cons.prems(3) one by (auto simp: batch_of_def es image_iff)
  moreover have "room_for (length fs) (db v)" using counted_room [of "[e]" w v "length fs"] one room by simp
  moreover have "run (handle_all P c (Suc k) ms) v = (res, w')" using Cons.prems(5) h one by (simp add: run_bindp)
  ultimately have rest: "res = (Suc k + length fs, None) \<and> up (ext w') \<and> counted fs v w'
    \<and> claimed (db w') = msg_ID ` set ms \<union> claimed (db v)
    \<and> unread (ext w') = unread (ext v) \<and> seen (ext w') = seen (ext v) \<and> buffer w' = buffer v"
    using one by (intro Cons.IH) (auto simp: counted_def)
  with counted_trans [of "[e]" w v fs w'] one frame show ?case by (auto simp: es)
qed

definition pending :: "event list \<Rightarrow> 'x world \<Rightarrow> bool" where
  "pending es w \<longleftrightarrow> up (ext w) \<and> db_inv (db w) \<and> batch_of es (unread (ext w)) w \<and> claimed (db w) \<subseteq> seen (ext w)"

lemma pending_none: "up (ext w) \<Longrightarrow> db_inv (db w) \<Longrightarrow> unread (ext w) = [] \<Longrightarrow> claimed (db w) \<subseteq> seen (ext w) \<Longrightarrow> pending [] w"
  by (simp add: pending_def batch_of_def)

lemma ProcessOnce_up:
  assumes c: "cons_stream c = st" and pend: "pending es w" and room: "room_for (length es) (db w)"
    and r: "run (ProcessOnce P c b) w = ((k, err), w')"
  obtains es1 es2 where "es = es1 @ es2" "k = length es1" "err = None" "es \<noteq> [] \<Longrightarrow> es1 \<noteq> []"
    "pending es2 w'" "counted es1 w w'" "buffer w' = buffer w"
proof -
  obtain g x where g: "p_xreadgroup P st batchSize b (ext w) = (g, x)" by (cases "p_xreadgroup P st batchSize b (ext w)")
  have up: "up (ext w)" and inv: "db_inv (db w)" and batch: "batch_of es (unread (ext w)) w" and cl: "claimed (db w) \<subseteq> seen (ext w)"
    using pend by (simp_all add: pending_def)
  obtain ms where x: "up x" "seen x = seen (ext w)" "unread (ext w) = ms @ unread x" "unread (ext w) \<noteq> [] \<longrightarrow> ms \<noteq> []"
    "g = (if ms = [] then Inl (Sentinel RedisNil) else Inr ms)"
    using xread_takes [OF up g] by (auto simp: batchSize_def)
  let ?n = "length ms" and ?v = "w\<lparr>ext := x\<rparr>"
  have len: "length es = length (unread (ext w))" using batch unfolding batch_of_def by (metis length_map)
  have parts: "batch_of (take ?n es) ms ?v" "batch_of (drop ?n es) (unread x) ?v"
    using batch unfolding batch_of_def x(3) by (auto simp: take_map drop_map dest: in_set_takeD in_set_dropD)
      (metis append_eq_conv_conj length_map take_map drop_map)+
  have n: "length (take ?n es) = ?n" using len x(3) by simp
  have go: "run (handle_all P c 0 ms) ?v = ((k, err), w')"
    using r g c x(5) by (auto simp: ProcessOnce_def run_simps split: if_splits)
  have room': "room_for (length (take ?n es)) (db ?v)" using room_for_mono [OF room] by simp
  have h: "(k, err) = (0 + ?n, None) \<and> up (ext w') \<and> counted (take ?n es) ?v w'
    \<and> claimed (db w') = msg_ID ` set ms \<union> claimed (db ?v)
    \<and> unread (ext w') = unread x \<and> seen (ext w') = seen x \<and> buffer w' = buffer ?v"
    using handle_all_up [OF c _ _ parts(1) room' go] x(1) inv n by simp
  have ids: "msg_ID ` set ms \<subseteq> seen (ext w)" using unread_seen [OF up] x(3) by auto
  have fresh: "msg_ID m \<notin> msg_ID ` set ms" if "m \<in> set (unread x)" for m
    using batch that unfolding batch_of_def x(3) by auto
  show thesis
  proof (rule that [of "take ?n es" "drop ?n es"])
    show "pending (drop ?n es) w'"
      using h parts(2) fresh ids cl x(2) by (auto simp: pending_def batch_of_def counted_def)
    show "counted (take ?n es) w w'" using h by (simp add: counted_def)
    show "es \<noteq> [] \<Longrightarrow> take ?n es \<noteq> []" using x(4) len by auto
  qed (use h n in auto)
qed

lemma consumer_Run_up:
  assumes "cons_stream c = st" "pending es w" "room_for (length es) (db w)" "length es \<le> n"
    and "run (consumer_Run P c n) w = (b, w')"
  shows "pending [] w' \<and> counted es w w' \<and> buffer w' = buffer w \<and> \<not> b"
  using assms(2-)
proof (induction n arbitrary: es w)
  case 0
  then show ?case by (auto simp: run_Ret pending_def intro: counted_none)
next
  case (Suc n)
  obtain ce x1 where c1: "p_ctx_err P (ext w) = (ce, x1)" by (cases "p_ctx_err P (ext w)")
  let ?v = "w\<lparr>ext := x1\<rparr>"
  have x1: "ce = None" "pending es ?v"
    using Suc.prems(1) ctx_up [of "ext w"] ctx_stream [of "ext w"] c1 by (auto simp: pending_def batch_of_def)
  obtain k err y where p: "run (ProcessOnce P c True) ?v = ((k, err), y)"
    by (metis prod.collapse)
  have "room_for (length es) (db ?v)" using Suc.prems(2) by simp
  from ProcessOnce_up [OF assms(1) x1(2) this p] obtain es1 es2 where
    o: "es = es1 @ es2" "k = length es1" "es \<noteq> [] \<Longrightarrow> es1 \<noteq> []" "pending es2 y" "counted es1 ?v y" "buffer y = buffer ?v"
    by metis
  show ?case
  proof (cases "k = 0")
    case False
    have "run (consumer_Run P c n) y = (b, w')" using Suc.prems(4) c1 x1(1) p False by (simp add: run_simps act_defs)
    moreover have "room_for (length es2) (db y)" using counted_room [OF o(5)] Suc.prems(2) o(1) by simp
    moreover have "length es2 \<le> n" using Suc.prems(3) o(1,2) False by (cases es1) auto
    ultimately have "pending [] w' \<and> counted es2 y w' \<and> buffer w' = buffer y \<and> \<not> b" using Suc.IH o(4) by blast
    then have rest: "pending [] w'" "counted es2 y w'" "buffer w' = buffer y" "\<not> b" by blast+
    have frame: "db ?v = db w" "counters ?v = counters w" "buffer ?v = buffer w" by simp_all
    have "counted es1 w y" using o(5) unfolding counted_def frame .
    from counted_trans [OF this rest(2)] rest o(6) show ?thesis unfolding o(1) frame by simp
  next
    case True
    then have "es1 = []" using o(2) by simp
    then have es: "es = []" "es2 = []" "es1 = []" using o(1,3) by blast+
    obtain ce2 x2 where c2: "p_ctx_err P (ext y) = (ce2, x2)" by (cases "p_ctx_err P (ext y)")
    let ?z = "y\<lparr>ext := p_sleep P (100 * nano_ms) x2\<rparr>"
    have x2: "ce2 = None" "pending [] ?z"
      using o(4) ctx_up [of "ext y"] ctx_stream [of "ext y"] sleep_up [of x2] sleep_stream [of x2] c2
      by (auto simp: pending_def batch_of_def es(2))
    have "run (consumer_Run P c n) ?z = (b, w')" using Suc.prems(4) c1 x1(1) p True c2 x2(1) by (simp add: run_simps act_defs)
    moreover have "room_for (length []) (db ?z)" using counted_room [OF o(5), of 0] Suc.prems(2) es by simp
    ultimately have "pending [] w' \<and> counted [] ?z w' \<and> buffer w' = buffer ?z \<and> \<not> b" using Suc.IH [of "[]" ?z] x2(2) by simp
    then have rest: "pending [] w'" "counted [] ?z w'" "buffer w' = buffer y" "\<not> b" by simp_all
    have "counted [] w w'"
      using counted_trans [of "[]" y y "[]" w'] rest(2) o(5) unfolding es counted_def by simp
    with rest o(6) show ?thesis by (simp add: es)
  qed
qed

subsection \<open>The recorder fills it\<close>

lemma publish_up:
  assumes "rec_stream r = st" "pending es w" "countable_event e" "run (publish P r e) w = (a, w')"
  shows "pending (es @ [e]) w' \<and> db w' = db w \<and> buffer w' = buffer w
    \<and> counters w' = (counters w)(EventsPublished := Suc (counters w EventsPublished))"
proof -
  have up: "up (ext w)" using assms(2) by (simp add: pending_def)
  obtain i x where x: "p_xadd P st (event_values e) (ext w) = (Inr i, x)" "up x"
    using xadd_up [OF up, of st "event_values e"] by (metis prod.collapse)
  note app = xadd_appends [OF up x(1)]
  from assms(4) x(1) assms(1) have w': "w' = inc_metric EventsPublished (w\<lparr>ext := x\<rparr>)"
    by (simp add: publish_def run_simps)
  with app x(2) assms(2,3) unread_seen [OF up] show ?thesis
    by (auto simp: pending_def batch_of_def inc_metric_def)
qed

lemma run_recorder_up:
  assumes "rec_stream r = st" "pending es w" "\<forall>e \<in> set (buffer w). countable_event e" "length (buffer w) \<le> n"
    and "run (run_recorder P r n) w = (u, w')"
  shows "pending (es @ buffer w) w' \<and> db w' = db w \<and> buffer w' = []
    \<and> counters w' = (counters w)(EventsPublished := counters w EventsPublished + length (buffer w))"
  using assms(2-)
proof (induction n arbitrary: es w)
  case 0
  then show ?case by (simp add: run_Ret)
next
  case (Suc n)
  show ?case
  proof (cases "buffer w")
    case Nil
    with Suc.prems have "run (run_recorder P r n) w = (u, w')" by (simp add: run_simps take_step_def)
    from Suc.IH [OF Suc.prems(1) _ _ this] Nil show ?thesis by simp
  next
    case (Cons e fs)
    let ?w = "w\<lparr>buffer := fs\<rparr>"
    obtain a v where p: "run (publish P r e) ?w = (a, v)" by (cases "run (publish P r e) ?w")
    have "pending es ?w" using Suc.prems(1) by (simp add: pending_def batch_of_def)
    from publish_up [OF assms(1) this _ p] Suc.prems(2) Cons
    have v: "pending (es @ [e]) v" "db v = db w" "buffer v = fs"
      "counters v = (counters w)(EventsPublished := Suc (counters w EventsPublished))" by auto
    have "run (run_recorder P r n) v = (u, w')" using Suc.prems(4) p Cons by (simp add: run_simps take_step_def)
    from Suc.IH [OF v(1) _ _ this] v Suc.prems(2,3) Cons show ?thesis by (simp add: fun_eq_iff)
  qed
qed

end

subsection \<open>The pipeline\<close>


definition demo_flow :: "event list" where
  "demo_flow = [\<lparr>ev_Code = ''ab0'', ev_Referrer = ''x'', ev_TS = 5\<rparr>, \<lparr>ev_Code = ''gone'', ev_Referrer = '''', ev_TS = 6\<rparr>]"

definition demo_recorder :: recorder where
  "demo_recorder = \<lparr>rec_stream = ''v1:events''\<rparr>"


subsection \<open>Where the pipeline loses a whole batch\<close>


end
