(* ===== verification/Middleware.thy ===== *)
theory Middleware
imports Http
begin

section \<open>Middleware\<close>

text \<open>
  \<open>internal/middleware\<close> except the rate limiter: functions from handlers to handlers.
  \<open>Recoverer\<close> turns a panic into a bare 500 with the headers that were set by then; no
  handler raises \<open>http.ErrAbortHandler\<close>, which it would pass on. The logger and the latency
  metric read the clock before and after; what they log is left out.
\<close>

definition RequestIDHeader :: string where "RequestIDHeader = ''X-Request-Id''"

definition validRequestID :: "string \<Rightarrow> bool" where
  "validRequestID i \<longleftrightarrow> length i > 0 \<and> length i \<le> 128"

definition hex_encode :: "string \<Rightarrow> string" where
  "hex_encode s = concat (map (\<lambda>c. [hex_digit (byte c div 16), hex_digit (byte c mod 16)]) s)"

definition newRequestID :: "'x platform \<Rightarrow> ('x world, string) prog" where
  "newRequestID P = bindp (ext_act (p_rand P 16)) (\<lambda>r.
     case r of None \<Rightarrow> Ret ''unknown'' | Some buf \<Rightarrow> Ret (hex_encode buf))"

definition RequestID :: "'x platform \<Rightarrow> 'x world handler \<Rightarrow> 'x world handler" where
  "RequestID P nxt q hs =
     bindp (if \<not> validRequestID (q_Header q RequestIDHeader) then newRequestID P
            else Ret (q_Header q RequestIDHeader)) (\<lambda>i.
       nxt (q\<lparr>q_RequestID := i\<rparr>) (hs(RequestIDHeader \<mapsto> i)))"

definition Recoverer :: "'w handler \<Rightarrow> 'w handler" where
  "Recoverer nxt q hs = bindp (nxt q hs) (\<lambda>r.
     case r of
       Written resp \<Rightarrow> Ret (Written resp)
     | Raised hs1 \<Rightarrow> respond 500 hs1 NoBody)"

definition InstanceID :: "string \<Rightarrow> 'w handler \<Rightarrow> 'w handler" where
  "InstanceID i nxt q hs = nxt q (hs(''X-Instance'' \<mapsto> i))"

definition RequestLogger :: "'x platform \<Rightarrow> 'x world handler \<Rightarrow> 'x world handler" where
  "RequestLogger P nxt q hs =
     bindp (time_Now P) (\<lambda>start.
     bindp (nxt q hs) (\<lambda>r.
       case r of
         Raised hs1 \<Rightarrow> Ret (Raised hs1)
       | Written resp \<Rightarrow> bindp (time_Now P) (\<lambda>_. Ret (Written resp))))"

definition Metrics :: "'x platform \<Rightarrow> 'x world handler \<Rightarrow> 'x world handler" where
  "Metrics P nxt q hs =
     bindp (time_Now P) (\<lambda>start.
     bindp (nxt q hs) (\<lambda>r.
       case r of
         Raised hs1 \<Rightarrow> Ret (Raised hs1)
       | Written resp \<Rightarrow> bindp (time_Now P) (\<lambda>_. bindp (Inc HTTPRequests) (\<lambda>_. Ret (Written resp)))))"

lemmas middleware_defs = RequestID_def Recoverer_def InstanceID_def RequestLogger_def Metrics_def

end
