(* ===== verification/Router.thy ===== *)
theory Router
imports Url_Handler Middleware Rate_Limit
begin

section \<open>The router\<close>

text \<open>
  \<open>internal/router/router.go\<close>: the options, the route table, and the middleware around it.
  Matching a path against the patterns is chi's work: \<open>chi_match\<close> is given the table's
  methods and patterns and answers with the index of the route and its path parameter, and
  \<open>chi_other\<close> is its answer when no route fits. The handler of \<open>/metrics\<close> belongs to
  the Prometheus client; it is an argument too.
\<close>

record options =
  o_rateLimiter :: "rate_limiter option"
  o_recorder :: "recorder option"
  o_instanceID :: string
  o_metrics :: bool

record 'w chi =
  chi_match :: "(string \<times> string) list \<Rightarrow> string \<Rightarrow> string \<Rightarrow> (nat \<times> string) option"
  chi_other :: "'w handler"
  prom_handler :: "'w handler"

definition no_options :: options where
  "no_options = \<lparr>o_rateLimiter = None, o_recorder = None, o_instanceID = '''', o_metrics = False\<rparr>"

definition WithMetrics :: "options \<Rightarrow> options" where
  "WithMetrics o1 = o1\<lparr>o_metrics := True\<rparr>"

definition WithRateLimiter :: "string \<Rightarrow> int \<Rightarrow> options \<Rightarrow> options" where
  "WithRateLimiter keyBase n o1 = o1\<lparr>o_rateLimiter := Some (RateLimit keyBase n)\<rparr>"

definition WithRecorder :: "recorder \<Rightarrow> options \<Rightarrow> options" where
  "WithRecorder r o1 = o1\<lparr>o_recorder := Some r\<rparr>"

definition WithInstanceID :: "string \<Rightarrow> options \<Rightarrow> options" where
  "WithInstanceID i o1 = o1\<lparr>o_instanceID := i\<rparr>"

definition routes ::
  "'x platform \<Rightarrow> golib \<Rightarrow> 'x world chi \<Rightarrow> 'x world url_service \<Rightarrow> options
     \<Rightarrow> ((string \<times> string) \<times> 'x world handler) list" where
  "routes P L chi s o1 =
     (let uh = \<lparr>svc = s, recd = o_recorder o1\<rparr>
      in [((''GET'', ''/health''), Health), ((''GET'', ''/ready''), Ready P)]
         @ (if o_metrics o1 then [((''GET'', ''/metrics''), prom_handler chi)] else [])
         @ [((''POST'', ''/api/v1/urls/''),
               case o_rateLimiter o1 of
                 Some rl \<Rightarrow> rate_limit P rl (handle_Create P L uh)
               | None \<Rightarrow> handle_Create P L uh),
            ((''GET'', ''/api/v1/urls/{code}''), handle_Get P L uh),
            ((''DELETE'', ''/api/v1/urls/{code}''), handle_Delete P L uh),
            ((''GET'', ''/api/v1/urls/{code}/stats''), handle_Stats P L uh),
            ((''GET'', ''/{code}''), handle_Redirect P L uh)])"

definition dispatch ::
  "'x world chi \<Rightarrow> ((string \<times> string) \<times> 'x world handler) list \<Rightarrow> 'x world handler" where
  "dispatch chi table q hs =
     (case chi_match chi (map fst table) (q_Method q) (q_Path q) of
        None \<Rightarrow> chi_other chi q hs
      | Some (i, param) \<Rightarrow>
          if i < length table then snd (table ! i) (q\<lparr>q_URLParam := param\<rparr>) hs else chi_other chi q hs)"

definition NewRouter ::
  "'x platform \<Rightarrow> golib \<Rightarrow> 'x world chi \<Rightarrow> 'x world url_service \<Rightarrow> (options \<Rightarrow> options) list \<Rightarrow> 'x world handler" where
  "NewRouter P L chi s opts =
     (let o1 = fold (\<lambda>f x. f x) opts no_options;
          stack = Recoverer (RequestID P (RequestLogger P (Metrics P (dispatch chi (routes P L chi s o1)))))
      in if o_instanceID o1 \<noteq> '''' then InstanceID (o_instanceID o1) stack else stack)"

end
