(* ===== verification/Config.thy ===== *)
theory Config
imports Go_Lib "HOL-Library.Word"
begin

section \<open>Configuration\<close>

text \<open>
  \<open>internal/config/config.go\<close>. The environment maps a name to its value, the empty string
  when it is not set, as \<open>os.Getenv\<close> answers. \<open>time.ParseDuration\<close>, which works with
  floating-point fractions, is an argument: the duration, or \<open>None\<close> for an error.
\<close>

type_synonym env = "string \<Rightarrow> string"

record config =
  AppPort :: string
  BaseURL :: string
  DatabaseURL :: string
  RedisAddr :: string
  RedisKeyPrefix :: string
  RedisStream :: string
  RateLimitPerMin :: int
  ReadTimeout :: dur
  WriteTimeout :: dur
  IdleTimeout :: dur
  ShutdownTimeout :: dur
  LogLevel :: string
  PGMaxConns :: "32 word"
  MetricsAddr :: string

definition getEnv :: "env \<Rightarrow> string \<Rightarrow> string \<Rightarrow> string" where
  "getEnv env key fallback = (if env key \<noteq> '''' then env key else fallback)"

definition getInt :: "env \<Rightarrow> string \<Rightarrow> int \<Rightarrow> int" where
  "getInt env key fallback =
     (if env key = '''' then fallback
      else case ParseInt (env key) of None \<Rightarrow> fallback | Some n \<Rightarrow> n)"

definition getDuration :: "(string \<Rightarrow> dur option) \<Rightarrow> env \<Rightarrow> string \<Rightarrow> dur \<Rightarrow> dur" where
  "getDuration ParseDuration env key fallback =
     (if env key = '''' then fallback
      else case ParseDuration (env key) of None \<Rightarrow> fallback | Some d \<Rightarrow> d)"

definition Load :: "(string \<Rightarrow> dur option) \<Rightarrow> env \<Rightarrow> goerr + config" where
  "Load ParseDuration env =
     (let cfg = \<lparr>
        AppPort = getEnv env ''APP_PORT'' ''8080'',
        BaseURL = getEnv env ''BASE_URL'' ''http://localhost:8080'',
        DatabaseURL = env ''DATABASE_URL'',
        RedisAddr = getEnv env ''REDIS_ADDR'' '''',
        RedisKeyPrefix = getEnv env ''REDIS_KEY_PREFIX'' ''us:'',
        RedisStream = getEnv env ''REDIS_STREAM'' ''us:events'',
        RateLimitPerMin = getInt env ''RATE_LIMIT_PER_MIN'' 60,
        ReadTimeout = getDuration ParseDuration env ''HTTP_READ_TIMEOUT'' (10 * nano_s),
        WriteTimeout = getDuration ParseDuration env ''HTTP_WRITE_TIMEOUT'' (10 * nano_s),
        IdleTimeout = getDuration ParseDuration env ''HTTP_IDLE_TIMEOUT'' (60 * nano_s),
        ShutdownTimeout = getDuration ParseDuration env ''SHUTDOWN_TIMEOUT'' (10 * nano_s),
        LogLevel = getEnv env ''LOG_LEVEL'' ''info'',
        PGMaxConns = word_of_int (getInt env ''PG_MAX_CONNS'' 0),
        MetricsAddr = getEnv env ''METRICS_ADDR'' '':8081''\<rparr>
      in if DatabaseURL cfg = '''' then Inl (Plain ''DATABASE_URL is required'') else Inr cfg)"

lemma getInt_range: "min_int64 \<le> fallback \<Longrightarrow> fallback \<le> max_int64 \<Longrightarrow>
    min_int64 \<le> getInt env key fallback \<and> getInt env key fallback \<le> max_int64"
  by (auto simp: getInt_def ParseInt_def Let_def split: option.split if_splits)

text \<open>The conversion to \<open>int32\<close> wraps: a setting of 2^32 + 1 connections asks for one.\<close>

lemma PGMaxConns_wraps:
  "map_option (sint \<circ> PGMaxConns) (case Load p (\<lambda>k. if k = ''PG_MAX_CONNS'' then ''4294967297'' else ''x'') of
     Inl e \<Rightarrow> None | Inr c \<Rightarrow> Some c) = Some 1"
proof -
  have "ParseInt ''4294967297'' = Some 4294967297" by code_simp
  then show ?thesis by (simp add: Load_def Let_def getInt_def)
qed

end
