(* ===== verification/Server.thy ===== *)
theory Server
imports Router Consumer Config Api_Pool
begin

section \<open>The processes\<close>

text \<open>
  How \<open>cmd/server/main.go\<close> and \<open>cmd/worker/main.go\<close> put the components together, up
  to the point where the server listens and the worker loops. What the process asks of the
  operating system and of the network is an argument: pgx, the outcome of the worker's connection
  to the database (\<open>dbErr\<close>), of the migrations (\<open>migErr\<close>), of the first PING to Redis (\<open>ping\<close>),
  and the host name, empty when there is none. \<open>Inl n\<close> is \<open>os.Exit(n)\<close>. How the
  processes end is in theory Commands.
\<close>

text \<open>\<open>internal/repository/pool.go\<close>, over the functions of pgxpool.\<close>

record ('c, 'p) pgx =
  ParseConfig :: "string \<Rightarrow> goerr + 'c"
  set_MaxConns :: "int \<Rightarrow> 'c \<Rightarrow> 'c"
  NewWithConfig :: "'c \<Rightarrow> goerr + 'p"
  PingPool :: "'p \<Rightarrow> goerr option"

definition NewPool :: "('c, 'p) pgx \<Rightarrow> string \<Rightarrow> int \<Rightarrow> goerr + 'p" where
  "NewPool X dsn maxConns =
     (case ParseConfig X dsn of
        Inl err \<Rightarrow> Inl (WrapPre ''parse database url'' err)
      | Inr cfg \<Rightarrow>
          (case NewWithConfig X (if maxConns > 0 then set_MaxConns X maxConns cfg else cfg) of
             Inl err \<Rightarrow> Inl (WrapPre ''create pool'' err)
           | Inr pool \<Rightarrow>
               (case PingPool X pool of
                  Some err \<Rightarrow> Inl (WrapPre ''ping database'' err)
                | None \<Rightarrow> Inr pool)))"

subsection \<open>The server\<close>

definition server_cache :: "config \<Rightarrow> url_cache option" where
  "server_cache cfg = (if RedisAddr cfg \<noteq> '''' then Some (NewURLCache (RedisKeyPrefix cfg)) else None)"

definition server_idem :: "config \<Rightarrow> idem_store option" where
  "server_idem cfg = (if RedisAddr cfg \<noteq> '''' then Some (NewStore (RedisKeyPrefix cfg)) else None)"

definition server_options :: "config \<Rightarrow> string \<Rightarrow> (options \<Rightarrow> options) list" where
  "server_options cfg hostname =
     (if RedisAddr cfg \<noteq> ''''
      then [WithRateLimiter (RedisKeyPrefix cfg) (RateLimitPerMin cfg), WithRecorder (NewRecorder (RedisStream cfg))]
      else []) @ [WithInstanceID hostname, WithMetrics]"

definition server_main ::
  "'x platform \<Rightarrow> golib \<Rightarrow> 'x world chi \<Rightarrow> (string \<Rightarrow> dur option) \<Rightarrow> ('c, 'p) pgx \<Rightarrow> env \<Rightarrow> goerr option \<Rightarrow> string
     \<Rightarrow> nat + 'x world url_service \<times> 'x world handler" where
  "server_main P L chi ParseDuration X env migErr hostname =
     (case Load ParseDuration env of
        Inl err \<Rightarrow> Inl 1
      | Inr cfg \<Rightarrow>
          case NewPool X (DatabaseURL cfg) (sint (PGMaxConns cfg)) of
            Inl err \<Rightarrow> Inl 1
          | Inr pool \<Rightarrow>
              if migErr \<noteq> None then Inl 1
              else
                case NewURLService L (URLRepository P) (server_cache cfg) (server_idem cfg) (BaseURL cfg) of
                  Inl err \<Rightarrow> Inl 1
                | Inr s \<Rightarrow> Inr (s, NewRouter P L chi s (server_options cfg hostname)))"

subsection \<open>The worker\<close>

text \<open>The worker, for at most \<open>n\<close> turns of its loop; \<open>Inr b\<close>: whether the loop has ended.\<close>

definition worker_main ::
  "'x platform \<Rightarrow> (string \<Rightarrow> dur option) \<Rightarrow> env \<Rightarrow> goerr option \<Rightarrow> goerr option \<Rightarrow> nat \<Rightarrow> ('x world, nat + bool) prog" where
  "worker_main P ParseDuration env ping dbErr n =
     (case Load ParseDuration env of
        Inl err \<Rightarrow> Ret (Inl 1)
      | Inr cfg \<Rightarrow>
          if RedisAddr cfg = '''' then Ret (Inl 1)
          else if ping \<noteq> None then Ret (Inl 1)
          else if dbErr \<noteq> None then Ret (Inl 1)
          else
            let c = consumer_New (RedisStream cfg)
            in bindp (EnsureGroup P c) (\<lambda>e.
                 case e of
                   Some err \<Rightarrow> Ret (Inl 1)
                 | None \<Rightarrow> bindp (consumer_Run P c n) (\<lambda>b. Ret (Inr b))))"

end
