(* ===== verification/Router_Props.thy ===== *)
theory Router_Props
imports Router Handler_Spec Service_Sim
begin

section \<open>Properties of the router and its middleware\<close>

text \<open>
  No handler of the route table panics, and none of them touches the headers that the middleware
  sets, so every answer carries its request id.
\<close>

lemma safe_True: "safe (\<lambda>_. True) (\<lambda>_. True) p"
proof (induction p)
  case (Act f)
  show ?case unfolding safe_Act
  proof (intro allI impI)
    fix w p w'
    assume f: "f w = (p, w')"
    then have "(p, w') \<in> range f" by (metis rangeI)
    from Act.IH [OF this, of p] show "safe (\<lambda>_. True) (\<lambda>_. True) p \<and> True" by simp
  qed
qed simp

text \<open>The handlers set only these headers themselves.\<close>

definition handler_headers :: "string set" where
  "handler_headers = {''Content-Type'', ''Location'', ''Idempotency-Replay'', ''Retry-After''}"

definition answered :: "headers \<Rightarrow> outcome \<Rightarrow> bool" where
  "answered hs out \<longleftrightarrow> (\<exists>resp. out = Written resp \<and> (\<forall>k. k \<notin> handler_headers \<longrightarrow> res_Header resp k = hs k))"

definition answers :: "'w handler \<Rightarrow> bool" where
  "answers h \<longleftrightarrow> (\<forall>q hs. safe (\<lambda>_. True) (answered hs) (h q hs))"

lemma answered_respond: "(\<And>k. k \<notin> handler_headers \<Longrightarrow> hs1 k = hs k) \<Longrightarrow> safe (\<lambda>_. True) (answered hs) (respond status hs1 b)"
  by (simp add: respond_def answered_def)

lemma answered_writeJSON [simp]:
  "safe (\<lambda>_. True) (answered hs) (writeJSON hs status b1)"
  "safe (\<lambda>_. True) (answered hs) (writeJSON (hs(''Idempotency-Replay'' \<mapsto> x)) status b1)"
  "safe (\<lambda>_. True) (answered hs) (writeError hs status code message rid)"
  "safe (\<lambda>_. True) (answered hs) (respond status hs b)"
  unfolding writeError_def writeJSON_def by (rule answered_respond; auto simp: handler_headers_def)+

lemma answered_redirect [simp]: "safe (\<lambda>_. True) (answered hs) (http_Redirect hs q target)"
  unfolding http_Redirect_def Let_def by (rule answered_respond) (auto simp: handler_headers_def)

lemma answered_errors [simp]:
  "safe (\<lambda>_. True) (answered hs) (writeCreateError q hs err)" "safe (\<lambda>_. True) (answered hs) (writeResolveError q hs err)"
  unfolding writeCreateError_def writeResolveError_def by (simp_all split: prod.split)

lemmas safe_then = safe_bindp [OF safe_True]

lemma answers_health: "answers Health" "answers (Ready P)"
  unfolding answers_def Health_def Ready_def by (auto intro!: safe_then split: option.split)

lemma answers_create: "store (svc h) = URLRepository P \<Longrightarrow> answers (handle_Create P L h)"
  unfolding answers_def handle_Create_def
  by (auto intro!: safe_bindp [OF calm_service_Create] split: sum.split decode_error.split goerr.split simp: calm_def)

lemma answers_get: "answers (handle_Get P L h)" "answers (handle_Stats P L h)"
  unfolding answers_def handle_Get_def handle_Stats_def by (auto intro!: safe_then split: sum.split)

lemma answers_delete: "answers (handle_Delete P L h)"
  unfolding answers_def handle_Delete_def by (auto intro!: safe_then split: sum.split option.split)

lemma answers_redirect: "answers (handle_Redirect P L h)"
  unfolding answers_def handle_Redirect_def by (auto intro!: safe_then split: sum.split option.split)

lemma answers_limited: "answers h \<Longrightarrow> answers (rate_limit P rl h)"
  unfolding answers_def rate_limit_def
  by (auto intro!: safe_then answered_respond simp: handler_headers_def split: sum.split)

lemma answers_routes:
  assumes "store s = URLRepository P" "answers (prom_handler chi)" "row \<in> set (routes P L chi s o1)"
  shows "answers (snd row)"
  using assms by (auto simp: routes_def Let_def answers_health answers_get answers_delete answers_redirect
      answers_create answers_limited split: option.splits if_splits)

lemma answers_dispatch:
  assumes "answers (chi_other chi)" "\<And>row. row \<in> set table \<Longrightarrow> answers (snd row)"
  shows "answers (dispatch chi table)"
  using assms unfolding answers_def dispatch_def by (auto split: option.split)

lemma answers_metrics:
  assumes "answers h"
  shows "answers (Metrics P h)"
  unfolding answers_def Metrics_def
proof (intro allI, rule safe_then)
  fix q hs
  have "safe (\<lambda>_. True) (answered hs) (h q hs)" using assms by (simp add: answers_def)
  then show "safe (\<lambda>_. True) (answered hs) (bindp (h q hs) (\<lambda>r. case r of
       Written resp \<Rightarrow> bindp (time_Now P) (\<lambda>_. bindp (Inc HTTPRequests) (\<lambda>_. Ret (Written resp)))
     | Raised hs1 \<Rightarrow> Ret (Raised hs1)))"
    by (rule safe_bindp) (auto simp: answered_def intro!: safe_then)
qed

lemma answers_logger:
  assumes "answers h"
  shows "answers (RequestLogger P h)"
  unfolding answers_def RequestLogger_def
proof (intro allI, rule safe_then)
  fix q hs
  have "safe (\<lambda>_. True) (answered hs) (h q hs)" using assms by (simp add: answers_def)
  then show "safe (\<lambda>_. True) (answered hs) (bindp (h q hs) (\<lambda>r. case r of
       Written resp \<Rightarrow> bindp (time_Now P) (\<lambda>_. Ret (Written resp))
     | Raised hs1 \<Rightarrow> Ret (Raised hs1)))"
    by (rule safe_bindp) (auto simp: answered_def intro!: safe_then)
qed

subsection \<open>The request id\<close>

text \<open>What \<open>crypto/rand\<close> promises: a full buffer, or an error.\<close>

definition rand_ok :: "'x platform \<Rightarrow> bool" where
  "rand_ok P \<longleftrightarrow> (\<forall>n x b x'. p_rand P n x = (Some b, x') \<longrightarrow> length b = n)"

lemma hex_encode_length: "length (hex_encode s) = 2 * length s"
  by (induction s) (simp_all add: hex_encode_def)

lemma newRequestID_valid: "rand_ok P \<Longrightarrow> safe (\<lambda>_. True) validRequestID (newRequestID P)"
  unfolding newRequestID_def
proof (rule safe_bindp)
  assume "rand_ok P"
  then show "safe (\<lambda>_. True) (\<lambda>r. \<forall>b. r = Some b \<longrightarrow> length b = 16) (ext_act (p_rand P 16))"
    by (intro safe_ext_act) (auto simp: rand_ok_def)
qed (auto simp: validRequestID_def hex_encode_length split: option.split)

definition identified :: "request \<Rightarrow> headers \<Rightarrow> outcome \<Rightarrow> bool" where
  "identified q hs out \<longleftrightarrow> (\<exists>resp i. out = Written resp \<and> res_Header resp RequestIDHeader = Some i \<and> validRequestID i
     \<and> (validRequestID (q_Header q RequestIDHeader) \<longrightarrow> i = q_Header q RequestIDHeader)
     \<and> res_Header resp ''X-Instance'' = hs ''X-Instance'')"

lemma RequestID_identified:
  assumes "answers h" "rand_ok P"
  shows "safe (\<lambda>_. True) (identified q hs) (RequestID P h q hs)"
proof -
  let ?c = "q_Header q RequestIDHeader"
  have first: "safe (\<lambda>_. True) (\<lambda>i. validRequestID i \<and> (validRequestID ?c \<longrightarrow> i = ?c))
      (if \<not> validRequestID ?c then newRequestID P else Ret ?c)"
    using newRequestID_valid [OF assms(2)] by (auto elim: safe_mono)
  have names: "RequestIDHeader \<notin> handler_headers" "''X-Instance'' \<notin> handler_headers" "''X-Instance'' \<noteq> RequestIDHeader"
    by (simp_all add: RequestIDHeader_def handler_headers_def)
  show ?thesis unfolding RequestID_def
  proof (rule safe_bindp [OF first])
    fix i
    assume i: "validRequestID i \<and> (validRequestID ?c \<longrightarrow> i = ?c)"
    have "safe (\<lambda>_. True) (answered (hs(RequestIDHeader \<mapsto> i))) (h (q\<lparr>q_RequestID := i\<rparr>) (hs(RequestIDHeader \<mapsto> i)))"
      using assms(1) by (simp add: answers_def)
    then show "safe (\<lambda>_. True) (identified q hs) (h (q\<lparr>q_RequestID := i\<rparr>) (hs(RequestIDHeader \<mapsto> i)))"
      by (rule safe_mono) (use i names in \<open>auto simp: answered_def identified_def\<close>)
  qed
qed

lemma router_identified:
  assumes "store s = URLRepository P" "rand_ok P" "answers (chi_other chi)" "answers (prom_handler chi)"
  shows "safe (\<lambda>_. True) (identified q hs)
     (Recoverer (RequestID P (RequestLogger P (Metrics P (dispatch chi (routes P L chi s o1))))) q hs)"
proof -
  have "answers (RequestLogger P (Metrics P (dispatch chi (routes P L chi s o1))))"
    by (intro answers_logger answers_metrics answers_dispatch assms(3)) (rule answers_routes [OF assms(1,4)])
  from RequestID_identified [OF this assms(2)] show ?thesis
    unfolding Recoverer_def by (rule safe_bindp) (auto simp: identified_def split: outcome.split)
qed


definition demo_chi :: "'x world chi" where
  "demo_chi = \<lparr>chi_match = (\<lambda>table m p. if p = ''/health'' then Some (0, '''') else None),
     chi_other = (\<lambda>q hs. respond 404 hs (TextBody ''404 page not found'')),
     prom_handler = (\<lambda>q hs. respond 200 hs (TextBody ''''))\<rparr>"


subsection \<open>The recoverer\<close>

text \<open>The recoverer answers whatever the handler below it does: it passes a response on unchanged, and turns a panic into a 500 without a body that keeps the headers set by then.\<close>

theorem recoverer_answers:
  assumes "run (nxt q hs) w = (out, w')"
  shows "run (Recoverer nxt q hs) w = (Written (case out of
      Written resp \<Rightarrow> resp | Raised hs1 \<Rightarrow> \<lparr>res_Status = 500, res_Header = hs1, res_Body = NoBody\<rparr>), w')"
  using assms by (cases out) (simp_all add: Recoverer_def run_simps respond_def)

theorem recoverer_answers_witness:
  "run (Recoverer (\<lambda>q hs. Ret (Raised hs)) \<lparr>q_Method = '''', q_Path = '''', q_RemoteAddr = '''', q_Header = (\<lambda>_. ''''), q_Body = '''',
        q_URLParam = '''', q_RequestID = ''''\<rparr> Map.empty) (world0 empty_db (sim0 0))
     = (Written \<lparr>res_Status = 500, res_Header = Map.empty, res_Body = NoBody\<rparr>, world0 empty_db (sim0 0))"
proof -
  let ?q = "\<lparr>q_Method = '''', q_Path = '''', q_RemoteAddr = '''', q_Header = (\<lambda>_. ''''), q_Body = '''', q_URLParam = '''', q_RequestID = ''''\<rparr>"
  from recoverer_answers [of "\<lambda>q hs. Ret (Raised hs)" ?q Map.empty "world0 empty_db (sim0 0)" "Raised Map.empty" "world0 empty_db (sim0 0)"]
  show ?thesis by (simp add: run_simps)
qed

end
