(* ===== verification/Server_Props.thy ===== *)
theory Server_Props
imports Server Router_Props
begin

section \<open>The whole system\<close>

text \<open>
  The invariant of theory Api_Pool over every program of the two processes: HTTP requests
  through the router with all its middleware, the recorder's goroutine, and the worker's loop,
  all interleaved at the level of single actions.
\<close>

lemma safe_strengthen:
  "safe I (\<lambda>_. True) p \<Longrightarrow> safe (\<lambda>_. True) Q p \<Longrightarrow> safe I Q p"
proof (induction p)
  case (Act f)
  show ?case unfolding safe_Act
  proof (intro allI impI)
    fix w p w'
    assume I: "I w" and f: "f w = (p, w')"
    then have "(p, w') \<in> range f" by (metis rangeI)
    from Act.IH [OF this, of p] safe_ActD [OF Act.prems(1) I f] safe_ActD [OF Act.prems(2) TrueI f]
    show "safe I Q p \<and> I w'" by auto
  qed
qed simp

lemma Recoverer_answers: "safe (\<lambda>_. True) (\<lambda>r. \<exists>resp. r = Written resp) (Recoverer h q hs)"
  unfolding Recoverer_def by (rule safe_then) (auto split: outcome.split simp: respond_def)

lemma kv_ok_other:
  assumes "kv_ok L bd C I m t" "t \<le> t'" "\<And>k. k \<noteq> key \<Longrightarrow> m' k = m k"
    and "\<And>c. URLKey C c \<noteq> key" "\<And>k. lockKey I k \<noteq> key"
  shows "kv_ok L bd C I m' t'"
proof -
  have same: "m' (URLKey C c) = m (URLKey C c)" "m' (lockKey I k) = m (lockKey I k)" for c k
    using assms(3-5) by blast+
  from kv_ok_mono [OF assms(1,2)] show ?thesis unfolding kv_ok_def kv_holds_def same .
qed

lemma rate_key_apart:
  assumes "rl_keyBase rl = cache_keyBase C" "cache_keyBase C = idem_keyBase I"
  shows "URLKey C c \<noteq> rate_key rl ip n" "lockKey I k \<noteq> rate_key rl ip n"
  using assms by (auto simp: URLKey_def lockKey_def rate_key_def)

lemma upsert_db_ok: "upsert_daily i day dim v now d = (r, d') \<Longrightarrow> db_ok L bd d \<Longrightarrow> db_ok L bd d'"
  using upsert_daily_inv [of i day dim v now d r d'] by (auto simp: db_ok_def upsert_daily_def Let_def split: if_splits)

lemma idem_db_ok: "insert_idem k sc ttl now d = (r, d') \<Longrightarrow> db_ok L bd d \<Longrightarrow> db_ok L bd d'"
  using insert_idem_inv [of k sc ttl now d r d'] by (auto simp: db_ok_def insert_idem_def split: if_splits)

lemma select_id_db_ok: "select_url_id c now d = (r, d') \<Longrightarrow> db_ok L bd d \<Longrightarrow> db_ok L bd d'"
  by (auto dest: select_url_id_inv)

text \<open>What the stack needs of the handlers that are not the repository's: they just answer.\<close>

definition plain_handler :: "'w handler \<Rightarrow> bool" where
  "plain_handler h \<longleftrightarrow> (\<forall>q hs. \<exists>resp. h q hs = Ret (Written resp))"

context wired_service begin

abbreviation keeps :: "('x world, 'a) prog \<Rightarrow> bool" where
  "keeps p \<equiv> safe inv (\<lambda>_. True) p"

lemma keeps_ext:
  assumes "\<And>x r x'. g x = (r, x') \<Longrightarrow> tick x \<le> tick x' \<and> (\<forall>k. k \<noteq> key \<longrightarrow> raw x' k = raw x k)"
    and "\<And>c. URLKey C c \<noteq> key" "\<And>k. lockKey I k \<noteq> key"
  shows "keeps (ext_act g)"
proof (rule safe_ext)
  fix x r x'
  assume ok: "kv_ok L (blockDomain s) C I (raw x) (tick x)" and g: "g x = (r, x')"
  from kv_ok_other [OF ok _ _ assms(2,3)] assms(1) [OF g] show "True \<and> kv_ok L (blockDomain s) C I (raw x') (tick x')"
    by blast
qed

lemma keeps_quiet:
  assumes "\<And>x r x'. g x = (r, x') \<Longrightarrow> tick x \<le> tick x' \<and> raw x' = raw x"
  shows "keeps (ext_act g)"
  by (rule safe_ext) (use assms in \<open>auto intro: kv_ok_mono\<close>)

lemma keeps_platform:
  "keeps (ext_act (p_ping_db P))" "keeps (ext_act (p_rand P n))" "keeps (ext_act (p_xadd P st vs))"
  "keeps (ext_act (p_xreadgroup P st n b))" "keeps (ext_act (p_xack P st i))" "keeps (ext_act (p_xgroup P st))"
  by (rule keeps_quiet; drule ping_law rand_law xadd_law xread_law xack_law xgroup_law; simp)+

lemmas keeps_time = safe_time

lemma keeps_weak: "safe inv Q p \<Longrightarrow> keeps p"
  by (erule safe_mono) simp

lemmas keeps_service = keeps_weak [OF safe_service_Create] keeps_weak [OF safe_Resolve] safe_service_Delete safe_GetStats

lemma keeps_respond [simp]: "keeps (respond status hs b)" "keeps (writeJSON hs status j)" "keeps (writeError hs status c m rid)"
  "keeps (http_Redirect hs q t)" "keeps (writeCreateError q hs err)" "keeps (writeResolveError q hs err)"
  unfolding writeCreateError_def writeResolveError_def writeError_def writeJSON_def http_Redirect_def respond_def Let_def
  by (simp_all split: prod.split)

subsection \<open>The request side\<close>

lemma keeps_limited:
  assumes "rl_keyBase rl = cache_keyBase C" "\<And>q hs. keeps (h q hs)"
  shows "keeps (rate_limit P rl h q hs)"
proof -
  note apart = rate_key_apart [OF assms(1) wires(4)]
  have incr: "keeps (ext_act (p_incr P (rate_key rl ip n)))" for ip n
    by (rule keeps_ext [where key = "rate_key rl ip n"]) (auto dest: incr_law simp: apart)
  have expire: "keeps (ext_act (p_expire P (rate_key rl ip n) ttl))" for ip n ttl
    by (rule keeps_ext [where key = "rate_key rl ip n"]) (auto dest: expire_law simp: apart)
  have "keeps (allow P rl remote)" for remote
    unfolding allow_def Let_def by (auto intro!: safe_any incr expire keeps_time)
  then show ?thesis unfolding rate_limit_def
    by (auto intro!: safe_any_bindp safe_Inc_inv assms(2) split: sum.split)
qed

lemma keeps_Push: "keeps (Push e)"
proof -
  have "keeps (act (push_step e))" by (rule safe_act) (auto simp: push_step_def sys_inv_def split: if_splits)
  then show ?thesis unfolding Push_def by (auto intro!: safe_any_bindp safe_Inc_inv)
qed

lemma keeps_handlers:
  assumes "svc h = s"
  shows "keeps (handle_Create P L h q hs)" "keeps (handle_Get P L h q hs)" "keeps (handle_Delete P L h q hs)"
    "keeps (handle_Stats P L h q hs)" "keeps (handle_Redirect P L h q hs)" "keeps (Health q hs)" "keeps (Ready P q hs)"
  unfolding handle_Create_def handle_Get_def handle_Delete_def handle_Stats_def handle_Redirect_def Health_def Ready_def assms
  by (auto intro!: safe_any_bindp keeps_service keeps_time keeps_Push keeps_platform
      split: sum.split option.split decode_error.split goerr.split)

lemma keeps_plain: "plain_handler h \<Longrightarrow> keeps (h q hs)"
  unfolding plain_handler_def by (metis safe_Ret)

lemma keeps_routes:
  assumes "plain_handler (prom_handler chi)" "\<And>rl. o_rateLimiter o1 = Some rl \<Longrightarrow> rl_keyBase rl = cache_keyBase C"
    and "row \<in> set (routes P L chi s o1)"
  shows "keeps (snd row q hs)"
proof -
  let ?h = "\<lparr>svc = s, recd = o_recorder o1\<rparr>"
  have h: "svc ?h = s" by simp
  from assms(3) consider "snd row = Health" | "snd row = Ready P" | "snd row = prom_handler chi"
    | "snd row = (case o_rateLimiter o1 of Some rl \<Rightarrow> rate_limit P rl (handle_Create P L ?h) | None \<Rightarrow> handle_Create P L ?h)"
    | "snd row = handle_Get P L ?h" | "snd row = handle_Delete P L ?h" | "snd row = handle_Stats P L ?h"
    | "snd row = handle_Redirect P L ?h"
    unfolding routes_def Let_def by (auto split: if_splits)
  then show ?thesis
  proof cases
    case 4
    with keeps_handlers(1) [OF h] keeps_limited [OF assms(2)] show ?thesis by (simp split: option.split)
  qed (simp_all add: keeps_handlers [OF h] keeps_plain [OF assms(1)])
qed

lemma keeps_router:
  assumes "plain_handler (prom_handler chi)" "plain_handler (chi_other chi)"
    and "\<And>rl. o_rateLimiter (fold (\<lambda>f x. f x) opts no_options) = Some rl \<Longrightarrow> rl_keyBase rl = cache_keyBase C"
  shows "keeps (NewRouter P L chi s opts q hs)"
proof -
  let ?o = "fold (\<lambda>f x. f x) opts no_options"
  have disp: "keeps (dispatch chi (routes P L chi s ?o) q hs)" for q hs
    unfolding dispatch_def
    by (auto split: option.split intro: keeps_plain [OF assms(2)] keeps_routes [OF assms(1,3) nth_mem])
  have met: "keeps (Metrics P (dispatch chi (routes P L chi s ?o)) q hs)" for q hs
    unfolding Metrics_def by (auto intro!: safe_any_bindp keeps_time disp safe_Inc_inv split: outcome.split)
  have log: "keeps (RequestLogger P (Metrics P (dispatch chi (routes P L chi s ?o))) q hs)" for q hs
    unfolding RequestLogger_def by (auto intro!: safe_any_bindp keeps_time met split: outcome.split)
  have req: "keeps (RequestID P (RequestLogger P (Metrics P (dispatch chi (routes P L chi s ?o)))) q hs)" for q hs
    unfolding RequestID_def newRequestID_def by (auto intro!: safe_any_bindp keeps_platform log split: option.split)
  show ?thesis
    by (auto simp: NewRouter_def Let_def InstanceID_def Recoverer_def intro!: safe_any_bindp req split: outcome.split)
qed

subsection \<open>The event side\<close>

lemma keeps_recorder: "keeps (run_recorder P r n)"
proof -
  have tk: "keeps (act take_step)" by (rule safe_act) (auto simp: take_step_def sys_inv_def split: list.splits)
  have pub: "keeps (publish P r e)" for e
    unfolding publish_def by (auto intro!: safe_any_bindp keeps_platform safe_Inc_inv split: sum.split)
  show ?thesis
    by (induction n) (auto intro!: safe_any_bindp tk pub split: option.split)
qed

lemma keeps_stmts:
  "keeps (SQL P (upsert_daily i day dim v))" "keeps (SQL P (insert_idem k sc ttl))" "keeps (SQL P (select_url_id c))"
  by (rule safe_stmt; (drule (1) upsert_db_ok idem_db_ok select_id_db_ok | erule upsert_db_ok)?; simp add: upsert_db_ok idem_db_ok select_id_db_ok)+

lemma keeps_ack: "keeps (bindp (Inc m) (\<lambda>_. consumer_ack P c i))"
  unfolding consumer_ack_def by (intro safe_any_bindp safe_Inc_inv keeps_platform)

lemma keeps_count_click: "keeps (count_click P c msg day i)"
proof -
  have ref: "keeps (if b then bindp (SQL P (upsert_daily i day ''referrer'' v)) (\<lambda>r2.
      case r2 of Inl err \<Rightarrow> Ret (Some (f err)) | Inr _ \<Rightarrow> Ret None) else Ret None)" for b v and f :: "goerr \<Rightarrow> goerr"
    by (split if_split, intro conjI impI, rule safe_any_bindp [OF keeps_stmts(1)]) (simp_all split: sum.split)
  have rest: "keeps (case e of Some err \<Rightarrow> Ret (Some err)
      | None \<Rightarrow> bindp (Inc AnalyticsProcessed) (\<lambda>_. consumer_ack P c (msg_ID msg)))" for e :: "goerr option"
    by (simp split: option.split add: keeps_ack)
  show ?thesis unfolding count_click_def
    by (rule safe_any_bindp [OF keeps_stmts(1)], split sum.split, intro conjI allI impI, simp, rule safe_any_bindp [OF ref rest])
qed

lemma keeps_handle: "keeps (handle P c msg)"
proof -
  have claim: "keeps (consumer_claim P i)" for i
    unfolding consumer_claim_def by (rule safe_any_tryp [OF keeps_stmts(2)]) simp
  have day: "keeps (eventDay P msg)"
    unfolding eventDay_def by (auto intro!: safe_any_bindp keeps_time split: option.split)
  show ?thesis unfolding handle_def
    by (auto intro!: safe_any_bindp [OF claim] safe_any_bindp [OF day] safe_any_bindp [OF keeps_stmts(3)] keeps_ack
        keeps_count_click split: sum.split)
qed

lemma keeps_worker: "keeps (consumer_Run P c n)"
proof -
  have all: "keeps (handle_all P c k msgs)" for k msgs
    by (induction msgs arbitrary: k) (auto intro!: safe_any_bindp keeps_handle split: option.split)
  have once: "keeps (ProcessOnce P c b)" for b
    unfolding ProcessOnce_def by (auto intro!: safe_any_bindp keeps_platform all split: sum.split)
  show ?thesis
    by (induction n) (auto intro!: safe_any_bindp once keeps_time split: option.split)
qed

end

subsection \<open>The pool of the system\<close>

text \<open>The tasks of both processes: a request, some turns of the recorder, some turns of a worker.\<close>

datatype task = Serve request | Publish nat | Work nat

definition task_prog ::
  "'x platform \<Rightarrow> 'x world handler \<Rightarrow> string \<Rightarrow> task \<Rightarrow> ('x world, outcome option) prog" where
  "task_prog P h stream t =
     (case t of
        Serve q \<Rightarrow> bindp (h q Map.empty) (\<lambda>out. Ret (Some out))
      | Publish n \<Rightarrow> bindp (run_recorder P (NewRecorder stream) n) (\<lambda>_. Ret None)
      | Work n \<Rightarrow> bindp (consumer_Run P (consumer_New stream) n) (\<lambda>_. Ret None))"

text \<open>What the server's main function builds.\<close>

lemma server_main_Inr:
  assumes "server_main P L chi parse X env migErr hostname = Inr (s, h)"
  obtains cfg where "Load parse env = Inr cfg" "migErr = None" "h = NewRouter P L chi s (server_options cfg hostname)"
    "NewURLService L (URLRepository P) (server_cache cfg) (server_idem cfg) (BaseURL cfg) = Inr s"
  using assms by (auto simp: server_main_def split: sum.splits if_splits)

lemma NewURLService_wired:
  assumes "NewURLService L (URLRepository P) (server_cache cfg) (server_idem cfg) base = Inr s"
  shows "wired P (NewURLCache (RedisKeyPrefix cfg)) (NewStore (RedisKeyPrefix cfg)) s"
  using assms
  by (auto simp: NewURLService_def wired_def server_cache_def server_idem_def NewURLCache_def NewStore_def
      lockTTL_def nano_defs split: sum.splits if_splits)

lemma server_limiter:
  "o_rateLimiter (fold (\<lambda>f x. f x) (server_options cfg hostname) no_options) = Some rl \<Longrightarrow> rl_keyBase rl = RedisKeyPrefix cfg"
  by (auto simp: server_options_def WithInstanceID_def WithMetrics_def WithRateLimiter_def WithRecorder_def RateLimit_def
      no_options_def split: if_splits)


definition demo_env :: env where
  "demo_env k = (if k = ''DATABASE_URL'' then ''postgres://db'' else if k = ''REDIS_ADDR'' then ''redis:6379''
     else if k = ''BASE_URL'' then ''http://sho.rt'' else '''')"

definition demo_pgx :: "(unit, unit) pgx" where
  "demo_pgx = \<lparr>ParseConfig = (\<lambda>_. Inr ()), set_MaxConns = (\<lambda>_ c. c), NewWithConfig = (\<lambda>_. Inr ()), PingPool = (\<lambda>_. None)\<rparr>"

lemma demo_server:
  obtains cfg s h where "Load (\<lambda>_. None) demo_env = Inr cfg" "RedisKeyPrefix cfg = ''us:''" "RedisStream cfg = ''us:events''"
    "server_main sim_platform demo_lib demo_chi (\<lambda>_. None) demo_pgx demo_env None ''host-a'' = Inr (s, h)" "blockDomain s = ''sho.rt''"
proof -
  obtain cfg where cfg: "Load (\<lambda>_. None) demo_env = Inr cfg" "RedisKeyPrefix cfg = ''us:''" "RedisStream cfg = ''us:events''"
    "BaseURL cfg = ''http://sho.rt''"
    by (simp add: Load_def Let_def demo_env_def getEnv_def)
  have "url_Parse demo_lib ''http://sho.rt'' = Inr \<lparr>Scheme = ''http'', Host = ''sho.rt'', Str = ''http://sho.rt''\<rparr>" by code_simp
  then obtain s where "NewURLService demo_lib (URLRepository sim_platform) (server_cache cfg) (server_idem cfg) (BaseURL cfg) = Inr s"
    "blockDomain s = ''sho.rt''"
    by (simp add: NewURLService_def cfg(4))
  with cfg that show thesis by (simp add: server_main_def demo_pgx_def NewPool_def)
qed


subsection \<open>The server's configuration\<close>

lemma server_opts:
  "fold (\<lambda>f x. f x) (server_options cfg hostname) no_options =
     \<lparr>o_rateLimiter = (if RedisAddr cfg = '''' then None else Some (RateLimit (RedisKeyPrefix cfg) (RateLimitPerMin cfg))),
      o_recorder = (if RedisAddr cfg = '''' then None else Some (NewRecorder (RedisStream cfg))),
      o_instanceID = hostname, o_metrics = True\<rparr>"
  by (simp add: server_options_def WithInstanceID_def WithMetrics_def WithRateLimiter_def WithRecorder_def no_options_def)

lemma getEnv_empty: "getEnv env k '''' = env k"
  by (simp add: getEnv_def)

lemma Load_Inr:
  "Load parse env = Inr cfg \<Longrightarrow> DatabaseURL cfg = env ''DATABASE_URL'' \<and> env ''DATABASE_URL'' \<noteq> '''' \<and> RedisAddr cfg = env ''REDIS_ADDR''"
  unfolding Load_def Let_def getEnv_empty config.simps by (cases "env ''DATABASE_URL'' = ''''") auto

text \<open>The server starts only with a database URL, a reachable database, applied migrations and an http or https base URL. The service it then runs is over the repository, with the cache, the idempotency store, the limiter and the recorder all on the configured Redis key prefix and stream, or all absent when no Redis address is set; the limiter's limit is at least one, and the instance header is the host name.\<close>

theorem server_wiring:
  assumes "server_main P L chi parse X env migErr hostname = Inr (s, h)"
  shows "\<exists>cfg. Load parse env = Inr cfg \<and> env ''DATABASE_URL'' \<noteq> '''' \<and> migErr = None
    \<and> (\<exists>pool. NewPool X (env ''DATABASE_URL'') (sint (PGMaxConns cfg)) = Inr pool)
    \<and> store s = URLRepository P \<and> (Scheme (baseURL s) = ''http'' \<or> Scheme (baseURL s) = ''https'')
    \<and> blockDomain s = Host (baseURL s) \<and> Host (baseURL s) \<noteq> ''''
    \<and> (let o1 = fold (\<lambda>f x. f x) (server_options cfg hostname) no_options
       in h = NewRouter P L chi s (server_options cfg hostname) \<and> o_instanceID o1 = hostname \<and> o_metrics o1
        \<and> (if env ''REDIS_ADDR'' = ''''
           then cache s = None \<and> idem s = None \<and> o_rateLimiter o1 = None \<and> o_recorder o1 = None
           else cache s = Some (NewURLCache (RedisKeyPrefix cfg)) \<and> idem s = Some (NewStore (RedisKeyPrefix cfg))
             \<and> o_recorder o1 = Some (NewRecorder (RedisStream cfg))
             \<and> (\<exists>rl. o_rateLimiter o1 = Some rl \<and> rl_keyBase rl = RedisKeyPrefix cfg \<and> 1 \<le> perMinute rl)))"
proof -
  obtain cfg where cfg: "Load parse env = Inr cfg" "migErr = None" "h = NewRouter P L chi s (server_options cfg hostname)"
    "NewURLService L (URLRepository P) (server_cache cfg) (server_idem cfg) (BaseURL cfg) = Inr s"
    using assms by (rule server_main_Inr)
  have l: "DatabaseURL cfg = env ''DATABASE_URL''" "env ''DATABASE_URL'' \<noteq> ''''" "RedisAddr cfg = env ''REDIS_ADDR''"
    using Load_Inr [OF cfg(1)] by blast+
  have p: "\<exists>pool. NewPool X (env ''DATABASE_URL'') (sint (PGMaxConns cfg)) = Inr pool"
    using assms cfg(1) l(1) by (auto simp: server_main_def split: sum.splits)
  have n: "store s = URLRepository P" "cache s = server_cache cfg" "idem s = server_idem cfg"
    "Scheme (baseURL s) = ''http'' \<or> Scheme (baseURL s) = ''https''" "blockDomain s = Host (baseURL s)" "Host (baseURL s) \<noteq> ''''"
    using cfg(4) by (auto simp: NewURLService_def split: sum.splits if_splits)
  have lim: "1 \<le> perMinute (RateLimit k n)" "rl_keyBase (RateLimit k n) = k" for k n by (simp_all add: RateLimit_def)
  have opts: "if env ''REDIS_ADDR'' = '''' then cache s = None \<and> idem s = None
      else cache s = Some (NewURLCache (RedisKeyPrefix cfg)) \<and> idem s = Some (NewStore (RedisKeyPrefix cfg))"
    using n(2,3) l(3) by (simp add: server_cache_def server_idem_def)
  show ?thesis
    by (rule exI [of _ cfg]) (use cfg(1-3) l p n(1,4-6) opts lim in \<open>simp add: server_opts Let_def\<close>)
qed

theorem server_wiring_witness:
  "\<exists>s h cfg. server_main sim_platform demo_lib demo_chi (\<lambda>_. None) demo_pgx demo_env None ''host-a'' = Inr (s, h)
     \<and> Load (\<lambda>_. None) demo_env = Inr cfg \<and> cache s = Some (NewURLCache (RedisKeyPrefix cfg))"
proof -
  obtain cfg s h where m: "server_main sim_platform demo_lib demo_chi (\<lambda>_. None) demo_pgx demo_env None ''host-a'' = Inr (s, h)"
    by (rule demo_server)
  have "demo_env ''REDIS_ADDR'' \<noteq> ''''" by (simp add: demo_env_def)
  with server_wiring [OF m] m show ?thesis by (auto simp: Let_def)
qed

end
