(* ===== verification/Clicks.thy ===== *)
theory Clicks
imports Pipeline Handler_Props Server_Props Api_Props
begin

section \<open>From a redirect to the statistics\<close>

text \<open>
  The redirect handler, the recorder, the worker and the statistics query together: the total
  that the statistics report for a URL grows by the number of redirects that were answered.
\<close>

text \<open>Redirect requests, served one after the other.\<close>

fun serve_redirects ::
  "'x platform \<Rightarrow> golib \<Rightarrow> 'x world url_handler \<Rightarrow> request list \<Rightarrow> ('x world, outcome list) prog" where
  "serve_redirects P L h [] = Ret []"
| "serve_redirects P L h (q # qs) =
     bindp (handle_Redirect P L h q Map.empty) (\<lambda>a. bindp (serve_redirects P L h qs) (\<lambda>as. Ret (a # as)))"

definition is_301 :: "outcome \<Rightarrow> bool" where
  "is_301 a = (case a of Written resp \<Rightarrow> res_Status resp = 301 | _ \<Rightarrow> False)"

definition redirected :: "request list \<Rightarrow> outcome list \<Rightarrow> request list" where
  "redirected qs as = map fst (filter (\<lambda>(q, a). is_301 a) (zip qs as))"

lemma redirected_simps [simp]: "redirected [] as = []"
  "redirected (q # qs) (a # as) = (if is_301 a then q # redirected qs as else redirected qs as)"
  by (simp_all add: redirected_def)

text \<open>A request whose texts PostgreSQL takes, and the events that redirects make of such requests.\<close>

definition clean_request :: "request \<Rightarrow> bool" where
  "clean_request q \<longleftrightarrow> q_URLParam q \<noteq> '''' \<and> pg_text (q_URLParam q) \<and> pg_text (q_Header q ''Referer'')"

definition click_event :: "request \<Rightarrow> time \<Rightarrow> event" where
  "click_event q t = \<lparr>ev_Code = q_URLParam q, ev_Referrer = q_Header q ''Referer'', ev_TS = t\<rparr>"

lemma click_event_sel [simp]: "ev_Code (click_event q t) = q_URLParam q"
  "ev_Referrer (click_event q t) = q_Header q ''Referer''" "ev_TS (click_event q t) = t"
  by (simp_all add: click_event_def)

text \<open>The instants from 1970 to the end of the range of a DATE.\<close>

definition max_instant :: time where
  "max_instant = (2145042905 + 1) * 86400 * nano_s - 1"

lemma countable_click:
  assumes "clean_request q" "0 \<le> t" "t \<le> max_instant"
  shows "countable_event (click_event q t)"
proof -
  have "t div nano_s \<le> max_instant div nano_s" "0 \<le> t div nano_s"
    using assms(2,3) by (simp_all add: zdiv_mono1 nano_defs)
  then have s: "0 \<le> t div nano_s" "t div nano_s \<le> 185331707078399"
    by (simp_all add: max_instant_def nano_defs)
  then have "0 \<le> t div nano_s div 86400" "t div nano_s div 86400 \<le> 185331707078399 div 86400"
    by (simp_all add: zdiv_mono1 pos_imp_zdiv_nonneg_iff)
  with s show ?thesis
    using assms(1) by (simp add: countable_event_def clean_request_def event_sec_def int64_defs pg_date_def day_of_sec_def)
qed

subsection \<open>The redirects fill the channel\<close>

context stream_server begin

lemma leaves_cache [intro]:
  "leaves U S B (cache_Get P L C c)" "leaves U S B (cache_Set P L C c u)" "leaves U S B (cache_Delete P C c)"
proof -
  have g: "leaves U S B (ext_act (p_get P k))" for k
    by (rule leaves_ext) (metis get_up get_stream snd_conv)
  have s: "leaves U S B (ext_act (p_set P k v ttl))" for k v ttl
    by (rule leaves_ext) (metis set_up set_stream snd_conv)
  have d: "leaves U S B (ext_act (p_del P k))" for k
    by (rule leaves_ext) (metis del_up del_stream snd_conv)
  show "leaves U S B (cache_Get P L C c)" "leaves U S B (cache_Set P L C c u)" "leaves U S B (cache_Delete P C c)"
    unfolding cache_Get_def cache_Set_def cache_Delete_def cache_put_def Let_def
    by (auto intro!: safe_any_bindp leaves_Inc leaves_time g s d split: sum.splits option.splits)
qed

lemma leaves_Resolve:
  assumes "store s = URLRepository P"
  shows "leaves U S B (Resolve P L s code)"
proof -
  have get: "leaves U S B (repo_GetByCode P c)" for c
    unfolding repo_defs by (auto intro!: safe_any_bindp leaves_SQL split: sum.splits)
  have st: "leaves U S B (resolve_store P L s code)"
    unfolding resolve_store_def assms by (auto intro!: safe_any_bindp get leaves_cache leaves_time split: sum.splits option.splits)
  show ?thesis unfolding Resolve_def
    by (auto intro!: safe_any_bindp leaves_cache leaves_time leaves_Inc st split: sum.splits option.splits)
qed

lemma redirect_up:
  assumes L: "lib_ok L" and wd: "wired P C I (svc h)" and ca: "cache (svc h) = Some C" and rc: "recd h = Some rc"
    and up: "up (ext w)" and inv: "sys_inv raw tick L (blockDomain (svc h)) C I w" and room: "length (buffer w) < bufferSize"
    and r: "run (handle_Redirect P L h q hs) w = (a, w')"
  shows "db w' = db w \<and> up (ext w') \<and> unread (ext w') = unread (ext w) \<and> seen (ext w') = seen (ext w)
    \<and> sys_inv raw tick L (blockDomain (svc h)) C I w' \<and> tick (ext w) \<le> tick (ext w')
    \<and> (\<exists>t. tick (ext w) \<le> t \<and> t \<le> tick (ext w') \<and> buffer w' = buffer w @ (if is_301 a then [click_event q t] else []))"
proof -
  have st: "store (svc h) = URLRepository P" using wd by (simp add: wired_def)
  have ws: "wired_service P raw tick L C I (svc h)" by (rule wired_serviceI [OF kv_server_axioms L wd])
  obtain r1 v where r1: "run (Resolve P L (svc h) (q_URLParam q)) w = (r1, v)"
    by (cases "run (Resolve P L (svc h) (q_URLParam q)) w")
  have v: "db v = db w" "tick (ext w) \<le> tick (ext v)" using resolve_facts [OF kv_server_axioms L st ca r1] by blast+
  have f: "up (ext v)" "unread (ext v) = unread (ext w)" "seen (ext v) = seen (ext w)" "buffer v = buffer w"
    using safe_run [OF leaves_Resolve [OF st] _ r1, of "unread (ext w)" "seen (ext w)" "buffer w"] up
    by (simp_all add: stream_is_def)
  have inv': "sys_inv raw tick L (blockDomain (svc h)) C I w'"
    using safe_run [OF wired_service.keeps_handlers(5) [OF ws refl] inv r] by simp
  show ?thesis
  proof (cases r1)
    case (Inl err)
    with r r1 have e: "run (writeResolveError q hs err) v = (a, w')" by (simp add: handle_Redirect_def run_simps)
    then have "w' = v \<and> \<not> is_301 a"
      by (auto simp: writeResolveError_def resolve_error_case_def writeError_def writeJSON_def respond_def run_simps is_301_def Let_def
          split: if_splits)
    with v f inv' show ?thesis by auto
  next
    case (Inr u)
    have code: "Code u = q_URLParam q"
      using safe_run [OF wired_service.safe_Resolve [OF ws] inv r1] Inr by (simp add: good_url_def)
    obtain t x where t: "p_now P (ext v) = (t, x)" by (cases "p_now P (ext v)")
    from now_law [OF t] now_up [OF f(1)] now_stream [OF f(1) t] t
    have x: "t = tick x" "tick (ext v) \<le> tick x" "up x" "unread x = unread (ext v)" "seen x = seen (ext v)" by auto
    from r r1 Inr rc t room f(4) code
    have w': "w' = v\<lparr>ext := x, buffer := buffer v @ [click_event q t]\<rparr>" "is_301 a"
      by (auto simp: handle_Redirect_def run_simps act_defs Push_def push_step_def http_Redirect_def respond_def Let_def is_301_def
          click_event_def split: prod.splits)
    with v f x inv' show ?thesis by (auto intro!: exI [of _ "tick x"] intro: order_trans)
  qed
qed

lemma serve_redirects_up:
  assumes "lib_ok L" "wired P C I (svc h)" "cache (svc h) = Some C" "recd h = Some rc"
    and "up (ext w)" "sys_inv raw tick L (blockDomain (svc h)) C I w" "length (buffer w) + length qs \<le> bufferSize"
    and "run (serve_redirects P L h qs) w = (as, w')"
  shows "db w' = db w \<and> up (ext w') \<and> unread (ext w') = unread (ext w) \<and> seen (ext w') = seen (ext w)
    \<and> tick (ext w) \<le> tick (ext w') \<and> length as = length qs
    \<and> (\<exists>ts. length ts = length (redirected qs as) \<and> (\<forall>t \<in> set ts. tick (ext w) \<le> t \<and> t \<le> tick (ext w'))
         \<and> buffer w' = buffer w @ map2 click_event (redirected qs as) ts)"
  using assms(5-)
proof (induction qs arbitrary: w as)
  case Nil
  then show ?case by (simp add: run_Ret)
next
  case (Cons q qs)
  obtain a v where a: "run (handle_Redirect P L h q Map.empty) w = (a, v)" by (cases "run (handle_Redirect P L h q Map.empty) w")
  obtain bs where bs: "run (serve_redirects P L h qs) v = (bs, w')" "as = a # bs"
    using Cons.prems(4) a by (auto simp: run_simps split: prod.splits)
  have "length (buffer w) < bufferSize" using Cons.prems(3) by simp
  from redirect_up [OF assms(1-4) Cons.prems(1,2) this a]
  obtain t where v: "db v = db w" "up (ext v)" "unread (ext v) = unread (ext w)" "seen (ext v) = seen (ext w)"
    "sys_inv raw tick L (blockDomain (svc h)) C I v" "tick (ext w) \<le> tick (ext v)" "tick (ext w) \<le> t" "t \<le> tick (ext v)"
    "buffer v = buffer w @ (if is_301 a then [click_event q t] else [])" by blast
  have "length (buffer v) + length qs \<le> bufferSize" using Cons.prems(3) v(9) by simp
  from Cons.IH [OF v(2,5) this bs(1)] obtain ts where ts: "db w' = db v" "up (ext w')" "unread (ext w') = unread (ext v)"
    "seen (ext w') = seen (ext v)" "tick (ext v) \<le> tick (ext w')" "length bs = length qs" "length ts = length (redirected qs bs)"
    "\<forall>t \<in> set ts. tick (ext v) \<le> t \<and> t \<le> tick (ext w')" "buffer w' = buffer v @ map2 click_event (redirected qs bs) ts"
    by blast
  have "\<forall>t' \<in> set (if is_301 a then t # ts else ts). tick (ext w) \<le> t' \<and> t' \<le> tick (ext w')"
    using v(6-8) ts(5,8) by auto
  then show ?case
    using v(1-4,6,9) ts(1-7,9) bs(2) by (intro conjI exI [of _ "if is_301 a then t # ts else ts"]) auto
qed

end

subsection \<open>The statistics\<close>

text \<open>The clicks of a URL, and those with one referrer.\<close>

definition url_clicks :: "database \<Rightarrow> int \<Rightarrow> int" where
  "url_clicks d i = clicks_in (\<lambda>(j, _, m, _). j = i \<and> m = ''total'') d"

definition referrer_clicks :: "database \<Rightarrow> int \<Rightarrow> string \<Rightarrow> int" where
  "referrer_clicks d i v = clicks_in (\<lambda>(j, _, m, x). j = i \<and> m = ''referrer'' \<and> x = v) d"

lemma stats_clicks:
  assumes "run (repo_StatsByURLID P i) w = (Inr s, w')"
  shows "TotalClicks s = url_clicks (db w) i"
proof -
  have "(\<lambda>a. (case daily_key a of (j, _, m, _) \<Rightarrow> j = i \<and> m = ''total'')) = (\<lambda>a. d_url_id a = i \<and> d_dim a = ''total'')"
    by (simp add: daily_key_def fun_eq_iff)
  then show ?thesis by (simp add: stats_read(1) [OF assms] url_clicks_def clicks_in_def dim_rows_def)
qed

lemma stats_db:
  assumes "run (repo_StatsByURLID P i) w = (r, w')"
  shows "db w' = db w"
proof -
  have read: "db v' = db v" if "sql_step P st v = (a, v')" "\<And>now d. snd (st now d) = d" for st :: "'r stmt" and v v' a
    using that(1)
  proof (cases rule: sql_step_cases)
    case (executed x d)
    with that(2) [of "p_sql_now P x" "db v"] show ?thesis by simp
  next
    case (unacked m x q d)
    with that(2) [of "p_sql_now P x" "db v"] show ?thesis by simp
  qed simp
  have "\<And>now d. snd (select_total i now d) = d" "\<And>now d. snd (select_daily i now d) = d" "\<And>now d. snd (select_referrers i now d) = d"
    by (simp_all add: select_total_def select_daily_def select_referrers_def)
  with assms show ?thesis
    by (auto simp: repo_StatsByURLID_def run_simps split: prod.splits sum.splits dest!: read)
qed

text \<open>C19: A statistics request is always answered. A 200 carries the total of all clicks counted for the row under the code, or for the copy in the cache, and the clicks of each day, which add up to it; a 404 says that the code is not in the table, a 410 that its row has expired. No answer changes the database.\<close>

theorem stats_response:
  assumes "kv_server P raw tick" "lib_ok L" "store (svc h) = URLRepository P" "cache (svc h) = Some C"
    and "run (handle_Stats P L h q hs) w = (a, w')" and "code = q_URLParam q"
  shows "\<exists>resp. a = Written resp \<and> db w' = db w
    \<and> (if res_Status resp = 200
       then \<exists>u st. (lookup_url (db w) code = Some u \<or> kv_holds L C (raw (ext w)) code u)
            \<and> (\<forall>e. ExpiresAt u = Some e \<longrightarrow> tick (ext w) < e)
            \<and> res_Body resp = JsonBody (stats_json st) \<and> TotalClicks st = url_clicks (db w) (ID u)
            \<and> TotalClicks st = sum_list (map Clicks (Daily st))
       else res_Status resp \<in> {404, 410, 500}
            \<and> (res_Status resp = 404 \<longrightarrow> lookup_url (db w) code = None)
            \<and> (res_Status resp = 410 \<longrightarrow> (\<exists>u e. lookup_url (db w) code = Some u \<and> ExpiresAt u = Some e \<and> e \<le> tick (ext w'))))"
proof -
  obtain r v where r: "run (Resolve P L (svc h) code) w = (r, v)" by (cases "run (Resolve P L (svc h) code) w")
  note ok = resolve_facts [OF assms(1-4) r]
  show ?thesis
  proof (cases r)
    case (Inl err)
    with assms(5,6) r have "run (writeResolveError q hs err) v = (a, w')" by (simp add: handle_Stats_def GetStats_def run_simps)
    then show ?thesis
    proof (cases rule: writeResolveError_run)
      case (1 resp status c message)
      with resolve_error_cases [OF 1(3)] ok Inl show ?thesis by (auto simp: error_response_def)
    qed
  next
    case (Inr u)
    obtain g y where g: "run (repo_StatsByURLID P (ID u)) v = (g, y)" by (cases "run (repo_StatsByURLID P (ID u)) v")
    have y: "db y = db w" using stats_db [OF g] ok(1) by simp
    show ?thesis
    proof (cases g)
      case (Inl err)
      have "\<not> errors_Is err ErrNotFound" "\<not> errors_Is err ErrExpired" using stats_error [OF g [unfolded Inl]] by auto
      with assms(3,5,6) r \<open>r = Inr u\<close> g Inl y show ?thesis
        by (auto simp: handle_Stats_def GetStats_def run_simps writeResolveError_def resolve_error_case_def writeError_def writeJSON_def respond_def Let_def)
    next
      case (Inr st)
      with assms(3,5,6) r \<open>r = Inr u\<close> g have "run (writeJSON hs 200 (stats_json st)) y = (a, w')"
        by (simp add: handle_Stats_def GetStats_def run_simps)
      then obtain resp where a: "a = Written resp" "w' = y" "res_Status resp = 200" "res_Body resp = JsonBody (stats_json st)"
        by (auto simp: writeJSON_def respond_def run_simps)
      have "TotalClicks st = url_clicks (db w) (ID u)" using stats_clicks [OF g [unfolded Inr]] ok(1) by simp
      moreover have "TotalClicks st = sum_list (map Clicks (Daily st))" by (rule stats_total [OF g [unfolded Inr]])
      ultimately have "\<exists>u st'. (lookup_url (db w) code = Some u \<or> kv_holds L C (raw (ext w)) code u)
          \<and> (\<forall>e. ExpiresAt u = Some e \<longrightarrow> tick (ext w) < e) \<and> res_Body resp = JsonBody (stats_json st')
          \<and> TotalClicks st' = url_clicks (db w) (ID u) \<and> TotalClicks st' = sum_list (map Clicks (Daily st'))"
        using a(4) ok(3) [OF \<open>r = Inr u\<close>] by (intro exI [of _ u] exI [of _ st]) simp
      with a y show ?thesis by simp
    qed
  qed
qed

theorem stats_response_witness:
  "\<exists>resp w' st. run (handle_Stats sim_platform demo_lib demo_handler (demo_http ''GET'' ''ab0'' '''') Map.empty)
       (world0 demo_clicks (sim0 0)) = (Written resp, w')
     \<and> res_Body resp = JsonBody (stats_json st) \<and> TotalClicks st = 5 \<and> db w' = demo_clicks"
proof -
  let ?q = "demo_http ''GET'' ''ab0'' ''''" and ?w = "world0 demo_clicks (sim0 0)"
  have "\<not> isl (fst (run (GetStats sim_platform demo_lib demo_service ''ab0'') ?w))" by code_simp
  then obtain st w' where g: "run (GetStats sim_platform demo_lib demo_service ''ab0'') ?w = (Inr st, w')"
    by (metis prod.collapse sum.collapse(2))
  then obtain resp where r: "run (handle_Stats sim_platform demo_lib demo_handler ?q Map.empty) ?w = (Written resp, w')" "res_Status resp = 200"
    by (auto simp: handle_Stats_def run_simps writeJSON_def respond_def)
  have w: "db ?w = demo_clicks" "s_kv (ext ?w) = Map.empty" by (simp_all add: world0_def sim0_def)
  have c: "map_option (url_clicks demo_clicks \<circ> ID) (lookup_url demo_clicks ''ab0'') = Some 5" by code_simp
  from stats_response [OF sim_law demo_lib_ok _ _ r(1), of "NewURLCache ''v1:''" "''ab0''"] r c show ?thesis
    by (auto simp: kv_holds_def w)
qed

lemma lookup_same_id:
  assumes "db_inv d" "lookup_url d c = Some u" "lookup_url d c' = Some u'" "ID u = ID u'"
  shows "c = c'"
proof -
  from assms(2,3) obtain r r' where "r \<in> set (urls d)" "has_code c r" "u = row_url c r" "r' \<in> set (urls d)" "has_code c' r'" "u' = row_url c' r'"
    by (blast dest: lookup_SomeD)
  moreover from this assms(1,4) have "r = r'"
    by (auto simp: db_inv_def urls_inv_def ids_def distinct_map inj_on_def row_url_def)
  ultimately show ?thesis by (auto simp: has_code_def)
qed

lemma click_hits:
  assumes "db_inv d" "lookup_url d code = Some u" "length ts = length qs"
  shows "hits (\<lambda>(j, _, m, _). j = ID u \<and> m = ''total'') (concat (map (event_keys d) (map2 click_event qs ts)))
      = int (length (filter (\<lambda>q. q_URLParam q = code) qs))"
    "v \<noteq> '''' \<Longrightarrow> hits (\<lambda>(j, _, m, x). j = ID u \<and> m = ''referrer'' \<and> x = v) (concat (map (event_keys d) (map2 click_event qs ts)))
      = int (length (filter (\<lambda>q. q_URLParam q = code \<and> q_Header q ''Referer'' = v) qs))"
  using assms(3)
proof (induction qs ts rule: list_induct2')
  case (4 q qs t ts)
  have eq: "ID u' = ID u \<longleftrightarrow> q_URLParam q = code" if "lookup_url d (q_URLParam q) = Some u'" for u'
    using lookup_same_id [OF assms(1) that assms(2)] that assms(2) by auto
  { case 1 with 4 eq assms(2) show ?case by (auto simp: event_keys_def click_keys_def split: option.split)
  next
    case 2 with 4 eq assms(2) show ?case by (auto simp: event_keys_def click_keys_def split: option.split) }
qed simp_all

lemma length_redirected: "length (redirected qs as) \<le> length qs"
  by (simp add: redirected_def) (metis length_filter_le length_zip min.cobounded1 order_trans)

lemma redirected_subset: "set (redirected qs as) \<subseteq> set qs"
  by (auto simp: redirected_def dest: set_zip_leftD)

lemma map2_elem: "e \<in> set (map2 f xs ys) \<Longrightarrow> \<exists>x \<in> set xs. \<exists>y \<in> set ys. e = f x y"
  by (auto dest: set_zip_leftD set_zip_rightD)


definition demo_click :: "string \<Rightarrow> string \<Rightarrow> request" where
  "demo_click code ref = (demo_http ''GET'' code '''')\<lparr>q_Header := (\<lambda>k. if k = ''Referer'' then ref else '''')\<rparr>"


end
