(* ===== verification/Ownership.thy ===== *)
theory Ownership
imports Credit
begin

section \<open>Programs that own parts of the world\<close>

text \<open>
  A logic for programs that interleave, in the manner of separation logic: beside an
  invariant \<open>I\<close> of the world and an amount of credit against the measure \<open>Phi\<close>, a
  program may own items of the world (rows that only it knows of). \<open>own x w\<close> says
  that the item \<open>x\<close> of \<open>w\<close> is in the state its owner relies on. A step may
  drop or acquire items, but must leave every item that somebody else may own as it is, and
  must not acquire one. Items for which \<open>sh\<close> holds are facts that stay true: they may be owned by
  any number of programs, and no step may break one.
\<close>

definition fair_step ::
  "('w \<Rightarrow> bool) \<Rightarrow> ('i \<Rightarrow> bool) \<Rightarrow> ('i \<Rightarrow> 'w \<Rightarrow> bool) \<Rightarrow> ('w \<Rightarrow> int)
     \<Rightarrow> 'w \<Rightarrow> 'i set \<Rightarrow> int \<Rightarrow> 'w \<Rightarrow> 'i set \<Rightarrow> int \<Rightarrow> bool" where
  "fair_step I sh own Phi w X k w' X' k' \<longleftrightarrow> I w' \<and> 0 \<le> k' \<and> Phi w' + k' \<le> Phi w + k
     \<and> (\<forall>x \<in> X'. own x w') \<and> (\<forall>x. (x \<notin> X \<or> sh x) \<and> own x w \<longrightarrow> own x w')
     \<and> (\<forall>x. x \<notin> X \<and> own x w \<longrightarrow> x \<notin> X' \<or> sh x)"

primrec pays ::
  "('w \<Rightarrow> bool) \<Rightarrow> ('i \<Rightarrow> bool) \<Rightarrow> ('i \<Rightarrow> 'w \<Rightarrow> bool) \<Rightarrow> ('w \<Rightarrow> int) \<Rightarrow> ('a \<Rightarrow> 'i set \<Rightarrow> int \<Rightarrow> bool)
     \<Rightarrow> ('w, 'a) prog \<Rightarrow> 'i set \<Rightarrow> int \<Rightarrow> bool" where
  "pays I sh own Phi R (Ret a) = R a"
| "pays I sh own Phi R (Act f) = (\<lambda>X k. \<forall>w. I w \<and> (\<forall>x \<in> X. own x w) \<longrightarrow>
     (\<lambda>(c, w'). \<exists>X' k'. fair_step I sh own Phi w X k w' X' k' \<and> c X' k') (map_prod (pays I sh own Phi R) id (f w)))"

lemma pays_Act: "pays I sh own Phi R (Act f) X k \<longleftrightarrow>
    (\<forall>w p w'. I w \<longrightarrow> (\<forall>x \<in> X. own x w) \<longrightarrow> f w = (p, w') \<longrightarrow>
       (\<exists>X' k'. fair_step I sh own Phi w X k w' X' k' \<and> pays I sh own Phi R p X' k'))"
  unfolding pays.simps case_prod_beta fst_map_prod snd_map_prod id_apply
  by (metis prod.collapse fst_conv snd_conv)

declare pays.simps(2) [simp del]

lemma pays_ActD:
  assumes "pays I sh own Phi R (Act f) X k" "I w" "\<forall>x \<in> X. own x w" "f w = (p, w')"
  obtains X' k' where "fair_step I sh own Phi w X k w' X' k'" "pays I sh own Phi R p X' k'"
  using assms unfolding pays_Act by blast

lemma pays_act:
  fixes I :: "'w \<Rightarrow> bool" and R :: "'a \<Rightarrow> 'i set \<Rightarrow> int \<Rightarrow> bool"
  assumes "\<And>w a w'. I w \<Longrightarrow> \<forall>x \<in> X. own x w \<Longrightarrow> g w = (a, w') \<Longrightarrow>
      \<exists>X' k'. fair_step I sh own Phi w X k w' X' k' \<and> R a X' k'"
  shows "pays I sh own Phi R (act g) X k"
  unfolding act_def pays_Act
proof (intro allI impI)
  fix w w' :: 'w and p :: "('w, 'a) prog"
  assume I: "I w" and own: "\<forall>x \<in> X. own x w" and f: "(case g w of (a, w') \<Rightarrow> (Ret a, w')) = (p, w')"
  then obtain a where "g w = (a, w')" "p = Ret a" by (cases "g w") auto
  with assms [OF I own this(1)] show "\<exists>X' k'. fair_step I sh own Phi w X k w' X' k' \<and> pays I sh own Phi R p X' k'" by simp
qed

lemma pays_bindp:
  "pays I sh own Phi R m X k \<Longrightarrow> (\<And>a X' k'. R a X' k' \<Longrightarrow> pays I sh own Phi S (h a) X' k') \<Longrightarrow> pays I sh own Phi S (bindp m h) X k"
proof (induction m arbitrary: X k)
  case (Act f)
  show ?case unfolding bindp.simps pays_Act
  proof (intro allI impI)
    fix w p w'
    assume I: "I w" and own: "\<forall>x \<in> X. own x w" and f: "(map_prod (\<lambda>p. bindp p h) id \<circ> f) w = (p, w')"
    obtain q v where q: "f w = (q, v)" by (cases "f w")
    then have r: "(q, v) \<in> range f" by (metis rangeI)
    obtain X' k' where k: "fair_step I sh own Phi w X k v X' k'" "pays I sh own Phi R q X' k'"
      using pays_ActD [OF Act.prems(1) I own q] .
    from Act.IH [OF r _ k(2) Act.prems(2)] have "pays I sh own Phi S (bindp q h) X' k'" by simp
    with k f q show "\<exists>X' k'. fair_step I sh own Phi w X k w' X' k' \<and> pays I sh own Phi S p X' k'" by auto
  qed
qed simp

lemma pays_post: "pays I sh own Phi R p X k \<Longrightarrow> (\<And>a X' k'. R a X' k' \<Longrightarrow> S a X' k') \<Longrightarrow> pays I sh own Phi S p X k"
  by (subst bindp_Ret_right [symmetric]) (erule pays_bindp, simp)

text \<open>Credit that a program does not need stays what it was.\<close>

lemma pays_frame:
  "pays I sh own Phi R p X k \<Longrightarrow> 0 \<le> c \<Longrightarrow> pays I sh own Phi (\<lambda>a X' k'. R a X' (k' - c)) p X (k + c)"
proof (induction p arbitrary: X k)
  case (Act f)
  show ?case unfolding pays_Act
  proof (intro allI impI)
    fix w p w'
    assume I: "I w" and own: "\<forall>x \<in> X. own x w" and f: "f w = (p, w')"
    obtain X' k' where k: "fair_step I sh own Phi w X k w' X' k'" "pays I sh own Phi R p X' k'"
      using pays_ActD [OF Act.prems(1) I own f] .
    from f have "(p, w') \<in> range f" by (metis rangeI)
    from Act.IH [OF this _ k(2) Act.prems(2)] k(1) Act.prems(2)
    show "\<exists>X' k'. fair_step I sh own Phi w X (k + c) w' X' k' \<and> pays I sh own Phi (\<lambda>a X' k'. R a X' (k' - c)) p X' k'"
      by (intro exI [of _ X'] exI [of _ "k' + c"]) (auto simp: fair_step_def)
  qed
qed simp

subsection \<open>Pools\<close>

definition pool_pays ::
  "('w \<Rightarrow> bool) \<Rightarrow> ('i \<Rightarrow> bool) \<Rightarrow> ('i \<Rightarrow> 'w \<Rightarrow> bool) \<Rightarrow> ('w \<Rightarrow> int) \<Rightarrow> (nat \<Rightarrow> 'a \<Rightarrow> int) \<Rightarrow> ('w, 'a) pool \<Rightarrow> 'i set list \<Rightarrow> int list \<Rightarrow> bool" where
  "pool_pays I sh own Phi cost c Xs ks \<longleftrightarrow> I (fst c) \<and> length Xs = length (snd c) \<and> length ks = length (snd c)
     \<and> (\<forall>i < length (snd c). 0 \<le> ks ! i \<and> pays I sh own Phi (\<lambda>a _ k. cost i a \<le> k) (snd c ! i) (Xs ! i) (ks ! i)
          \<and> (\<forall>x \<in> Xs ! i. own x (fst c)))
     \<and> (\<forall>i < length (snd c). \<forall>j < length (snd c). i \<noteq> j \<longrightarrow> (\<forall>x \<in> Xs ! i \<inter> Xs ! j. sh x))"

lemma pstep_pays:
  "pstep c d \<Longrightarrow> pool_pays I sh own Phi cost c Xs ks \<Longrightarrow>
     \<exists>Xs' ks'. pool_pays I sh own Phi cost d Xs' ks' \<and> Phi (fst d) + sum_list ks' \<le> Phi (fst c) + sum_list ks"
proof (induction rule: pstep.induct)
  case (move i ps f w p w')
  have inv: "I w" "length Xs = length ps" "length ks = length ps"
    and each: "\<And>j. j < length ps \<Longrightarrow> 0 \<le> ks ! j \<and> pays I sh own Phi (\<lambda>a _ k. cost j a \<le> k) (ps ! j) (Xs ! j) (ks ! j)"
    and owns: "\<And>j x. j < length ps \<Longrightarrow> x \<in> Xs ! j \<Longrightarrow> own x w"
    and dis: "\<And>j l x. j < length ps \<Longrightarrow> l < length ps \<Longrightarrow> j \<noteq> l \<Longrightarrow> x \<in> Xs ! j \<Longrightarrow> x \<in> Xs ! l \<Longrightarrow> sh x"
    using move.prems unfolding pool_pays_def by auto
  have c: "pays I sh own Phi (\<lambda>a _ k. cost i a \<le> k) (Act f) (Xs ! i) (ks ! i)" using each [OF move.hyps(1)] move.hyps(2) by simp
  have "\<forall>x \<in> Xs ! i. own x w" using owns [OF move.hyps(1)] by blast
  from pays_ActD [OF c inv(1) this move.hyps(3)] obtain X k where
    s: "fair_step I sh own Phi w (Xs ! i) (ks ! i) w' X k" "pays I sh own Phi (\<lambda>a _ k. cost i a \<le> k) p X k" .
  have keep: "own x w' \<and> (x \<in> X \<longrightarrow> sh x)" if "x \<in> Xs ! j" "j < length ps" "j \<noteq> i" for x j
    using s(1) owns [OF that(2,1)] dis [OF that(2) move.hyps(1) that(3,1)] unfolding fair_step_def by blast
  have "pool_pays I sh own Phi cost (w', ps[i := p]) (Xs[i := X]) (ks[i := k])"
    unfolding pool_pays_def fst_conv snd_conv
  proof (intro conjI allI impI ballI)
    show "I w'" using s(1) by (simp add: fair_step_def)
    fix j assume j: "j < length (ps[i := p])"
    show "0 \<le> ks[i := k] ! j" "pays I sh own Phi (\<lambda>a _ k. cost j a \<le> k) (ps[i := p] ! j) (Xs[i := X] ! j) (ks[i := k] ! j)"
      using j each [of j] s inv move.hyps(1) by (auto simp: nth_list_update fair_step_def)
    show "own x w'" if "x \<in> Xs[i := X] ! j" for x
      using that j keep [of x j] s(1) inv move.hyps(1) by (auto simp: nth_list_update fair_step_def split: if_splits)
    fix l assume l: "l < length (ps[i := p])" "j \<noteq> l"
    show "sh x" if "x \<in> Xs[i := X] ! j \<inter> Xs[i := X] ! l" for x
      using that j l dis [of j l x] keep [of x j] keep [of x l] inv move.hyps(1) by (auto simp: nth_list_update split: if_splits)
  qed (simp_all add: inv)
  moreover have "Phi w' + sum_list (ks[i := k]) \<le> Phi w + sum_list ks"
    using s(1) inv(3) move.hyps(1) by (simp add: sum_list_update_le fair_step_def)
  ultimately show ?case by auto
qed

lemma psteps_pays:
  "pstep\<^sup>*\<^sup>* c d \<Longrightarrow> pool_pays I sh own Phi cost c Xs ks \<Longrightarrow>
     \<exists>Xs' ks'. pool_pays I sh own Phi cost d Xs' ks' \<and> Phi (fst d) + sum_list ks' \<le> Phi (fst c) + sum_list ks"
proof (induction rule: rtranclp_induct)
  case base
  then show ?case by blast
next
  case (step d e)
  then obtain Xs1 ks1 where 1: "pool_pays I sh own Phi cost d Xs1 ks1" "Phi (fst d) + sum_list ks1 \<le> Phi (fst c) + sum_list ks" by blast
  from pstep_pays [OF step.hyps(2) 1(1)] 1(2) show ?case by fastforce
qed

text \<open>What the finished programs of a pool have returned, at the price \<open>cost\<close>.\<close>

lemma pool_pays_total:
  assumes "pstep\<^sup>*\<^sup>* (w, ps) (w', ps')" "I w" "length ks = length ps" "\<And>i. i < length ps \<Longrightarrow> 0 \<le> ks ! i"
    and "\<And>i. i < length ps \<Longrightarrow> pays I sh own Phi (\<lambda>a _ k. cost i a \<le> k) (ps ! i) {} (ks ! i)"
  shows "I w' \<and> Phi w' + (\<Sum>i < length ps'. case ps' ! i of Ret a \<Rightarrow> cost i a | Act f \<Rightarrow> 0) \<le> Phi w + sum_list ks"
proof -
  have "pool_pays I sh own Phi cost (w, ps) (replicate (length ps) {}) ks"
    using assms(2-5) by (simp add: pool_pays_def)
  from psteps_pays [OF assms(1) this] obtain Xs' ks' where
    c: "pool_pays I sh own Phi cost (w', ps') Xs' ks'" "Phi w' + sum_list ks' \<le> Phi w + sum_list ks" by auto
  have "(case ps' ! i of Ret a \<Rightarrow> cost i a | Act f \<Rightarrow> 0) \<le> ks' ! i" if "i < length ps'" for i
    using c(1) that by (cases "ps' ! i") (auto simp: pool_pays_def dest!: spec [of _ i])
  then have "(\<Sum>i < length ps'. case ps' ! i of Ret a \<Rightarrow> cost i a | Act f \<Rightarrow> 0) \<le> (\<Sum>i < length ps'. ks' ! i)"
    by (intro sum_mono) auto
  also have "\<dots> = sum_list ks'" using c(1) by (simp add: pool_pays_def sum_list_sum_nth atLeast0LessThan)
  finally show ?thesis using c by (auto simp: pool_pays_def)
qed

end
