(* ===== verification/Create_Race.thy ===== *)
theory Create_Race
imports Ownership Api_Pool Up_Spec
begin

section \<open>Creates that race for a code\<close>

text \<open>
  Any number of requests at once, any interleaving, any failures: for one code \<open>c\<close>, the
  requests that were told they created \<open>c\<close> are paid for by \<open>c\<close> coming into the table.
  The measure is whether \<open>c\<close> is free; what a request owns between its INSERT and its UPDATE is
  the row without a code that it inserted, whose id no other request knows.
\<close>

definition code_free :: "string \<Rightarrow> database \<Rightarrow> int" where
  "code_free c d = of_bool (lookup_url d c = None)"

definition pending_row :: "int \<Rightarrow> 'x world \<Rightarrow> bool" where
  "pending_row i w \<longleftrightarrow> db_pending (db w) i \<noteq> None"

abbreviation race ::
  "string \<Rightarrow> ('a \<Rightarrow> int set \<Rightarrow> int \<Rightarrow> bool) \<Rightarrow> ('x world, 'a) prog \<Rightarrow> int set \<Rightarrow> int \<Rightarrow> bool" where
  "race c \<equiv> pays (\<lambda>w. db_inv (db w)) (\<lambda>_. False) pending_row (\<lambda>w. code_free c (db w))"

lemma code_free_le: "0 \<le> code_free c d" "code_free c d \<le> 1"
  by (simp_all add: code_free_def)

subsection \<open>The statements\<close>

text \<open>What a statement may do to the rows without a code, and the credit it leaves.\<close>

definition fair_stmt :: "string \<Rightarrow> database \<Rightarrow> int set \<Rightarrow> int \<Rightarrow> database \<Rightarrow> int set \<Rightarrow> int \<Rightarrow> bool" where
  "fair_stmt c d X k d' X' k' \<longleftrightarrow> db_inv d' \<and> 0 \<le> k' \<and> code_free c d' + k' \<le> code_free c d + k
     \<and> (\<forall>i \<in> X'. db_pending d' i \<noteq> None) \<and> (\<forall>i. i \<notin> X \<and> db_pending d i \<noteq> None \<longrightarrow> db_pending d' i \<noteq> None \<and> i \<notin> X')"

lemma fair_stmt_same: "db_inv d \<Longrightarrow> 0 \<le> k \<Longrightarrow> \<forall>i \<in> X. db_pending d i \<noteq> None \<Longrightarrow> fair_stmt c d X k d X k"
  by (simp add: fair_stmt_def)

lemma fair_stmt_weak: "fair_stmt c d X k d' X' k' \<Longrightarrow> 0 \<le> l \<Longrightarrow> l \<le> k' \<Longrightarrow> Y \<subseteq> X' \<Longrightarrow> fair_stmt c d X k d' Y l"
  unfolding fair_stmt_def by (auto dest: subsetD)

lemma fair_step_stmt: "fair_stmt c (db w) X k (db w') X' k' \<longleftrightarrow>
    fair_step (\<lambda>w. db_inv (db w)) (\<lambda>_. False) pending_row (\<lambda>w. code_free c (db w)) w X k w' X' k'"
  by (auto simp: fair_stmt_def fair_step_def pending_row_def)

lemma race_SQL:
  assumes exec: "\<And>now d r d'. st now d = (r, d') \<Longrightarrow> db_inv d \<Longrightarrow> \<forall>i \<in> X. db_pending d i \<noteq> None \<Longrightarrow>
      \<exists>X' k'. fair_stmt c d X k d' X' k' \<and> R r X' k'"
    and refused: "\<And>m. R (Inl (Plain m)) X k" "0 \<le> k"
    and lost: "\<And>now d r d' m. st now d = (r, d') \<Longrightarrow> db_inv d \<Longrightarrow> \<forall>i \<in> X. db_pending d i \<noteq> None \<Longrightarrow>
      \<exists>X' k'. fair_stmt c d X k d' X' k' \<and> R (Inl (Plain m)) X' k'"
  shows "race c R (SQL (P :: 'x platform) st) X k"
  unfolding SQL_def
proof (rule pays_act)
  fix w :: "'x world" and a w'
  assume I: "db_inv (db w)" and own: "\<forall>x \<in> X. pending_row x w" and s: "sql_step P st w = (a, w')"
  have own': "\<forall>i \<in> X. db_pending (db w) i \<noteq> None" using own by (simp add: pending_row_def)
  from s show "\<exists>X' k'. fair_step (\<lambda>w. db_inv (db w)) (\<lambda>_. False) pending_row (\<lambda>w. code_free c (db w)) w X k w' X' k' \<and> R a X' k'"
    unfolding fair_step_stmt [symmetric]
  proof (cases rule: sql_step_cases)
    case (refused m x)
    with fair_stmt_same [OF I assms(3) own'] assms(2) [of m] show "\<exists>X' k'. fair_stmt c (db w) X k (db w') X' k' \<and> R a X' k'" by auto
  next
    case (executed x d)
    with exec [OF executed(2) I own'] show "\<exists>X' k'. fair_stmt c (db w) X k (db w') X' k' \<and> R a X' k'" by simp
  next
    case (unacked m x q d)
    with lost [OF unacked(2) I own', of m] show "\<exists>X' k'. fair_stmt c (db w) X k (db w') X' k' \<and> R a X' k'" by simp
  qed
qed

lemma insert_pending:
  assumes "insert_url co l e now d = (r, d')"
  shows "db_pending d i \<noteq> None \<Longrightarrow> db_pending d' i \<noteq> None"
proof (cases r)
  case (Inl err)
  with insert_url_Inl [of co l e now d err d'] assms show "db_pending d i \<noteq> None \<Longrightarrow> db_pending d' i \<noteq> None"
    by (auto simp: db_pending_def)
next
  case (Inr j)
  with insert_url_Inr [of co l e now d j d'] assms show "db_pending d i \<noteq> None \<Longrightarrow> db_pending d' i \<noteq> None"
    by (auto simp: db_pending_def find_append split: option.splits)
qed

lemma pending_id: "urls_inv d \<Longrightarrow> db_pending d i \<noteq> None \<Longrightarrow> i < next_id d"
  by (auto simp: db_pending_def urls_inv_def dest!: find_Some_D)

lemma insert_failed_free: "insert_url co l e now d = (Inl err, d') \<Longrightarrow> code_free c d' = code_free c d"
  by (auto dest!: insert_url_Inl simp: code_free_def lookup_url_def)

lemma fair_insert_custom:
  assumes "insert_url (Some c') l e now d = (r, d')" "db_inv d"
  shows "fair_stmt c d {} 0 d' {} (if c' = c \<and> (\<exists>i. r = Inr i) then 1 else 0)"
proof (cases r)
  case (Inl err)
  with insert_failed_free [of _ l e now d err d'] assms insert_url_inv [OF assms] insert_pending [OF assms(1)]
  show ?thesis by (simp add: fair_stmt_def)
next
  case (Inr i)
  note n = insert_coded [OF assms(1) [unfolded Inr]]
  have "lookup_url d' = (lookup_url d)(c' \<mapsto> fresh_url i c' l e (pg_ts now))" "lookup_url d c' = None"
    using n by (simp_all add: db_coded_def fun_eq_iff)
  with Inr insert_url_inv [OF assms] insert_pending [OF assms(1)] show ?thesis
    by (auto simp: fair_stmt_def code_free_def)
qed

lemma fair_insert_auto:
  assumes "insert_url None l e now d = (r, d')" "db_inv d"
  shows "fair_stmt c d {} 0 d' (case r of Inl err \<Rightarrow> {} | Inr i \<Rightarrow> {i}) 0"
proof (cases r)
  case (Inl err)
  with insert_failed_free [of _ l e now d err d'] assms insert_url_inv [OF assms] insert_pending [OF assms(1)]
  show ?thesis by (simp add: fair_stmt_def)
next
  case (Inr i)
  have ui: "urls_inv d" using assms(2) by (simp add: db_inv_def)
  note n = insert_uncoded [OF assms(1) [unfolded Inr] ui]
  have "i = next_id d" using insert_url_Inr [OF assms(1) [unfolded Inr]] by simp
  moreover have "code_free c d' = code_free c d" using n(1) by (simp add: code_free_def db_coded_def fun_eq_iff)
  ultimately show ?thesis using Inr n(2) insert_url_inv [OF assms] insert_pending [OF assms(1)] pending_id [OF ui]
    by (fastforce simp: fair_stmt_def)
qed

lemma update_other_pending:
  assumes "update_url_code k i now d = (r, d')" "j \<noteq> i"
  shows "db_pending d' j = db_pending d j"
proof -
  have "find (\<lambda>r. r_id r = j \<and> r_code r = None) (map (set_row_code i k) rs) = find (\<lambda>r. r_id r = j \<and> r_code r = None) rs" for rs
    using assms(2) by (induction rs) (auto simp: set_row_code_def)
  with assms(1) show ?thesis by (auto simp: update_url_code_def db_pending_def split: if_splits)
qed

lemma fair_update:
  assumes "update_url_code k i now d = (r, d')" "db_inv d" "db_pending d i \<noteq> None"
  shows "fair_stmt c d {i} 0 d' {} (if k = c \<and> (\<exists>n. r = Inr n) then 1 else 0)"
proof -
  obtain u where u: "db_pending d i = Some u" using assms(3) by blast
  have ui: "urls_inv d" using assms(2) by (simp add: db_inv_def)
  from update_coded [OF ui u assms(1)] show ?thesis
    using update_url_code_inv [OF assms(1,2)] update_other_pending [OF assms(1)] assms(2)
    by (auto simp: fair_stmt_def code_free_def db_coded_def fun_eq_iff)
qed

lemma fair_delete:
  assumes "delete_url k now d = (r, d')" "db_inv d"
  shows "fair_stmt c d {} (of_bool (k = c)) d' {} 0"
proof -
  have "find (\<lambda>r. r_id r = j \<and> r_code r = None) (filter (\<lambda>r. \<not> has_code k r) rs) = find (\<lambda>r. r_id r = j \<and> r_code r = None) rs" for j rs
    by (induction rs) (auto simp: has_code_def)
  then have "db_pending d' = db_pending d"
    using assms(1) by (auto simp: delete_url_def Let_def db_pending_def fun_eq_iff split: if_splits)
  moreover have "k \<noteq> c \<Longrightarrow> code_free c d' = code_free c d"
    using assms(1) delete_coded [of k now d _ d']
    by (cases r) (auto simp: delete_url_def Let_def code_free_def db_coded_def fun_eq_iff split: if_splits)
  ultimately show ?thesis using delete_url_inv [OF assms] code_free_le [of c d] code_free_le [of c d'] by (auto simp: fair_stmt_def)
qed

subsection \<open>The programs\<close>

text \<open>Programs that change nothing of this: \<open>Q\<close> holds of what they return.\<close>

definition still :: "string \<Rightarrow> ('a \<Rightarrow> bool) \<Rightarrow> ('x world, 'a) prog \<Rightarrow> bool" where
  "still c Q p \<longleftrightarrow> (\<forall>X k. 0 \<le> k \<longrightarrow> race c (\<lambda>a X' k'. Q a \<and> X' = X \<and> k' = k) p X k)"

abbreviation "idle c \<equiv> still c (\<lambda>_. True)"

lemma still_Ret [intro]: "Q a \<Longrightarrow> still c Q (Ret a)"
  by (simp add: still_def)

lemma idle_Ret: "idle c (Ret a)"
  by (simp add: still_def)

lemma still_bindp:
  "still c Q p \<Longrightarrow> (\<And>a. Q a \<Longrightarrow> still c R (h a)) \<Longrightarrow> still c R (bindp p h)"
  unfolding still_def by (blast intro: pays_bindp)

lemma still_weak: "still c Q p \<Longrightarrow> (\<And>a. Q a \<Longrightarrow> R a) \<Longrightarrow> still c R p"
  unfolding still_def by (blast intro: pays_post)

lemma still_use:
  assumes "still c Q p" "0 \<le> k" "\<And>a. Q a \<Longrightarrow> race c R (h a) X k"
  shows "race c R (bindp p h) X k"
  by (rule pays_bindp [where R = "\<lambda>a X' k'. Q a \<and> X' = X \<and> k' = k"]) (use assms in \<open>auto simp: still_def\<close>)

lemma still_end: "still c Q p \<Longrightarrow> 0 \<le> k \<Longrightarrow> (\<And>a. Q a \<Longrightarrow> R a X k) \<Longrightarrow> race c R p X k"
  unfolding still_def by (rule pays_post [where R = "\<lambda>a X' k'. Q a \<and> X' = X \<and> k' = k"]) auto

lemma still_SQL:
  assumes "\<And>now d. snd (st now d) = d" "\<And>now d. Q (fst (st now d))" "\<And>m. Q (Inl (Plain m))"
  shows "still c Q (SQL P st)"
  unfolding still_def
proof (intro allI impI race_SQL)
  fix X k now d r d'
  assume s: "st now d = (r, d')" and d: "db_inv d" "\<forall>i \<in> X. db_pending d i \<noteq> None" and k: "0 \<le> (k :: int)"
  have "d' = d" "Q r" using assms(1,2) [of now d] s by simp_all
  with fair_stmt_same [OF d(1) k d(2), of c] assms(3)
  show "\<exists>X' k'. fair_stmt c d X k d' X' k' \<and> Q r \<and> X' = X \<and> k' = k"
    "\<exists>X' k'. fair_stmt c d X k d' X' k' \<and> Q (Inl (Plain m)) \<and> X' = X \<and> k' = k" for m by auto
qed (simp_all add: assms(3))

lemma still_ext: "idle c (ext_act g)"
  unfolding still_def ext_act_def
  by (intro allI impI pays_act) (auto simp: fair_step_def pending_row_def split: prod.splits)

lemma still_Inc [intro]: "idle c (Inc m)"
  unfolding still_def Inc_def by (intro allI impI pays_act) (auto simp: fair_step_def pending_row_def)

lemma still_time [intro]: "idle c (time_Now P)" "idle c (time_Sleep P d)" "idle c (ctx_Err P)"
  unfolding act_defs by (rule still_ext)+

lemma still_get: "still c (\<lambda>r. \<forall>u. r = Inr u \<longrightarrow> Code u = k) (repo_GetByCode P k)"
  unfolding repo_defs
  by (rule still_bindp [OF still_SQL [where Q = "\<lambda>r. \<forall>u. r = Inr u \<longrightarrow> Code u = k"]])
    (auto simp: select_url_def row_url_def split: sum.splits option.splits)

lemma idle_get [intro]: "idle c (repo_GetByCode P k)"
  by (rule still_weak [OF still_get]) simp

lemma idle_redis [intro]:
  "idle c (cache_Get P L C k)" "idle c (cache_Set P L C k u)" "idle c (cache_Delete P C k)"
  "idle c (idem_Get P st k)" "idle c (idem_Claim P st k)" "idle c (idem_Set P st k v)" "idle c (idem_Release P st k)"
  unfolding cache_Get_def cache_Set_def cache_Delete_def cache_put_def idem_defs Let_def
  by (auto intro!: still_bindp [where Q = "\<lambda>_. True"] still_ext split: sum.splits option.splits)

lemma idle_bindp: "idle c p \<Longrightarrow> (\<And>a. idle c (h a)) \<Longrightarrow> idle c (bindp p h)"
  by (rule still_bindp)

lemmas idle_rules = idle_Ret idle_bindp still_time still_Inc idle_get idle_redis

lemma idle_Resolve:
  assumes "store s = URLRepository P"
  shows "idle c (Resolve P L s k)"
proof -
  have "idle c (resolve_store P L s k)"
    unfolding resolve_store_def assms by (auto intro!: idle_rules split: sum.splits option.splits)
  then show ?thesis unfolding Resolve_def
    by (auto intro!: idle_rules split: sum.splits option.splits)
qed

lemma idle_GetStats:
  assumes "store s = URLRepository P"
  shows "idle c (GetStats P L s k)"
proof -
  have sql: "idle c (SQL P (select_total i))" "idle c (SQL P (select_daily i))" "idle c (SQL P (select_referrers i))" for i
    by (rule still_SQL; simp add: select_total_def select_daily_def select_referrers_def)+
  have "idle c (repo_StatsByURLID P i)" for i
    unfolding repo_StatsByURLID_def by (auto intro!: idle_rules sql split: sum.splits)
  then show ?thesis unfolding GetStats_def tryp_def using assms
    by (auto intro!: idle_rules idle_Resolve split: sum.splits)
qed

subsection \<open>Creating\<close>

text \<open>The answer's price: a create that reports, not as a replay, that it created \<open>c\<close>.\<close>

definition won :: "string \<Rightarrow> goerr + create_result \<Rightarrow> int" where
  "won c r = (case r of Inr res \<Rightarrow> of_bool (Code (res_URL res) = c \<and> \<not> res_Replayed res) | Inl _ \<Rightarrow> 0)"

abbreviation "pays_won c \<equiv> race c (\<lambda>r X k. won c r \<le> k \<and> 0 \<le> k)"

lemma won_simps [simp]: "won c (Inl e) = 0" "won c (Inr res) = of_bool (Code (res_URL res) = c \<and> \<not> res_Replayed res)"
  by (simp_all add: won_def)

text \<open>Obtaining the code: what remains is the credit for \<open>c\<close>, if that is the code.\<close>

definition got :: "string \<Rightarrow> goerr + string \<Rightarrow> int set \<Rightarrow> int \<Rightarrow> bool" where
  "got c r X k \<longleftrightarrow> 0 \<le> k \<and> (r = Inr c \<longrightarrow> 1 \<le> k)"

lemma got_custom: "race c (got c) (bindp (repo_CreateWithCode P c' l e) (\<lambda>r. case r of
    Inl err \<Rightarrow> if errors_Is err RepoErrConflict then Ret (Inl x) else Ret (Inl err) | Inr _ \<Rightarrow> Ret (Inr c'))) {} 0"
  unfolding repo_CreateWithCode_def bindp_assoc
  by (rule pays_bindp [where R = "\<lambda>r X k. X = {} \<and> k = (if c' = c \<and> (\<exists>i. r = Inr i) then 1 else 0)"],
      rule race_SQL)
    (auto simp: got_def split: sum.split
      intro: fair_insert_custom exI [where x = "{}"] fair_stmt_weak [OF fair_insert_custom])

lemma race_update: "race c (\<lambda>r X m. X \<subseteq> {i} \<and> m = (if k = c \<and> (\<exists>n. r = Inr n) then 1 else 0)) (SQL P (update_url_code k i)) {i} 0"
proof (rule race_SQL)
  fix now d r d' m
  assume u: "update_url_code k i now d = (r, d')" and d: "db_inv d" "\<forall>j \<in> {i}. db_pending d j \<noteq> None"
  have f: "fair_stmt c d {i} 0 d' {} (if k = c \<and> (\<exists>n. r = Inr n) then 1 else 0)" using fair_update [OF u d(1)] d(2) by simp
  then show "\<exists>X' k'. fair_stmt c d {i} 0 d' X' k' \<and> X' \<subseteq> {i} \<and> k' = (if k = c \<and> (\<exists>n. r = Inr n) then 1 else 0)" by blast
  have "fair_stmt c d {i} 0 d' {} 0" by (rule fair_stmt_weak [OF f]) simp_all
  then show "\<exists>X' k'. fair_stmt c d {i} 0 d' X' k' \<and> X' \<subseteq> {i} \<and> k' = (if k = c \<and> (\<exists>n. (Inl (Plain m) :: goerr + int) = Inr n) then 1 else 0)"
    by auto
qed auto

lemma race_insert: "race c (\<lambda>r X m. X = (case r of Inl err \<Rightarrow> {} | Inr i \<Rightarrow> {i}) \<and> m = 0) (SQL P (insert_url None l e)) {} 0"
proof (rule race_SQL)
  fix now d r d' m
  assume u: "insert_url None l e now d = (r, d')" and d: "db_inv d"
  note f = fair_insert_auto [OF u d, of c]
  then show "\<exists>X' k'. fair_stmt c d {} 0 d' X' k' \<and> X' = (case r of Inl err \<Rightarrow> {} | Inr i \<Rightarrow> {i}) \<and> k' = 0" by blast
  have "fair_stmt c d {} 0 d' {} 0" by (rule fair_stmt_weak [OF f]) simp_all
  then show "\<exists>X' k'. fair_stmt c d {} 0 d' X' k' \<and> X' = (case (Inl (Plain m) :: goerr + int) of Inl err \<Rightarrow> {} | Inr i \<Rightarrow> {i}) \<and> k' = 0"
    by auto
qed auto

text \<open>A row whose code could not be set stays in the table, but nobody relies on it any more.\<close>


lemma got_auto: "race c (got c) (tryp (repo_Create P l e) (\<lambda>i. case EncodeBase62 (word_of_int i) of
    None \<Rightarrow> Ret (Inl z)
  | Some k \<Rightarrow> bindp (repo_SetCode P i k) (\<lambda>r. case r of
      Inl err \<Rightarrow> if errors_Is err RepoErrConflict then Ret (Inl (x err)) else Ret (Inl err) | Inr _ \<Rightarrow> Ret (Inr k)))) {} 0"
proof -
  have upd: "race c (got c) (bindp (repo_SetCode P i k) (\<lambda>r. case r of
      Inl err \<Rightarrow> if errors_Is err RepoErrConflict then Ret (Inl (x err)) else Ret (Inl err) | Inr _ \<Rightarrow> Ret (Inr k))) {i} 0" for i k
    unfolding repo_SetCode_def bindp_assoc
    by (rule pays_bindp [OF race_update]) (auto simp: got_def split: sum.split)
  show ?thesis unfolding repo_Create_def tryp_def bindp_assoc
    by (rule pays_bindp [OF race_insert]) (auto simp: got_def upd split: sum.split option.split)
qed

lemma createOne_won:
  assumes "store s = URLRepository P"
  shows "race c (\<lambda>r X k. 0 \<le> k \<and> (\<forall>res. r = Inr res \<longrightarrow> \<not> res_Replayed res \<and> (Code (res_URL res) = c \<longrightarrow> 1 \<le> k)))
    (createOne L s inp l e) {} 0"
proof -
  have code: "race c (got c)
     (if in_CustomCode inp \<noteq> '''' then
          (case validateCustomCode (in_CustomCode inp) of
             Some err \<Rightarrow> Ret (Inl err)
           | None \<Rightarrow>
               bindp (repo_CreateWithCode P (in_CustomCode inp) l e) (\<lambda>r.
                 case r of
                   Inl err \<Rightarrow>
                     if errors_Is err RepoErrConflict
                     then Ret (Inl (WrapSuf (Sentinel ErrCodeTaken) (go_quote (in_CustomCode inp))))
                     else Ret (Inl err)
                 | Inr _ \<Rightarrow> Ret (Inr (in_CustomCode inp))))
        else
          tryp (repo_Create P l e) (\<lambda>i.
            case EncodeBase62 (word_of_int i) of
              None \<Rightarrow> Ret (Inl (Panicked ''index out of range''))
            | Some code \<Rightarrow>
                bindp (repo_SetCode P i code) (\<lambda>r.
                  case r of
                    Inl err \<Rightarrow>
                      if errors_Is err RepoErrConflict
                      then Ret (Inl (WrapPre ''codegen collision (database state inconsistent)'' err))
                      else Ret (Inl err)
                  | Inr _ \<Rightarrow> Ret (Inr code)))) {} 0"
    by (auto simp: got_custom got_auto split: option.split) (simp add: got_def)
  have read: "race c (\<lambda>r X k. 0 \<le> k \<and> (\<forall>res. r = Inr res \<longrightarrow> \<not> res_Replayed res \<and> (Code (res_URL res) = c \<longrightarrow> 1 \<le> k)))
      (tryp (repo_GetByCode P code) (\<lambda>created.
            Ret (Inr \<lparr>res_URL = created, res_ShortURL = shortURLFor L s code, res_Replayed = False\<rparr>))) X k"
    if "got c (Inr code) X k" for code X k
    unfolding tryp_def by (rule still_use [OF still_get]) (use that in \<open>auto simp: got_def split: sum.split\<close>)
  show ?thesis unfolding createOne_def assms URLRepository_sel
    by (subst tryp_def, rule pays_bindp [OF code]) (auto intro: read simp: got_def split: sum.split)
qed

lemma replay_won:
  assumes "store s = URLRepository P" "0 \<le> k"
  shows "pays_won c (replay L s code) X k"
  unfolding replay_def assms(1) URLRepository_sel
  by (rule still_use [OF idle_get]) (auto simp: assms(2) split: sum.split)

lemma wait_won:
  assumes "store s = URLRepository P" "0 \<le> k"
  shows "pays_won c (wait_for_winner P L s st key n) X k"
proof (induction n)
  case (Suc n)
  have hit: "pays_won c (bindp (Inc IdempotencyReplays) (\<lambda>_. replay L s code)) X k" for code
    by (rule still_use [OF still_Inc assms(2)]) (rule replay_won [OF assms])
  show ?case unfolding wait_for_winner.simps
    by (rule still_use [OF still_time(3) assms(2)])
      (auto simp: assms(2) split: option.split sum.split intro!: still_use [OF still_time(2) assms(2)] still_use [OF idle_redis(4) assms(2)] hit Suc)
qed (simp add: assms(2))

lemma createOne_pays: "store s = URLRepository P \<Longrightarrow> pays_won c (createOne L s inp l e) {} 0"
  by (rule pays_post [OF createOne_won]) (auto simp: won_def split: sum.split)

lemma createIdempotent_won:
  assumes "store s = URLRepository P"
  shows "pays_won c (createIdempotent P L s inp l e) {} 0"
proof -
  note one = createOne_pays [OF assms]
  have tail: "pays_won c (bindp (idem_Set P ist k (Code (res_URL res))) (\<lambda>_. bindp (idem_Release P ist k) (\<lambda>_. Ret (Inr res)))) X m"
    if "0 \<le> m" "\<not> res_Replayed res \<and> (Code (res_URL res) = c \<longrightarrow> 1 \<le> m)" for ist k res X m
    by (rule still_use [OF idle_redis(6) that(1)], rule still_use [OF idle_redis(7) that(1)]) (use that in auto)
  have winner: "pays_won c (tryp (createOne L s inp l e) (\<lambda>res.
      bindp (idem_Set P ist k (Code (res_URL res))) (\<lambda>_. bindp (idem_Release P ist k) (\<lambda>_. Ret (Inr res))))) {} 0" for ist k
    unfolding tryp_def by (rule pays_bindp [OF createOne_won [OF assms]]) (auto split: sum.split intro: tail)
  have skip: "pays_won c (bindp (Inc IdempotencySkipped) (\<lambda>_. createOne L s inp l e)) {} 0"
    by (rule still_use [OF still_Inc]) (simp_all add: one)
  have hit: "pays_won c (bindp (Inc IdempotencyReplays) (\<lambda>_. replay L s code)) {} 0" for code
    by (rule still_use [OF still_Inc]) (simp_all add: replay_won [OF assms])
  show ?thesis unfolding createIdempotent_def Let_def
    by (auto simp: one split: option.split sum.split bool.split
        intro!: still_use [OF idle_redis(4)] still_use [OF idle_redis(5)] winner skip hit wait_won [OF assms])
qed

lemma service_Create_won:
  assumes "store s = URLRepository P"
  shows "pays_won c (service_Create P L s inp) {} 0"
proof -
  have expiry: "idle c (if in_ExpiresIn inp \<noteq> '''' then tryp (parseExpiry P (in_ExpiresIn inp)) (\<lambda>t. Ret (Inr (Some t))) else Ret (Inr None))"
    unfolding tryp_def parseExpiry_def by (auto intro!: idle_rules split: sum.split)
  have body: "pays_won c (if in_IdempotencyKey i \<noteq> '''' then createIdempotent P L s i l e
      else tryp (createOne L s i l e) (\<lambda>res.
         Ret (Inr \<lparr>res_URL = res_URL res, res_ShortURL = res_ShortURL res, res_Replayed = False\<rparr>))) {} 0" for i l e
    using createIdempotent_won [OF assms] unfolding tryp_def
    by (auto split: sum.split intro!: pays_bindp [OF createOne_won [OF assms]])
  have rest: "pays_won c (tryp (if in_ExpiresIn inp \<noteq> '''' then tryp (parseExpiry P (in_ExpiresIn inp)) (\<lambda>t. Ret (Inr (Some t)))
      else Ret (Inr None)) h) {} 0" if "\<And>e. pays_won c (h e) {} 0" for h
    by (subst tryp_def, rule still_use [OF expiry]) (auto split: sum.split intro: that)
  show ?thesis unfolding service_Create_def Let_def
    by (cases "validateLongURL L (blockDomain s) (in_URL inp)") (simp, simp only: sum.case, rule rest, rule body)
qed

lemma service_Delete_won:
  assumes "store s = URLRepository P"
  shows "race c (\<lambda>_ X k. 0 \<le> k) (service_Delete P s c') {} (of_bool (c' = c))"
proof -
  have sql: "race c (\<lambda>_ X k. 0 \<le> k) (SQL P (delete_url c')) {} (of_bool (c' = c))"
  proof (rule race_SQL)
    fix now d r d'
    assume "delete_url c' now d = (r, d')" "db_inv d"
    from fair_delete [OF this, of c]
    show "\<exists>X' k'. fair_stmt c d {} (of_bool (c' = c)) d' X' k' \<and> 0 \<le> k'"
      "\<exists>X' k'. fair_stmt c d {} (of_bool (c' = c)) d' X' k' \<and> 0 \<le> k'" by blast+
  qed simp_all
  have del: "race c (\<lambda>_ X k. 0 \<le> k) (repo_DeleteByCode P c') {} (of_bool (c' = c))"
    unfolding repo_DeleteByCode_def by (rule pays_bindp [OF sql]) (auto split: sum.split)
  show ?thesis unfolding service_Delete_def assms URLRepository_sel
    by (rule pays_bindp [OF del]) (auto split: sum.split option.split intro!: still_use [OF idle_redis(3)])
qed

subsection \<open>One winner\<close>

definition call_won :: "string \<Rightarrow> api_answer \<Rightarrow> bool" where
  "call_won c a = (case a of Created (Inr res) \<Rightarrow> Code (res_URL res) = c \<and> \<not> res_Replayed res | _ \<Rightarrow> False)"

lemma api_prog_won:
  assumes "store s = URLRepository P"
  shows "race c (\<lambda>a _ k. of_bool (call_won c a) \<le> k) (api_prog P L s call) {} (of_bool (call = CallDelete c))"
proof -
  have mk: "race c (\<lambda>a _ k. of_bool (call_won c a) \<le> k) (bindp p (\<lambda>r. Ret (f r))) {} 0"
    if "idle c p" "\<And>r. \<not> call_won c (f r)" for p :: "('x world, 'b) prog" and f
    by (rule still_use [OF that(1)]) (simp_all add: that(2))
  show ?thesis
  proof (cases call)
    case (CallCreate inp)
    have "race c (\<lambda>a _ k. of_bool (call_won c a) \<le> k) (bindp (service_Create P L s inp) (\<lambda>r. Ret (Created r))) {} 0"
      by (rule pays_bindp [OF service_Create_won [OF assms]]) (auto simp: call_won_def won_def split: sum.splits)
    with CallCreate show ?thesis by (simp add: api_prog_def)
  next
    case (CallDelete c')
    have "race c (\<lambda>a _ k. of_bool (call_won c a) \<le> k) (bindp (service_Delete P s c') (\<lambda>r. Ret (Deleted r))) {} (of_bool (c' = c))"
      by (rule pays_bindp [OF service_Delete_won [OF assms]]) (simp add: call_won_def)
    with CallDelete show ?thesis by (simp add: api_prog_def)
  next
    case (CallResolve c')
    with mk [OF idle_Resolve [OF assms], of Resolved] show ?thesis by (simp add: api_prog_def call_won_def)
  next
    case (CallStats c')
    with mk [OF idle_GetStats [OF assms], of Statistics] show ?thesis by (simp add: api_prog_def call_won_def)
  qed
qed

text \<open>C8: Creating a code is exclusive. However many creates, resolves, deletes and statistics requests run at once over the repository, whatever their keys, however their statements interleave and whichever fail: for every code, custom or generated, the requests that are told they created it are at most as many as the requests to delete it, plus one if it was not in the table at the start and is there at the end. Without deletes at most one request wins a code, and none wins a code that was taken.\<close>

theorem one_creator_per_code:
  assumes "store s = URLRepository P" "db_inv (db w)" "pstep\<^sup>*\<^sup>* (w, map (api_prog P L s) calls) (w', ps)"
  shows "length (filter (\<lambda>p. \<exists>a. p = Ret a \<and> call_won c a) ps) + of_bool (lookup_url (db w) c \<noteq> None)
    \<le> length (filter (\<lambda>x. x = CallDelete c) calls) + of_bool (lookup_url (db w') c \<noteq> None)"
proof -
  let ?ks = "map (\<lambda>x. of_bool (x = CallDelete c) :: int) calls"
  let ?cost = "\<lambda>a. of_bool (call_won c a) :: int"
  have "db_inv (db w') \<and> code_free c (db w') + (\<Sum>i < length ps. case ps ! i of Ret a \<Rightarrow> ?cost a | Act f \<Rightarrow> 0)
      \<le> code_free c (db w) + sum_list ?ks"
    by (rule pool_pays_total [where I = "\<lambda>w. db_inv (db w)" and sh = "\<lambda>_. False" and own = pending_row, OF assms(3)])
      (use assms(2) in \<open>simp_all add: api_prog_won [OF assms(1)]\<close>)
  moreover have "sum_list ?ks = int (length (filter (\<lambda>x. x = CallDelete c) calls))" by (induction calls) auto
  moreover have "(\<Sum>i < length ps. case ps ! i of Ret a \<Rightarrow> ?cost a | Act f \<Rightarrow> 0)
      = sum_list (map (\<lambda>p. case p of Ret a \<Rightarrow> ?cost a | Act f \<Rightarrow> 0) ps)"
    by (simp add: sum_list_sum_nth atLeast0LessThan)
  moreover have "\<dots> = int (length (filter (\<lambda>p. \<exists>a. p = Ret a \<and> call_won c a) ps))"
    by (induction ps) (auto split: prog.split)
  ultimately show ?thesis by (auto simp: code_free_def split: if_splits)
qed

definition demo_create :: create_params where
  "demo_create = \<lparr>in_URL = ''http://a'', in_CustomCode = ''ab0'', in_ExpiresIn = '''', in_IdempotencyKey = ''''\<rparr>"


theorem one_creator_per_code_witness:
  "\<exists>w' a b. pstep\<^sup>*\<^sup>* (world0 empty_db (sim0 0), map (api_prog sim_platform demo_lib demo_service) [CallCreate demo_create, CallCreate demo_create])
        (w', [Ret a, Ret b])
     \<and> call_won ''ab0'' a \<and> \<not> call_won ''ab0'' b"
proof -
  let ?p = "api_prog sim_platform demo_lib demo_service (CallCreate demo_create)" and ?w = "world0 empty_db (sim0 0)"
  obtain a v where a: "run ?p ?w = (a, v)" by (cases "run ?p ?w")
  obtain b w' where b: "run ?p v = (b, w')" by (cases "run ?p v")
  have "call_won ''ab0'' (fst (run ?p ?w))" by code_simp
  with a have won: "call_won ''ab0'' a" by simp
  have "pstep\<^sup>*\<^sup>* (?w, [?p, ?p]) (v, [Ret a, ?p])" using run_psteps_at [OF a, of 0 "[?p, ?p]"] by simp
  moreover have "pstep\<^sup>*\<^sup>* (v, [Ret a, ?p]) (w', [Ret a, Ret b])" using run_psteps_at [OF b, of 1 "[Ret a, ?p]"] by simp
  ultimately have steps: "pstep\<^sup>*\<^sup>* (?w, map (api_prog sim_platform demo_lib demo_service) [CallCreate demo_create, CallCreate demo_create])
      (w', [Ret a, Ret b])" by simp
  have "store demo_service = URLRepository sim_platform" "db_inv (db ?w)" by (simp_all add: world0_def empty_db_inv)
  from one_creator_per_code [OF this steps, of "''ab0''"] won have "\<not> call_won ''ab0'' b" by (auto simp: of_bool_def split: if_splits)
  with won steps show ?thesis by blast
qed

end
