(* ===== verification/Migrate.thy ===== *)
theory Migrate
imports Go_Lib Prog "HOL-Library.List_Lexorder" "HOL-Library.Char_ord" "HOL-Library.Sublist"
begin

section \<open>The migrator\<close>

text \<open>
  \<open>internal/repository/migrate.go\<close>. The migrator owns one connection. What PostgreSQL does
  with the text of a script is not in the repository: \<open>mp_script\<close> gives its effect on the
  schema, of any type \<open>'s\<close>, or its error. As in theory Platform a statement may be refused,
  executed, or executed with its answer lost. The file system is the list of the names and
  contents in the directory of migrations. A transaction's changes are kept in the program until
  it commits, which publishes the schema and the version together. \<open>mg_versions\<close> is the
  table \<open>schema_migrations\<close>, \<open>None\<close> before it exists.
\<close>

datatype mig_fate = Done | Rejected string | NoAnswer string

record ('x, 's) mig_platform =
  mp_acquire :: "'x \<Rightarrow> goerr option \<times> 'x"
  mp_stmt :: "'x \<Rightarrow> mig_fate \<times> 'x"
  mp_script :: "string \<Rightarrow> 's \<Rightarrow> goerr + 's"

record ('x, 's) mig_world =
  mg_ext :: 'x
  mg_schema :: 's
  mg_versions :: "int list option"
  mg_locked :: bool

type_synonym files = "(string \<times> string) list"

type_synonym ('x, 's, 'r) mig_stmt = "('x, 's) mig_world \<Rightarrow> (goerr + 'r) \<times> ('x, 's) mig_world"

definition mig_step :: "('x, 's) mig_platform \<Rightarrow> ('x, 's, 'r) mig_stmt \<Rightarrow> ('x, 's, 'r) mig_stmt" where
  "mig_step P g w =
     (case mp_stmt P (mg_ext w) of (f, x) \<Rightarrow>
        (case f of
           Rejected m \<Rightarrow> (Inl (Plain m), w\<lparr>mg_ext := x\<rparr>)
         | Done \<Rightarrow> g (w\<lparr>mg_ext := x\<rparr>)
         | NoAnswer m \<Rightarrow> (Inl (Plain m), snd (g (w\<lparr>mg_ext := x\<rparr>)))))"

definition Exec :: "('x, 's) mig_platform \<Rightarrow> ('x, 's, 'r) mig_stmt \<Rightarrow> (('x, 's) mig_world, goerr + 'r) prog" where
  "Exec P g = act (mig_step P g)"

definition failed :: "string \<Rightarrow> (goerr + 'r) \<Rightarrow> ('r \<Rightarrow> ('w, goerr option) prog) \<Rightarrow> ('w, goerr option) prog" where
  \<comment> \<open>\<open>if err != nil { return fmt.Errorf("...: %w", err) }\<close>\<close>
  "failed m r k = (case r of Inl err \<Rightarrow> Ret (Some (WrapPre m err)) | Inr a \<Rightarrow> k a)"

subsection \<open>Versions\<close>

definition has_suffix :: "string \<Rightarrow> string \<Rightarrow> bool" where
  "has_suffix s suf \<longleftrightarrow> length suf \<le> length s \<and> drop (length s - length suf) s = suf"

definition TrimSuffix :: "string \<Rightarrow> string \<Rightarrow> string" where
  "TrimSuffix s suf = (if has_suffix s suf then take (length s - length suf) s else s)"

definition migrationVersion :: "string \<Rightarrow> int option" where
  "migrationVersion name = ParseInt (takeWhile (\<lambda>c. c \<noteq> CHR ''_'') (TrimSuffix name ''.up.sql''))"

text \<open>\<open>fs.Glob(fsys, "*.up.sql")\<close>, sorted: the star stands for any text without a slash.\<close>

definition migration_files :: "files \<Rightarrow> string list" where
  "migration_files fsys = sort (filter (\<lambda>n. has_suffix n ''.up.sql'' \<and> CHR ''/'' \<notin> set n) (map fst fsys))"

subsection \<open>Apply\<close>

definition create_versions :: "('x, 's, unit) mig_stmt" where
  "create_versions w = (Inr (), if mg_versions w = None then w\<lparr>mg_versions := Some []\<rparr> else w)"

definition version_exists :: "int \<Rightarrow> ('x, 's, bool) mig_stmt" where
  "version_exists v w =
     (case mg_versions w of None \<Rightarrow> Inl (PgError ''42P01'') | Some vs \<Rightarrow> Inr (v \<in> set vs), w)"

definition tx_begin :: "('x, 's, 's) mig_stmt" where
  "tx_begin w = (Inr (mg_schema w), w)"

definition tx_script :: "('x, 's) mig_platform \<Rightarrow> string \<Rightarrow> 's \<Rightarrow> ('x, 's, 's) mig_stmt" where
  "tx_script P script s w = (mp_script P script s, w)"

definition tx_record :: "int \<Rightarrow> ('x, 's, unit) mig_stmt" where
  "tx_record v w =
     (case mg_versions w of
        None \<Rightarrow> Inl (PgError ''42P01'')
      | Some vs \<Rightarrow> if v \<in> set vs then Inl (PgError ''23505'') else Inr (), w)"

definition tx_commit :: "'s \<Rightarrow> int \<Rightarrow> ('x, 's, unit) mig_stmt" where
  "tx_commit s v w = (Inr (), w\<lparr>mg_schema := s, mg_versions := map_option (\<lambda>vs. vs @ [v]) (mg_versions w)\<rparr>)"

definition tx_rollback :: "('x, 's, unit) mig_stmt" where
  "tx_rollback w = (Inr (), w)"

text \<open>\<open>return\<close> after a rollback whose own outcome is ignored.\<close>

definition rolled_back ::
  "('x, 's) mig_platform \<Rightarrow> string \<Rightarrow> (goerr + 'r) \<Rightarrow> ('r \<Rightarrow> (('x, 's) mig_world, goerr option) prog)
     \<Rightarrow> (('x, 's) mig_world, goerr option) prog" where
  "rolled_back P m r k =
     (case r of
        Inl err \<Rightarrow> bindp (Exec P tx_rollback) (\<lambda>_. Ret (Some (WrapPre m err)))
      | Inr a \<Rightarrow> k a)"

text \<open>One migration in its transaction, then one turn of the loop of \<open>Apply\<close>; \<open>None\<close>: go on.\<close>

definition apply_script ::
  "('x, 's) mig_platform \<Rightarrow> string \<Rightarrow> int \<Rightarrow> string \<Rightarrow> (('x, 's) mig_world, goerr option) prog" where
  "apply_script P name version script =
     bindp (Exec P tx_begin) (\<lambda>r. failed (''begin migration '' @ go_quote name) r (\<lambda>s0.
     bindp (Exec P (tx_script P script s0)) (\<lambda>r. rolled_back P (''apply migration '' @ go_quote name) r (\<lambda>s1.
     bindp (Exec P (tx_record version)) (\<lambda>r. rolled_back P (''record migration '' @ go_quote name) r (\<lambda>_.
     bindp (Exec P (tx_commit s1 version)) (\<lambda>r. failed (''commit migration '' @ go_quote name) r (\<lambda>_.
       Ret None))))))))"

definition apply_one ::
  "('x, 's) mig_platform \<Rightarrow> files \<Rightarrow> string \<Rightarrow> (('x, 's) mig_world, goerr option) prog" where
  "apply_one P fsys name =
     (case migrationVersion name of
        None \<Rightarrow> Ret (Some (WrapPre (''parse migration '' @ go_quote name) (Plain ''strconv.ParseInt'')))
      | Some version \<Rightarrow>
          bindp (Exec P (version_exists version)) (\<lambda>r. failed (''check migration '' @ Itoa version) r (\<lambda>applied.
            if applied then Ret None
            else
              case map_of fsys name of
                None \<Rightarrow> Ret (Some (WrapPre (''read migration '' @ go_quote name) (Plain ''file does not exist'')))
              | Some script \<Rightarrow> apply_script P name version script)))"

fun apply_files ::
  "('x, 's) mig_platform \<Rightarrow> files \<Rightarrow> string list \<Rightarrow> (('x, 's) mig_world, goerr option) prog" where
  "apply_files P fsys [] = Ret None"
| "apply_files P fsys (name # names) =
     bindp (apply_one P fsys name) (\<lambda>e.
       case e of Some err \<Rightarrow> Ret (Some err) | None \<Rightarrow> apply_files P fsys names)"

definition set_lock :: "bool \<Rightarrow> ('x, 's, unit) mig_stmt" where
  "set_lock b w = (Inr (), w\<lparr>mg_locked := b\<rparr>)"

definition Apply :: "('x, 's) mig_platform \<Rightarrow> files \<Rightarrow> (('x, 's) mig_world, goerr option) prog" where
  "Apply P fsys =
     bindp (act (\<lambda>w. case mp_acquire P (mg_ext w) of (e, x) \<Rightarrow> (e, w\<lparr>mg_ext := x\<rparr>))) (\<lambda>e.
       case e of
         Some err \<Rightarrow> Ret (Some (WrapPre ''acquire migration connection'' err))
       | None \<Rightarrow>
           bindp (Exec P (set_lock True)) (\<lambda>r. failed ''acquire advisory lock'' r (\<lambda>_.
           bindp
             (bindp (Exec P create_versions) (\<lambda>r. failed ''ensure schema_migrations'' r (\<lambda>_.
                apply_files P fsys (migration_files fsys))))
             (\<lambda>e. bindp (Exec P (set_lock False)) (\<lambda>_. Ret e)))))"

lemma run_Exec [run_simps]: "run (Exec P g) w = mig_step P g w"
  by (simp add: Exec_def run_act)

lemma version_examples:
  "migrationVersion ''0001_init.up.sql'' = Some 1" "migrationVersion ''init.up.sql'' = None"
  "migration_files [(''0001_init.down.sql'', ''a''), (''0002_x.up.sql'', ''b''), (''0001_init.up.sql'', ''c'')]
     = [''0001_init.up.sql'', ''0002_x.up.sql'']"
  by code_simp+

subsection \<open>A migration is recorded if and only if it has been applied\<close>

text \<open>The schema after the scripts of some files, run in order.\<close>

fun run_scripts :: "('x, 's) mig_platform \<Rightarrow> files \<Rightarrow> string list \<Rightarrow> 's \<Rightarrow> 's option" where
  "run_scripts P fsys [] s = Some s"
| "run_scripts P fsys (n # ns) s =
     (case map_of fsys n of
        None \<Rightarrow> None
      | Some script \<Rightarrow> (case mp_script P script s of Inl err \<Rightarrow> None | Inr s1 \<Rightarrow> run_scripts P fsys ns s1))"

text \<open>
  From \<open>w\<close> to \<open>w'\<close> the files \<open>ns\<close> were migrated: their versions, new and
  distinct, were recorded in this order, and their scripts make the difference of the schemas.
\<close>

definition migrated :: "('x, 's) mig_platform \<Rightarrow> files \<Rightarrow> string list \<Rightarrow> ('x, 's) mig_world \<Rightarrow> ('x, 's) mig_world \<Rightarrow> bool" where
  "migrated P fsys ns w w' \<longleftrightarrow>
     (\<exists>vs. mg_versions w = Some vs \<and> mg_versions w' = Some (vs @ map (the \<circ> migrationVersion) ns)
        \<and> distinct (map migrationVersion ns) \<and> (\<forall>n \<in> set ns. \<exists>v. migrationVersion n = Some v \<and> v \<notin> set vs)
        \<and> run_scripts P fsys ns (mg_schema w) = Some (mg_schema w'))"

lemma run_scripts_append:
  "run_scripts P fsys (ms @ ns) s = (case run_scripts P fsys ms s of None \<Rightarrow> None | Some t \<Rightarrow> run_scripts P fsys ns t)"
  by (induction ms arbitrary: s) (auto split: option.split sum.split)

lemma migrated_trans:
  assumes "migrated P fsys ms w v" "migrated P fsys ns v w'"
  shows "migrated P fsys (ms @ ns) w w'"
proof -
  obtain vs where vs: "mg_versions w = Some vs" "mg_versions v = Some (vs @ map (the \<circ> migrationVersion) ms)"
    "distinct (map migrationVersion ms)" "\<forall>n \<in> set ms. \<exists>v. migrationVersion n = Some v \<and> v \<notin> set vs"
    "run_scripts P fsys ms (mg_schema w) = Some (mg_schema v)"
    using assms(1) by (auto simp: migrated_def)
  from assms(2) vs(2) have n: "mg_versions w' = Some (vs @ map (the \<circ> migrationVersion) (ms @ ns))"
    "distinct (map migrationVersion ns)"
    "\<forall>n \<in> set ns. \<exists>x. migrationVersion n = Some x \<and> x \<notin> set vs \<and> x \<notin> (the \<circ> migrationVersion) ` set ms"
    "run_scripts P fsys ns (mg_schema v) = Some (mg_schema w')"
    by (auto simp: migrated_def)
  have "migrationVersion n \<noteq> migrationVersion m" if "n \<in> set ns" "m \<in> set ms" for n m
    using bspec [OF n(3) that(1)] that(2) by (auto simp: image_iff)
  then have "migrationVersion ` set ms \<inter> migrationVersion ` set ns = {}" by (auto simp: image_iff) metis
  then have "distinct (map migrationVersion (ms @ ns))" using vs(3) n(2) by simp
  with vs n show ?thesis unfolding migrated_def
    by (intro exI [of _ vs]) (auto simp: run_scripts_append)
qed

lemma migrated_none: "mg_versions w = Some vs \<Longrightarrow> mg_versions w' = Some vs \<Longrightarrow> mg_schema w' = mg_schema w \<Longrightarrow> migrated P fsys [] w w'"
  by (simp add: migrated_def)

lemma mig_step_cases:
  assumes "mig_step P g w = (r, w')"
  obtains (rejected) m x where "r = Inl (Plain m)" "w' = w\<lparr>mg_ext := x\<rparr>"
    | (finished) x where "g (w\<lparr>mg_ext := x\<rparr>) = (r, w')"
    | (lost) m x q where "r = Inl (Plain m)" "g (w\<lparr>mg_ext := x\<rparr>) = (q, w')"
  using assms unfolding mig_step_def by (auto split: prod.splits mig_fate.splits) (metis prod.collapse)+

text \<open>Statements that leave the committed tables alone.\<close>

definition same_tables :: "('x, 's) mig_world \<Rightarrow> ('x, 's) mig_world \<Rightarrow> bool" where
  "same_tables w w' \<longleftrightarrow> mg_versions w' = mg_versions w \<and> mg_schema w' = mg_schema w"

lemma same_tables_trans: "same_tables w v \<Longrightarrow> same_tables v w' \<Longrightarrow> same_tables w w'"
  by (simp add: same_tables_def)

lemma mig_read:
  assumes "mig_step P g w = (r, w')" "\<And>v. snd (g v) = v"
  shows "same_tables w w' \<and> (\<forall>a. r = Inr a \<longrightarrow> (\<exists>x. fst (g (w\<lparr>mg_ext := x\<rparr>)) = Inr a))"
  using assms(1)
proof (cases rule: mig_step_cases)
  case (finished x)
  with assms(2) [of "w\<lparr>mg_ext := x\<rparr>"] have "w' = w\<lparr>mg_ext := x\<rparr>" "fst (g (w\<lparr>mg_ext := x\<rparr>)) = r" by simp_all
  then show ?thesis by (auto simp: same_tables_def)
next
  case (lost m x q)
  with assms(2) [of "w\<lparr>mg_ext := x\<rparr>"] show ?thesis by (auto simp: same_tables_def)
qed (simp add: same_tables_def)

lemma tx_reads [simp]:
  "snd (version_exists n v) = v" "snd (tx_begin v) = v" "snd (tx_script P script s v) = v" "snd (tx_record n v) = v"
  "snd (tx_rollback v) = v"
  by (simp_all add: version_exists_def tx_begin_def tx_script_def tx_record_def tx_rollback_def)

text \<open>The outcome of one migration: nothing changed, or the file was migrated; without an error, the latter.\<close>

definition one_done :: "('x, 's) mig_platform \<Rightarrow> files \<Rightarrow> string \<Rightarrow> ('x, 's) mig_world \<Rightarrow> goerr option \<Rightarrow> ('x, 's) mig_world \<Rightarrow> bool" where
  "one_done P fsys name w e w' \<longleftrightarrow>
     (\<exists>ns. migrated P fsys ns w w' \<and> subseq ns [name])
     \<and> (e = None \<longrightarrow> (\<exists>v vs. migrationVersion name = Some v \<and> mg_versions w' = Some vs \<and> v \<in> set vs))"

lemma one_same: "mg_versions w = Some vs \<Longrightarrow> same_tables w w' \<Longrightarrow> one_done P fsys name w (Some err) w'"
  unfolding one_done_def same_tables_def by (auto intro!: exI [of _ "[]"] migrated_none)

lemma rolled_back_run:
  assumes "run (rolled_back P m (Inl err) k) v = (e, w')"
  shows "same_tables v w' \<and> e = Some (WrapPre m err)"
  using assms mig_read [where g = tx_rollback and P = P and w = v]
  by (auto simp: rolled_back_def run_simps split: prod.splits)

lemma apply_script_run:
  fixes P :: "('x, 's) mig_platform"
  assumes vs: "mg_versions w = Some vs" "version \<notin> set vs" "migrationVersion name = Some version" "map_of fsys name = Some script"
    and r: "run (apply_script P name version script) w = (e, w')"
  shows "one_done P fsys name w e w'"
proof -
  obtain b w1 where b: "mig_step P tx_begin w = (b, w1)" by (cases "mig_step P tx_begin w")
  note b1 = mig_read [OF b]
  show ?thesis
  proof (cases b)
    case (Inl err)
    with r b b1 vs show ?thesis by (auto simp: apply_script_def run_simps failed_def intro: one_same)
  next
    case (Inr s0)
    with b1 have s0: "s0 = mg_schema w" by (auto simp: tx_begin_def)
    obtain c w2 where c: "mig_step P (tx_script P script s0) w1 = (c, w2)" by (cases "mig_step P (tx_script P script s0) w1")
    note c1 = mig_read [OF c]
    have t2: "same_tables w w2" using b1 c1 by (auto intro: same_tables_trans)
    show ?thesis
    proof (cases c)
      case err: (Inl err)
      with r b c Inr have "run (rolled_back P (''apply migration '' @ go_quote name) (Inl err) (\<lambda>s1 :: 's.
          bindp (Exec P (tx_record version)) (\<lambda>r. rolled_back P (''record migration '' @ go_quote name) r (\<lambda>_.
          bindp (Exec P (tx_commit s1 version)) (\<lambda>r. failed (''commit migration '' @ go_quote name) r (\<lambda>_. Ret None)))))) w2 = (e, w')"
        by (simp add: apply_script_def run_simps failed_def)
      from rolled_back_run [OF this] t2 vs show ?thesis by (auto intro: one_same same_tables_trans)
    next
      case s1: (Inr s1)
      with c1 s0 have sc: "mp_script P script (mg_schema w) = Inr s1" by (auto simp: tx_script_def)
      obtain d w3 where d: "mig_step P (tx_record version) w2 = (d, w3)" by (cases "mig_step P (tx_record version) w2")
      note d1 = mig_read [OF d]
      have t3: "same_tables w w3" using t2 d1 by (auto intro: same_tables_trans)
      show ?thesis
      proof (cases d)
        case err: (Inl err)
        with r b c d Inr s1 have "run (rolled_back P (''record migration '' @ go_quote name) (Inl err) (\<lambda>_ :: unit.
            bindp (Exec P (tx_commit s1 version)) (\<lambda>r. failed (''commit migration '' @ go_quote name) r (\<lambda>_. Ret None)))) w3 = (e, w')"
          by (simp add: apply_script_def run_simps failed_def rolled_back_def)
        from rolled_back_run [OF this] t3 vs show ?thesis by (auto intro: one_same same_tables_trans)
      next
        case u: (Inr u)
        obtain q w4 where q: "mig_step P (tx_commit s1 version) w3 = (q, w4)" by (cases "mig_step P (tx_commit s1 version) w3")
        have e: "w' = w4 \<and> (case q of Inl err \<Rightarrow> \<exists>x. e = Some x | Inr u \<Rightarrow> e = None)"
          using r b c d q Inr s1 u by (auto simp: apply_script_def run_simps failed_def rolled_back_def split: sum.splits)
        have committed: "migrated P fsys [name] w ((w3\<lparr>mg_ext := x\<rparr>)\<lparr>mg_schema := s1, mg_versions := Some (vs @ [version])\<rparr>)" for x
          using vs sc by (simp add: migrated_def)
        from q show ?thesis
        proof (cases rule: mig_step_cases)
          case (rejected m x)
          with e t3 vs show ?thesis by (auto simp: same_tables_def intro: one_same)
        next
          case (finished x)
          with e t3 vs committed [of x] show ?thesis
            by (auto simp: one_done_def tx_commit_def same_tables_def intro!: exI [of _ "[name]"])
        next
          case (lost m x q')
          with e t3 vs committed [of x] show ?thesis
            by (auto simp: one_done_def tx_commit_def same_tables_def intro!: exI [of _ "[name]"])
        qed
      qed
    qed
  qed
qed

lemma apply_one_run:
  assumes vs: "mg_versions w = Some vs" and r: "run (apply_one P fsys name) w = (e, w')"
  shows "one_done P fsys name w e w'"
proof (cases "migrationVersion name")
  case None
  with r vs one_same [of w vs w] show ?thesis by (auto simp: apply_one_def run_simps same_tables_def)
next
  case (Some version)
  obtain b w1 where b: "mig_step P (version_exists version) w = (b, w1)" by (cases "mig_step P (version_exists version) w")
  note b1 = mig_read [OF b]
  show ?thesis
  proof (cases b)
    case (Inl err)
    with r b b1 Some vs show ?thesis by (auto simp: apply_one_def run_simps failed_def intro: one_same)
  next
    case (Inr applied)
    with b1 vs have a: "applied \<longleftrightarrow> version \<in> set vs" and t: "same_tables w w1" by (auto simp: version_exists_def)
    show ?thesis
    proof (cases applied)
      case True
      with r b Inr Some have "e = None" "w' = w1" by (auto simp: apply_one_def run_simps failed_def)
      with a True t vs Some show ?thesis
        by (auto simp: one_done_def same_tables_def intro!: exI [of _ "[]"] migrated_none)
    next
      case False
      show ?thesis
      proof (cases "map_of fsys name")
        case None
        with r b Inr Some False t vs show ?thesis by (auto simp: apply_one_def run_simps failed_def intro: one_same)
      next
        case script: (Some script)
        with r b Inr Some False have "run (apply_script P name version script) w1 = (e, w')"
          by (simp add: apply_one_def run_simps failed_def)
        with apply_script_run [of w1 vs version name fsys script P e w'] a False t vs Some script
        have "one_done P fsys name w1 e w'" by (simp add: same_tables_def)
        with t show ?thesis by (simp add: one_done_def migrated_def same_tables_def)
      qed
    qed
  qed
qed

lemma apply_files_run:
  assumes "mg_versions w = Some vs" "run (apply_files P fsys names) w = (e, w')"
  shows "\<exists>ns. subseq ns names \<and> migrated P fsys ns w w'
    \<and> (e = None \<longrightarrow> (\<forall>n \<in> set names. \<exists>v xs. migrationVersion n = Some v \<and> mg_versions w' = Some xs \<and> v \<in> set xs))"
  using assms
proof (induction names arbitrary: w vs)
  case Nil
  then show ?case by (auto simp: run_simps intro!: exI [of _ "[]"] migrated_none)
next
  case (Cons name names)
  obtain e1 v where 1: "run (apply_one P fsys name) w = (e1, v)" by (cases "run (apply_one P fsys name) w")
  from apply_one_run [OF Cons.prems(1) 1] obtain ms where ms: "migrated P fsys ms w v" "subseq ms [name]"
    and rec: "e1 = None \<Longrightarrow> \<exists>n xs. migrationVersion name = Some n \<and> mg_versions v = Some xs \<and> n \<in> set xs"
    by (auto simp: one_done_def)
  from ms(1) obtain vs1 where v: "mg_versions v = Some vs1" by (auto simp: migrated_def)
  show ?case
  proof (cases e1)
    case (Some err)
    with 1 Cons.prems(2) have "w' = v" "e = Some err" by (auto simp: run_simps)
    with ms show ?thesis by (auto intro!: exI [of _ ms] elim: subseq_order.trans)
  next
    case None
    with 1 Cons.prems(2) have "run (apply_files P fsys names) v = (e, w')" by (simp add: run_simps)
    from Cons.IH [OF v this] obtain ns where ns: "subseq ns names" "migrated P fsys ns v w'"
      "e = None \<longrightarrow> (\<forall>n \<in> set names. \<exists>v xs. migrationVersion n = Some v \<and> mg_versions w' = Some xs \<and> v \<in> set xs)" by blast
    have "subseq (ms @ ns) (name # names)" using list_emb_append_mono [OF ms(2) ns(1)] by simp
    moreover have "\<exists>n xs. migrationVersion name = Some n \<and> mg_versions w' = Some xs \<and> n \<in> set xs"
      using rec [OF None] ns(2) by (auto simp: migrated_def)
    ultimately show ?thesis using migrated_trans [OF ms(1) ns(2)] ns(3) by (intro exI [of _ "ms @ ns"]) auto
  qed
qed

end
