(* ===== verification/Migrate_Props.thy ===== *)
theory Migrate_Props
imports Migrate
begin

section \<open>Properties of the migrator\<close>

text \<open>
  Whatever statement fails, the version table says exactly which scripts have been run, and a
  successful run leaves nothing for the next one to do.
\<close>

lemma Apply_run:
  assumes "run (Apply P fsys) w = (e, w')"
  shows "same_tables w w' \<and> e \<noteq> None
    \<or> (\<exists>v ns. mg_schema v = mg_schema w \<and> mg_versions v = Some (case mg_versions w of None \<Rightarrow> [] | Some vs \<Rightarrow> vs)
         \<and> subseq ns (migration_files fsys) \<and> migrated P fsys ns v w'
         \<and> (e = None \<longrightarrow> (\<forall>n \<in> set (migration_files fsys). \<exists>x xs. migrationVersion n = Some x \<and> mg_versions w' = Some xs \<and> x \<in> set xs)))"
proof -
  obtain a x0 where a: "mp_acquire P (mg_ext w) = (a, x0)" by (cases "mp_acquire P (mg_ext w)")
  let ?w0 = "w\<lparr>mg_ext := x0\<rparr>"
  obtain l w1 where l: "mig_step P (set_lock True) ?w0 = (l, w1)" by (cases "mig_step P (set_lock True) ?w0")
  from l have t1: "same_tables w w1"
    by (cases rule: mig_step_cases) (auto simp: set_lock_def same_tables_def)
  obtain c w2 where c: "mig_step P create_versions w1 = (c, w2)" by (cases "mig_step P create_versions w1")
  from c have c2: "mg_schema w2 = mg_schema w1 \<and> (mg_versions w2 = mg_versions w1 \<or> mg_versions w2 = Some [] \<and> mg_versions w1 = None)
      \<and> (\<forall>u. c = Inr u \<longrightarrow> mg_versions w2 = Some (case mg_versions w1 of None \<Rightarrow> [] | Some vs \<Rightarrow> vs))"
    by (cases rule: mig_step_cases) (auto simp: create_versions_def split: if_splits option.splits)
  have unlock: "same_tables v v'" if "mig_step P (set_lock False) v = (r, v')" for v v' r
    using that by (cases rule: mig_step_cases) (auto simp: set_lock_def same_tables_def)
  have body: ?thesis if "a = None" "l = Inr ()"
  proof (cases c)
    case (Inl err)
    obtain r w3 where u: "mig_step P (set_lock False) w2 = (r, w3)" by (cases "mig_step P (set_lock False) w2")
    from assms a l c that Inl u have e: "e = Some (WrapPre ''ensure schema_migrations'' err)" "w' = w3"
      by (simp_all add: Apply_def run_simps failed_def)
    from unlock [OF u] c2 t1 have t: "mg_schema w' = mg_schema w"
      "mg_versions w' = mg_versions w \<or> mg_versions w' = Some [] \<and> mg_versions w = None"
      by (auto simp: e(2) same_tables_def)
    show ?thesis
    proof (cases "mg_versions w' = mg_versions w")
      case True
      with t e(1) show ?thesis by (simp add: same_tables_def)
    next
      case False
      with t e(1) show ?thesis
        by (intro disjI2 exI [of _ "w'"] exI [of _ "[]"]) (auto simp: migrated_def)
    qed
  next
    case (Inr u0)
    obtain e1 w3 where f: "run (apply_files P fsys (migration_files fsys)) w2 = (e1, w3)"
      by (cases "run (apply_files P fsys (migration_files fsys)) w2")
    obtain r w4 where u: "mig_step P (set_lock False) w3 = (r, w4)" by (cases "mig_step P (set_lock False) w3")
    from assms a l c that Inr f u have e: "e = e1" "w' = w4" by (simp_all add: Apply_def run_simps failed_def)
    from c2 Inr t1 have v: "mg_versions w2 = Some (case mg_versions w of None \<Rightarrow> [] | Some vs \<Rightarrow> vs)" "mg_schema w2 = mg_schema w"
      by (auto simp: same_tables_def)
    from apply_files_run [OF v(1) f] unlock [OF u] e v show ?thesis
      by (intro disjI2 exI [of _ w2]) (fastforce simp: migrated_def same_tables_def)
  qed
  show ?thesis
  proof (cases a)
    case (Some err)
    with assms a show ?thesis by (auto simp: Apply_def run_simps same_tables_def)
  next
    case None
    with body assms a l t1 show ?thesis
      by (cases l) (auto simp: Apply_def run_simps failed_def)
  qed
qed

text \<open>C11: Whatever statement fails, and whether or not a lost answer hides a commit, a run of the migrator applies and records the same files: the new versions are recorded in the order of the file names, each once, and the schema is the old one after exactly their scripts, in that order. When the run reports no error, the version of every migration file is recorded.\<close>

theorem migrate_atomic:
  assumes "run (Apply P fsys) w = (e, w')"
  shows "(\<exists>ns. subseq ns (migration_files fsys) \<and> distinct (map migrationVersion ns)
      \<and> run_scripts P fsys ns (mg_schema w) = Some (mg_schema w')
      \<and> (case mg_versions w' of None \<Rightarrow> mg_versions w = None \<and> ns = []
         | Some vs' \<Rightarrow> vs' = (case mg_versions w of None \<Rightarrow> [] | Some vs \<Rightarrow> vs) @ map (the \<circ> migrationVersion) ns))
    \<and> (e = None \<longrightarrow> (\<forall>n \<in> set (migration_files fsys). \<exists>x vs'. migrationVersion n = Some x \<and> mg_versions w' = Some vs' \<and> x \<in> set vs'))"
  using Apply_run [OF assms]
proof
  assume "same_tables w w' \<and> e \<noteq> None"
  then show ?thesis by (auto simp: same_tables_def split: option.split intro!: exI [of _ "[]"])
next
  assume "\<exists>v ns. mg_schema v = mg_schema w \<and> mg_versions v = Some (case mg_versions w of None \<Rightarrow> [] | Some vs \<Rightarrow> vs)
         \<and> subseq ns (migration_files fsys) \<and> migrated P fsys ns v w'
         \<and> (e = None \<longrightarrow> (\<forall>n \<in> set (migration_files fsys). \<exists>x xs. migrationVersion n = Some x \<and> mg_versions w' = Some xs \<and> x \<in> set xs))"
  then obtain v ns where v: "mg_schema v = mg_schema w" "mg_versions v = Some (case mg_versions w of None \<Rightarrow> [] | Some vs \<Rightarrow> vs)"
    and ns: "subseq ns (migration_files fsys)" "migrated P fsys ns v w'"
    and e: "e = None \<longrightarrow> (\<forall>n \<in> set (migration_files fsys). \<exists>x xs. migrationVersion n = Some x \<and> mg_versions w' = Some xs \<and> x \<in> set xs)"
    by blast
  from ns(2) v have "distinct (map migrationVersion ns)" "run_scripts P fsys ns (mg_schema w) = Some (mg_schema w')"
    "mg_versions w' = Some ((case mg_versions w of None \<Rightarrow> [] | Some vs \<Rightarrow> vs) @ map (the \<circ> migrationVersion) ns)"
    by (auto simp: migrated_def)
  with ns(1) e show ?thesis by (intro conjI exI [of _ ns]) simp_all
qed

text \<open>The examples' connection: a script of fates, and a schema that lists the texts that were run.\<close>

definition demo_mig :: "(mig_fate list, string list) mig_platform" where
  "demo_mig = \<lparr>mp_acquire = (\<lambda>x. (None, x)), mp_stmt = (\<lambda>x. case x of [] \<Rightarrow> (Done, []) | f # fs \<Rightarrow> (f, fs)),
     mp_script = (\<lambda>t s. if t = ''bad'' then Inl (PgError ''42601'') else Inr (s @ [t]))\<rparr>"

definition demo_files :: files where
  "demo_files = [(''0002_b.up.sql'', ''b''), (''0001_a.down.sql'', ''x''), (''0001_a.up.sql'', ''a'')]"

definition demo_mig_world :: "mig_fate list \<Rightarrow> (mig_fate list, string list) mig_world" where
  "demo_mig_world fs = \<lparr>mg_ext = fs, mg_schema = [], mg_versions = None, mg_locked = False\<rparr>"

theorem migrate_atomic_witness:
  "\<exists>e w'. run (Apply demo_mig demo_files) (demo_mig_world (replicate 6 Done @ [NoAnswer ''eof''])) = (Some e, w')
     \<and> mg_schema w' = [''a''] \<and> mg_versions w' = Some [1]"
proof -
  let ?w = "demo_mig_world (replicate 6 Done @ [NoAnswer ''eof''])"
  have "(case run (Apply demo_mig demo_files) ?w of (e, w') \<Rightarrow> (e \<noteq> None, mg_schema w')) = (True, [''a''])" by code_simp
  then obtain e w' where r: "run (Apply demo_mig demo_files) ?w = (Some e, w')" "mg_schema w' = [''a'']"
    by (cases "run (Apply demo_mig demo_files) ?w") auto
  have files: "migration_files demo_files = [''0001_a.up.sql'', ''0002_b.up.sql'']"
    "migrationVersion ''0001_a.up.sql'' = Some 1" by code_simp+
  have scripts: "run_scripts demo_mig demo_files [] [] = Some []"
    "run_scripts demo_mig demo_files [''0002_b.up.sql''] [] = Some [''b'']"
    "run_scripts demo_mig demo_files [''0001_a.up.sql'', ''0002_b.up.sql''] [] = Some [''a'', ''b'']" by code_simp+
  obtain ns where ns: "subseq ns [''0001_a.up.sql'', ''0002_b.up.sql'']" "run_scripts demo_mig demo_files ns [] = Some [''a'']"
    "(case mg_versions w' of None \<Rightarrow> ns = [] | Some vs' \<Rightarrow> vs' = map (the \<circ> migrationVersion) ns)"
    using migrate_atomic [OF r(1)] r(2) files(1) by (auto simp: demo_mig_world_def split: option.splits)
  from ns(1) have "ns \<in> set (subseqs [''0001_a.up.sql'', ''0002_b.up.sql''])" by (simp del: subseqs.simps)
  then have "ns = [] \<or> ns = [''0001_a.up.sql''] \<or> ns = [''0002_b.up.sql''] \<or> ns = [''0001_a.up.sql'', ''0002_b.up.sql'']"
    by (auto simp: Let_def)
  with ns(2,3) scripts files(2) r show ?thesis by (auto split: option.splits)
qed

text \<open>C32: The migrator is idempotent: a run that follows one without an error changes neither the schema nor the recorded versions, whether it succeeds or fails.\<close>

theorem migrate_idempotent:
  assumes "run (Apply P fsys) w = (None, w1)" "run (Apply P fsys) w1 = (e, w2)"
  shows "mg_schema w2 = mg_schema w1 \<and> mg_versions w2 = mg_versions w1"
proof -
  obtain vs where vs: "mg_versions w1 = Some vs" using Apply_run [OF assms(1)] by (auto simp: migrated_def)
  have all: "\<exists>x. migrationVersion n = Some x \<and> x \<in> set vs" if "n \<in> set (migration_files fsys)" for n
    using Apply_run [OF assms(1)] that vs by auto
  from Apply_run [OF assms(2)] show ?thesis
  proof
    assume "same_tables w1 w2 \<and> e \<noteq> None"
    then show ?thesis by (simp add: same_tables_def)
  next
    assume "\<exists>v ns. mg_schema v = mg_schema w1 \<and> mg_versions v = Some (case mg_versions w1 of None \<Rightarrow> [] | Some vs \<Rightarrow> vs)
         \<and> subseq ns (migration_files fsys) \<and> migrated P fsys ns v w2
         \<and> (e = None \<longrightarrow> (\<forall>n \<in> set (migration_files fsys). \<exists>x xs. migrationVersion n = Some x \<and> mg_versions w2 = Some xs \<and> x \<in> set xs))"
    then obtain v ns where v: "mg_schema v = mg_schema w1" "mg_versions v = Some vs"
      and ns: "subseq ns (migration_files fsys)" "migrated P fsys ns v w2" using vs by auto
    have "ns = []"
    proof (rule ccontr)
      assume "ns \<noteq> []"
      then have h: "hd ns \<in> set ns" by simp
      from ns(2) v(2) have fresh: "\<forall>n \<in> set ns. \<exists>v. migrationVersion n = Some v \<and> v \<notin> set vs"
        unfolding migrated_def by (metis option.inject)
      have "hd ns \<in> set (migration_files fsys)" using list_emb_set [OF ns(1) h] by auto
      from all [OF this] bspec [OF fresh h] show False by auto
    qed
    with ns(2) v vs show ?thesis by (simp add: migrated_def)
  qed
qed

theorem migrate_idempotent_witness:
  "\<exists>w1 e w2. run (Apply demo_mig demo_files) (demo_mig_world []) = (None, w1) \<and> mg_schema w1 = [''a'', ''b'']
     \<and> run (Apply demo_mig demo_files) w1 = (e, w2) \<and> mg_schema w2 = [''a'', ''b'']"
proof -
  have "(case run (Apply demo_mig demo_files) (demo_mig_world []) of (e, w') \<Rightarrow> (e, mg_schema w')) = (None, [''a'', ''b''])" by code_simp
  then obtain w1 where r: "run (Apply demo_mig demo_files) (demo_mig_world []) = (None, w1)" "mg_schema w1 = [''a'', ''b'']"
    by (cases "run (Apply demo_mig demo_files) (demo_mig_world [])") auto
  obtain e w2 where s: "run (Apply demo_mig demo_files) w1 = (e, w2)" by (cases "run (Apply demo_mig demo_files) w1")
  from migrate_idempotent [OF r(1) s] r s show ?thesis by auto
qed

end
