(* ===== verification/Metrics_Registry.thy ===== *)
theory Metrics_Registry
imports Platform
begin

section \<open>The metrics\<close>

text \<open>
  \<open>internal/metrics/metrics.go\<close>: the collectors that \<open>init\<close> creates and registers. What
  they count is in the \<open>counters\<close> of the world (theory Platform). The Prometheus registry is the
  list of the names it holds; \<open>MustRegister\<close> panics, here \<open>None\<close>, on the first name that is
  taken, as the library documents. Buckets are \<open>DefBuckets\<close> of the library.
\<close>

record collector =
  c_Name :: string
  c_Help :: string
  c_labels :: "string list"
  c_histogram :: bool

definition counter_vec :: "string \<Rightarrow> string \<Rightarrow> collector" where
  "counter_vec name help = \<lparr>c_Name = name, c_Help = help, c_labels = [''layer''], c_histogram = False\<rparr>"

definition counter :: "string \<Rightarrow> string \<Rightarrow> collector" where
  "counter name help = \<lparr>c_Name = name, c_Help = help, c_labels = [], c_histogram = False\<rparr>"

definition histogram :: "string \<Rightarrow> string \<Rightarrow> collector" where
  "histogram name help = \<lparr>c_Name = name, c_Help = help, c_labels = [], c_histogram = True\<rparr>"

fun collector_of :: "metric \<Rightarrow> collector" where
  "collector_of CacheHits = counter_vec ''url_cache_hits_total'' ''Cache hits, labelled by cache layer.''"
| "collector_of CacheMisses = counter_vec ''url_cache_misses_total'' ''Cache misses, labelled by cache layer.''"
| "collector_of CacheFailOpen =
     counter_vec ''url_cache_fail_open_total'' ''Cache-like layer fell back to the source of truth.''"
| "collector_of RateLimitFailOpen =
     counter ''url_ratelimit_fail_open_total'' ''Rate limiter allowed a request because Redis was unreachable.''"
| "collector_of EventsPublished =
     counter ''url_events_published_total'' ''Analytics events appended to the Redis stream.''"
| "collector_of EventsDropped =
     counter ''url_events_dropped_total'' ''Analytics events dropped because the outgoing buffer was full.''"
| "collector_of EventsFailed =
     counter ''url_events_failed_total'' ''Analytics events that could not be appended to Redis.''"
| "collector_of AnalyticsProcessed =
     counter ''url_analytics_processed_total'' ''Analytics events aggregated into PostgreSQL by the worker.''"
| "collector_of AnalyticsDeduped =
     counter ''url_analytics_deduped_total'' ''Analytics events skipped as duplicates.''"
| "collector_of HTTPRequests =
     histogram ''url_http_request_duration_seconds'' ''HTTP request duration in seconds (measured at the router).''"
| "collector_of IdempotencyReplays =
     counter ''url_idempotency_replays_total'' ''Create requests answered with a previously stored short code.''"
| "collector_of IdempotencySkipped =
     counter ''url_idempotency_skipped_total''
       ''Create requests that bypassed the idempotency store because it was unreachable.''"

definition all_metrics :: "metric list" where
  "all_metrics =
     [CacheHits, CacheMisses, CacheFailOpen, RateLimitFailOpen, EventsPublished, EventsDropped, EventsFailed,
      AnalyticsProcessed, AnalyticsDeduped, HTTPRequests, IdempotencyReplays, IdempotencySkipped]"

fun MustRegister :: "string list \<Rightarrow> collector list \<Rightarrow> string list option" where
  "MustRegister reg [] = Some reg"
| "MustRegister reg (c # cs) = (if c_Name c \<in> set reg then None else MustRegister (reg @ [c_Name c]) cs)"

definition metrics_init :: "string list \<Rightarrow> string list option" where
  "metrics_init reg = MustRegister reg (map collector_of all_metrics)"

subsection \<open>Reading the counters\<close>

text \<open>
  The readers the repository's tests use. A counter vector has one child for each label value;
  all code of the repository uses the label \<open>urllookup\<close>, and a child that nothing has
  incremented reads zero. Counts are whole numbers here, \<open>float64\<close> in the library.
\<close>

definition cacheCounterValue :: "metric \<Rightarrow> string \<Rightarrow> 'x world \<Rightarrow> nat" where
  "cacheCounterValue m label w = (if label = ''urllookup'' then counters w m else 0)"

definition CacheHitCount :: "string \<Rightarrow> 'x world \<Rightarrow> nat" where
  "CacheHitCount layer w = cacheCounterValue CacheHits layer w"

definition CacheMissCount :: "string \<Rightarrow> 'x world \<Rightarrow> nat" where
  "CacheMissCount layer w = cacheCounterValue CacheMisses layer w"

definition CacheFailOpenCount :: "string \<Rightarrow> 'x world \<Rightarrow> nat" where
  "CacheFailOpenCount layer w = cacheCounterValue CacheFailOpen layer w"

definition CounterValue :: "metric \<Rightarrow> 'x world \<Rightarrow> nat" where
  "CounterValue m w = counters w m"

lemmas reader_defs = cacheCounterValue_def CacheHitCount_def CacheMissCount_def CacheFailOpenCount_def CounterValue_def

lemma MustRegister_Some:
  "MustRegister reg cs \<noteq> None \<longleftrightarrow> distinct (map c_Name cs) \<and> c_Name ` set cs \<inter> set reg = {}"
  by (induction cs arbitrary: reg) auto

lemma metric_names: "distinct (map (c_Name \<circ> collector_of) all_metrics)"
  by code_simp

lemma all_metrics_complete: "m \<in> set all_metrics"
  by (cases m) (simp_all add: all_metrics_def)

text \<open>The process can start: in a registry without names of this program \<open>init\<close> does not panic.\<close>

lemma metrics_init_ok: "set reg \<inter> (c_Name \<circ> collector_of) ` set all_metrics = {} \<Longrightarrow> metrics_init reg \<noteq> None"
  using metric_names by (auto simp: metrics_init_def MustRegister_Some [unfolded not_None_eq] image_comp)

end
