(* ===== verification/Commands.thy ===== *)
theory Commands
imports Server Migrate_Props
begin

section \<open>How the processes end\<close>

text \<open>
  \<open>cmd/migrate/main.go\<close>, the ends of \<open>cmd/server/main.go\<close> and \<open>cmd/worker/main.go\<close>, and
  the level of the logger that the two build. Of the logging, what the server reports when it
  ends is modelled.
\<close>

subsection \<open>The migration command\<close>

text \<open>The exit status of the command.\<close>

definition migrate_main ::
  "('x, 's) mig_platform \<Rightarrow> (string \<Rightarrow> dur option) \<Rightarrow> ('c, 'p) pgx \<Rightarrow> env \<Rightarrow> files \<Rightarrow> (('x, 's) mig_world, nat) prog" where
  "migrate_main P ParseDuration X env fsys =
     (case Load ParseDuration env of
        Inl err \<Rightarrow> Ret 1
      | Inr cfg \<Rightarrow>
          (case NewPool X (DatabaseURL cfg) (sint (PGMaxConns cfg)) of
             Inl err \<Rightarrow> Ret 1
           | Inr pool \<Rightarrow>
               bindp (Apply P fsys) (\<lambda>e.
                 case e of
                   Some err \<Rightarrow> Ret 1
                 | None \<Rightarrow> Ret 0)))"

subsection \<open>The logger\<close>

datatype log_level = LevelDebug | LevelInfo | LevelWarn | LevelError

definition newLogger :: "env \<Rightarrow> log_level" where
  "newLogger env =
     (if env ''LOG_LEVEL'' = ''debug'' then LevelDebug
      else if env ''LOG_LEVEL'' = ''warn'' \<or> env ''LOG_LEVEL'' = ''warning'' then LevelWarn
      else if env ''LOG_LEVEL'' = ''error'' then LevelError
      else LevelInfo)"

definition worker_newLogger :: "env \<Rightarrow> log_level" where
  "worker_newLogger env =
     (if env ''LOG_LEVEL'' = ''debug'' then LevelDebug
      else if env ''LOG_LEVEL'' = ''warn'' \<or> env ''LOG_LEVEL'' = ''warning'' then LevelWarn
      else if env ''LOG_LEVEL'' = ''error'' then LevelError
      else LevelInfo)"

lemma same_logger: "worker_newLogger = newLogger"
  by (simp add: fun_eq_iff worker_newLogger_def newLogger_def)

subsection \<open>The server's end\<close>

record http_server =
  srv_Addr :: string
  srv_ReadTimeout :: dur
  srv_WriteTimeout :: dur
  srv_IdleTimeout :: dur

definition server_http :: "config \<Rightarrow> http_server" where
  "server_http cfg = \<lparr>srv_Addr = '':'' @ AppPort cfg, srv_ReadTimeout = ReadTimeout cfg,
     srv_WriteTimeout = WriteTimeout cfg, srv_IdleTimeout = IdleTimeout cfg\<rparr>"

text \<open>
  What the \<open>select\<close> at the end of \<open>main\<close> waits for: a signal, with what \<open>Shutdown\<close> then answers
  within the configured time, or the listener's error; \<open>ListenAndServe\<close> always returns one,
  \<open>http.ErrServerClosed\<close> among them.
\<close>

datatype listen_error = ErrServerClosed | ListenError goerr
datatype server_event = Signalled "goerr option" | Listener listen_error
datatype log_entry = LogInfo string | LogError string goerr

definition server_select :: "server_event \<Rightarrow> log_entry list" where
  "server_select ev =
     (case ev of
        Signalled e \<Rightarrow> [LogInfo ''shutdown signal received'']
          @ (case e of Some err \<Rightarrow> [LogError ''graceful shutdown failed'' err] | None \<Rightarrow> [])
          @ [LogInfo ''server stopped'']
      | Listener ErrServerClosed \<Rightarrow> []
      | Listener (ListenError err) \<Rightarrow> [LogError ''server error'' err])"

text \<open>The process from its start: its exit status and what it reports at its end.\<close>

definition server_process ::
  "'x platform \<Rightarrow> golib \<Rightarrow> 'x world chi \<Rightarrow> (string \<Rightarrow> dur option) \<Rightarrow> ('c, 'p) pgx \<Rightarrow> env \<Rightarrow> goerr option \<Rightarrow> string
     \<Rightarrow> server_event \<Rightarrow> nat \<times> log_entry list" where
  "server_process P L chi ParseDuration X env migErr hostname ev =
     (case server_main P L chi ParseDuration X env migErr hostname of
        Inl n \<Rightarrow> (n, [])
      | Inr _ \<Rightarrow> (0, server_select ev))"

text \<open>The worker; \<open>None\<close> while its loop goes on. \<open>Run\<close> returns no error, whatever ends it.\<close>

definition worker_process ::
  "'x platform \<Rightarrow> (string \<Rightarrow> dur option) \<Rightarrow> env \<Rightarrow> goerr option \<Rightarrow> goerr option \<Rightarrow> nat \<Rightarrow> ('x world, nat option) prog" where
  "worker_process P ParseDuration env ping dbErr n =
     bindp (worker_main P ParseDuration env ping dbErr n) (\<lambda>r.
       case r of
         Inl status \<Rightarrow> Ret (Some status)
       | Inr ended \<Rightarrow> Ret (if ended then Some 0 else None))"

lemma server_main_status: "server_main P L chi parse X env migErr hostname = Inl n \<Longrightarrow> n = 1"
  by (auto simp: server_main_def split: sum.splits if_splits)

lemma worker_main_status: "run (worker_main P parse env ping dbErr n) w = (Inl k, w') \<Longrightarrow> k = 1"
  by (auto simp: worker_main_def Let_def run_simps split: sum.splits if_splits prod.splits option.splits)

lemma consumer_Run_cancelled: "p_ctx_err P x = (Some m, x') \<Longrightarrow>
    run (consumer_Run P c (Suc n)) (w\<lparr>ext := x\<rparr>) = (True, w\<lparr>ext := x'\<rparr>)"
  by (simp add: run_simps act_defs)

lemma migrate_main_zero:
  assumes "run (migrate_main P parse X env fsys) w = (0, w')"
  shows "run (Apply P fsys) w = (None, w')"
  using assms by (auto simp: migrate_main_def run_simps split: sum.splits prod.splits option.splits)

text \<open>Exit status 0 means that every migration file's version is recorded.\<close>

lemma migrate_main_success:
  assumes "run (migrate_main P parse X env fsys) w = (0, w')" "n \<in> set (migration_files fsys)"
  shows "\<exists>x vs. migrationVersion n = Some x \<and> mg_versions w' = Some vs \<and> x \<in> set vs"
  using Apply_run [OF migrate_main_zero [OF assms(1)]] assms(2) by auto

lemma logger_levels:
  "newLogger (\<lambda>_. ''debug'') = LevelDebug" "newLogger (\<lambda>_. ''warning'') = LevelWarn" "newLogger (\<lambda>_. '''') = LevelInfo"
  by (simp_all add: newLogger_def)

text \<open>The statuses: 1 when the set-up fails, 0 otherwise; a listener that cannot listen does not change that.\<close>

lemma exit_statuses:
  "fst (server_process P L chi parse X env migErr hostname ev) \<le> 1"
  "fst (server_process P L chi parse X env migErr hostname ev) = 0 \<longleftrightarrow>
     (\<exists>s h. server_main P L chi parse X env migErr hostname = Inr (s, h))"
  "run (worker_process P parse env ping dbErr n) w = (Some k, w') \<Longrightarrow> k \<le> 1"
  by (auto simp: server_process_def worker_process_def run_simps
      dest: server_main_status worker_main_status split: sum.splits prod.splits if_splits)

lemma listen_failure_status:
  "server_main P L chi parse X env migErr hostname = Inr (s, h) \<Longrightarrow>
     server_process P L chi parse X env migErr hostname (Listener (ListenError err)) = (0, [LogError ''server error'' err])"
  by (simp add: server_process_def server_select_def)

end
