(* ===== verification/Wait_Free.thy ===== *)
theory Wait_Free
imports Server_Props Handler_Props
begin

section \<open>Every request is answered in boundedly many steps\<close>

text \<open>
  A request needs at most a fixed number of actions of its own (SQL statements, Redis commands,
  readings of the clock, counter increments), whatever other programs do in between and
  whatever fails: no loop of the code waits for another request without a bound.
\<close>

primrec within :: "('w, 'a) prog \<Rightarrow> nat \<Rightarrow> bool" where
  "within (Ret a) = (\<lambda>n. True)"
| "within (Act f) = (\<lambda>n. 0 < n \<and> (\<forall>w. (\<lambda>(c, w'). c (n - 1)) (map_prod within id (f w))))"

lemma within_Act: "within (Act f) n \<longleftrightarrow> 0 < n \<and> (\<forall>w p w'. f w = (p, w') \<longrightarrow> within p (n - 1))"
  unfolding within.simps case_prod_beta fst_map_prod
  by (metis prod.collapse fst_conv)

declare within.simps(2) [simp del]

lemma within_mono: "within p m \<Longrightarrow> m \<le> n \<Longrightarrow> within p n"
proof (induction p arbitrary: m n)
  case (Act f)
  show ?case unfolding within_Act
  proof (intro conjI allI impI)
    show "0 < n" using Act.prems by (simp add: within_Act)
    fix w p w'
    assume f: "f w = (p, w')"
    then have r: "(p, w') \<in> range f" by (metis rangeI)
    have "within p (m - 1)" using Act.prems(1) f by (auto simp: within_Act)
    with Act.IH [OF r, of p "m - 1" "n - 1"] Act.prems(2) show "within p (n - 1)" by simp
  qed
qed simp

lemma within_use: "within m a \<Longrightarrow> a \<le> n \<Longrightarrow> (\<And>x. within (k x) (n - a)) \<Longrightarrow> within (bindp m k) n"
proof (induction m arbitrary: a n)
  case (Ret x)
  then have "within (k x) (n - a)" by blast
  then show ?case by (simp add: within_mono)
next
  case (Act f)
  show ?case unfolding bindp.simps within_Act
  proof (intro conjI allI impI)
    show "0 < n" using Act.prems by (simp add: within_Act)
    fix w p w'
    assume f: "(map_prod (\<lambda>p. bindp p k) id \<circ> f) w = (p, w')"
    obtain q v where q: "f w = (q, v)" by (cases "f w")
    then have r: "(q, v) \<in> range f" by (metis rangeI)
    have a: "within q (a - 1)" "0 < a" using Act.prems(1) q by (auto simp: within_Act)
    have "n - 1 - (a - 1) = n - a" using a(2) Act.prems(2) by simp
    with Act.IH [OF r, of q "a - 1" "n - 1"] a Act.prems(2,3) q f show "within p (n - 1)" by simp
  qed
qed

text \<open>Under any schedule that gives a program as many turns, it has returned.\<close>

lemma within_sched:
  assumes "i < length ps" "within (ps ! i) n" "n \<le> count_list turns i"
  shows "\<exists>a. snd (sched turns (w, ps)) ! i = Ret a"
  using assms
proof (induction turns arbitrary: n w ps)
  case Nil
  then show ?case by (cases "ps ! i") (simp_all add: within_Act)
next
  case (Cons j turns)
  show ?case
  proof (cases "j < length ps")
    case j: True
    show ?thesis
    proof (cases "ps ! j")
      case (Ret b)
      then have "within (ps ! i) (if j = i then 0 else n)" using Cons.prems(2) by auto
      moreover have "(if j = i then 0 else n) \<le> count_list turns i" using Cons.prems(3) by (auto split: if_splits)
      ultimately show ?thesis using Cons.IH [OF Cons.prems(1)] Ret j by simp
    next
      case (Act f)
      obtain p v where f: "f w = (p, v)" by (cases "f w")
      show ?thesis
      proof (cases "j = i")
        case True
        with Cons.prems(2) Act f have "0 < n" "within p (n - 1)" by (auto simp: within_Act)
        with Cons.IH [of "ps[i := p]" "n - 1" v] Cons.prems True Act f j show ?thesis by simp
      next
        case False
        with Cons.IH [of "ps[j := p]" n v] Cons.prems Act f j show ?thesis by simp
      qed
    qed
  next
    case False
    with Cons show ?thesis by simp
  qed
qed

subsection \<open>The actions of each method\<close>

lemma within_act1:
  "within (SQL P st) (Suc 0)" "within (ext_act f) (Suc 0)" "within (Inc m) (Suc 0)"
  "within (time_Now P) (Suc 0)" "within (time_Sleep P d) (Suc 0)" "within (ctx_Err P) (Suc 0)"
  by (auto simp: SQL_def ext_act_def Inc_def act_defs act_def within_Act split: prod.splits)


lemma within_sql: "1 \<le> n \<Longrightarrow> (\<And>x. within (k x) (n - 1)) \<Longrightarrow> within (bindp (SQL P st) k) n"
  by (rule within_use [OF within_act1(1)]) simp_all

lemma within_ext: "1 \<le> n \<Longrightarrow> (\<And>x. within (k x) (n - 1)) \<Longrightarrow> within (bindp (ext_act f) k) n"
  by (rule within_use [OF within_act1(2)]) simp_all

lemma within_inc: "1 \<le> n \<Longrightarrow> (\<And>x. within (k x) (n - 1)) \<Longrightarrow> within (bindp (Inc m) k) n"
  by (rule within_use [OF within_act1(3)]) simp_all

lemma within_clock:
  "1 \<le> n \<Longrightarrow> (\<And>x. within (k1 x) (n - 1)) \<Longrightarrow> within (bindp (time_Now P) k1) n"
  "1 \<le> n \<Longrightarrow> (\<And>x. within (k2 x) (n - 1)) \<Longrightarrow> within (bindp (time_Sleep P d) k2) n"
  "1 \<le> n \<Longrightarrow> (\<And>x. within (k3 x) (n - 1)) \<Longrightarrow> within (bindp (ctx_Err P) k3) n"
  by (rule within_use [OF within_act1(4)] within_use [OF within_act1(5)] within_use [OF within_act1(6)]; simp)+

lemma within_end: "1 \<le> n \<Longrightarrow> within (ext_act f) n"
  by (rule within_mono [OF within_act1(2)]) simp

lemmas within_rules = within_sql within_ext within_inc within_clock within_end

lemma within_repo:
  "within (repo_Create P l e) 1" "within (repo_CreateWithCode P c l e) 1" "within (repo_SetCode P i c) 1"
  "within (repo_GetByCode P c) 1" "within (repo_DeleteByCode P c) 1" "within (repo_StatsByURLID P i) 3"
  unfolding repo_defs by (auto intro!: within_rules split: sum.split)

lemma within_cache:
  "within (cache_Get P L C c) 2" "within (cache_Set P L C c u) 2" "within (cache_Delete P C c) 1"
  unfolding cache_Get_def cache_Set_def cache_Delete_def cache_put_def Let_def
  by (auto intro!: within_rules split: sum.split option.split)

lemma within_idem:
  "within (idem_Get P st k) 1" "within (idem_Set P st k v) 1" "within (idem_Claim P st k) 1" "within (idem_Release P st k) 1"
  unfolding idem_defs by (auto intro!: within_rules split: sum.split)

lemma within_service:
  assumes "store s = URLRepository P"
  shows "within (Resolve P L s c) 8" "within (service_Delete P s c) 2" "within (GetStats P L s c) 11"
proof -
  have "within (resolve_store P L s c) 4"
    unfolding resolve_store_def assms URLRepository_sel
    by (rule within_use [OF within_repo(4)])
      (auto intro!: within_clock within_use [OF within_cache(2)] split: sum.split option.split)
  note st = within_mono [OF this]
  show r: "within (Resolve P L s c) 8"
    unfolding Resolve_def
    by (auto intro!: st within_use [OF within_cache(1)] within_use [OF within_cache(3)] within_clock within_inc split: sum.split option.split)
  show "within (service_Delete P s c) 2"
    unfolding service_Delete_def assms URLRepository_sel
    by (rule within_use [OF within_repo(5)]) (auto intro!: within_use [OF within_cache(3)] split: sum.split option.split)
  show "within (GetStats P L s c) 11"
    unfolding GetStats_def tryp_def assms URLRepository_sel
    by (rule within_use [OF r]) (auto intro: within_mono [OF within_repo(6)] split: sum.split)
qed

lemma within_createOne:
  assumes "store s = URLRepository P"
  shows "within (createOne L s inp l e) 3"
proof -
  have code: "within (if in_CustomCode inp \<noteq> '''' then
          (case validateCustomCode (in_CustomCode inp) of
             Some err \<Rightarrow> Ret (Inl err)
           | None \<Rightarrow> bindp (repo_CreateWithCode P (in_CustomCode inp) l e) (\<lambda>r.
                 case r of
                   Inl err \<Rightarrow>
                     if errors_Is err RepoErrConflict
                     then Ret (Inl (WrapSuf (Sentinel ErrCodeTaken) (go_quote (in_CustomCode inp))))
                     else Ret (Inl err)
                 | Inr _ \<Rightarrow> Ret (Inr (in_CustomCode inp))))
        else
          tryp (repo_Create P l e) (\<lambda>i.
            case EncodeBase62 (word_of_int i) of
              None \<Rightarrow> Ret (Inl (Panicked ''index out of range''))
            | Some code \<Rightarrow>
                bindp (repo_SetCode P i code) (\<lambda>r.
                  case r of
                    Inl err \<Rightarrow>
                      if errors_Is err RepoErrConflict
                      then Ret (Inl (WrapPre ''codegen collision (database state inconsistent)'' err))
                      else Ret (Inl err)
                  | Inr _ \<Rightarrow> Ret (Inr code)))) 2"
    unfolding tryp_def
    by (auto intro!: within_use [OF within_repo(1)] within_use [OF within_repo(2)] within_use [OF within_repo(3)]
        split: sum.split option.split)
  show ?thesis unfolding createOne_def assms URLRepository_sel
    by (subst tryp_def, rule within_use [OF code])
      (auto simp: tryp_def intro!: within_use [OF within_repo(4)] split: sum.split)
qed

lemma within_replay: "store s = URLRepository P \<Longrightarrow> within (replay L s c) 1"
  unfolding replay_def by (auto intro!: within_use [OF within_repo(4)] split: sum.split)

lemma within_wait: "store s = URLRepository P \<Longrightarrow> within (wait_for_winner P L s st key n) (3 * n + 2)"
proof (induction n)
  case (Suc n)
  have IH: "within (wait_for_winner P L s st key n) (Suc (Suc (3 * n)))" using Suc by simp
  have hit: "within (bindp (Inc IdempotencyReplays) (\<lambda>_. replay L s code)) (Suc (Suc (3 * n)))" for code
    by (rule within_inc) (auto intro: within_mono [OF within_replay [OF Suc.prems]])
  show ?case unfolding wait_for_winner.simps
    by (auto intro!: within_clock within_use [OF within_idem(1)] hit IH split: option.split sum.split)
qed simp

lemma within_create:
  assumes "store s = URLRepository P"
  shows "within (service_Create P L s inp) 20"
proof -
  note one = within_mono [OF within_createOne [OF assms]]
  have wait: "within (wait_for_winner P L s st k idemWaitPolls) 17" for st k
    using within_wait [OF assms, of L st k idemWaitPolls] by (simp add: idemWaitPolls_def)
  have won: "within (tryp (createOne L s i l e) (\<lambda>res.
      bindp (idem_Set P st k (Code (res_URL res))) (\<lambda>_. bindp (idem_Release P st k) (\<lambda>_. Ret (Inr res))))) 17" for i l e st k
    unfolding tryp_def
    by (rule within_use [OF within_createOne [OF assms]])
      (auto intro!: within_use [OF within_idem(2)] within_use [OF within_idem(4)] split: sum.split)
  have idem: "within (createIdempotent P L s i l e) 19" for i l e
    unfolding createIdempotent_def Let_def
    by (auto intro!: one won wait within_use [OF within_idem(1)] within_use [OF within_idem(3)] within_inc
        within_mono [OF within_replay [OF assms]] split: option.split sum.split bool.split)
  have plain: "within (tryp (createOne L s i l e) (\<lambda>res. Ret (Inr (f res)))) 19" for i l e f
    unfolding tryp_def by (rule within_use [OF within_createOne [OF assms]]) (auto split: sum.split)
  have expiry: "within (if in_ExpiresIn inp \<noteq> '''' then tryp (parseExpiry P (in_ExpiresIn inp)) (\<lambda>t. Ret (Inr (Some t))) else Ret (Inr None)) 1"
    unfolding tryp_def parseExpiry_def by (auto simp: bindp_assoc intro!: within_clock split: sum.split)
  have rest: "within (tryp (if in_ExpiresIn inp \<noteq> '''' then tryp (parseExpiry P (in_ExpiresIn inp)) (\<lambda>t. Ret (Inr (Some t)))
      else Ret (Inr None)) h) 20" if "\<And>e. within (h e) 19" for h
    by (subst tryp_def, rule within_use [OF expiry]) (auto split: sum.split intro: that)
  show ?thesis unfolding service_Create_def
    by (cases "validateLongURL L (blockDomain s) (in_URL inp)") (simp, simp only: sum.case, rule rest, auto simp: Let_def idem plain)
qed

subsection \<open>The handlers and the router\<close>

lemma within_respond [simp]: "within (respond status hs b) n" "within (writeJSON hs status j) n"
  "within (writeError hs status c m rid) n" "within (http_Redirect hs q t) n" "within (writeCreateError q hs err) n"
  "within (writeResolveError q hs err) n"
  unfolding writeCreateError_def writeResolveError_def writeError_def writeJSON_def http_Redirect_def respond_def Let_def
  by (simp_all split: prod.split)

lemma within_handlers:
  assumes "store (svc h) = URLRepository P"
  shows "within (handle_Create P L h q hs) 20" "within (handle_Get P L h q hs) 8" "within (handle_Delete P L h q hs) 10"
    "within (handle_Stats P L h q hs) 11" "within (handle_Redirect P L h q hs) 11" "within (Ready P q hs) 1"
proof -
  note s = within_service [OF assms]
  have push: "within (Push e) 2" for e
  proof -
    have "within (act (push_step e)) 1" by (simp add: act_def within_Act split: prod.splits)
    then show ?thesis unfolding Push_def by (rule within_use) (auto intro: within_inc)
  qed
  show "within (handle_Create P L h q hs) 20" unfolding handle_Create_def
    by (auto intro!: within_use [OF within_create [OF assms]] split: sum.split decode_error.split goerr.split)
  show "within (handle_Get P L h q hs) 8" unfolding handle_Get_def
    by (auto intro!: within_use [OF s(1)] split: sum.split)
  show "within (handle_Delete P L h q hs) 10" unfolding handle_Delete_def
    by (auto intro!: within_use [OF s(1)] within_use [OF s(2)] split: sum.split option.split)
  show "within (handle_Stats P L h q hs) 11" unfolding handle_Stats_def
    by (auto intro!: within_use [OF s(3)] split: sum.split)
  show "within (handle_Redirect P L h q hs) 11" unfolding handle_Redirect_def
    by (auto intro!: within_use [OF s(1)] within_clock within_use [OF push] split: sum.split option.split)
  show "within (Ready P q hs) 1" unfolding Ready_def
    by (auto intro!: within_ext split: option.split)
qed

lemma within_limited:
  assumes "\<And>q hs. within (h q hs) n"
  shows "within (rate_limit P rl h q hs) (5 + n)"
proof -
  have a: "within (allow P rl r) 4" for r
    unfolding allow_def Let_def tryp_def by (auto simp: bindp_assoc intro!: within_rules split: sum.split)
  show ?thesis unfolding rate_limit_def
    by (rule within_use [OF a]) (auto intro!: within_inc assms within_mono [OF assms] split: sum.split)
qed

lemma within_plain: "plain_handler h \<Longrightarrow> within (h q hs) n"
  unfolding plain_handler_def by (metis within.simps(1))

lemma within_routes:
  assumes "store s = URLRepository P" "plain_handler (prom_handler chi)" "row \<in> set (routes P L chi s o1)"
  shows "within (snd row q hs) 25"
proof -
  let ?h = "\<lparr>svc = s, recd = o_recorder o1\<rparr>"
  have h: "store (svc ?h) = URLRepository P" using assms(1) by simp
  note w = within_handlers [OF h]
  from assms(3) consider "snd row = Health" | "snd row = Ready P" | "snd row = prom_handler chi"
    | "snd row = (case o_rateLimiter o1 of Some rl \<Rightarrow> rate_limit P rl (handle_Create P L ?h) | None \<Rightarrow> handle_Create P L ?h)"
    | "snd row = handle_Get P L ?h" | "snd row = handle_Delete P L ?h" | "snd row = handle_Stats P L ?h"
    | "snd row = handle_Redirect P L ?h"
    unfolding routes_def Let_def by (auto split: if_splits)
  then show ?thesis
  proof cases
    case 4
    with within_limited [OF w(1)] within_mono [OF w(1), of 25] show ?thesis by (simp split: option.split)
  qed (use w [THEN within_mono] within_plain [OF assms(2)] in \<open>simp_all add: Health_def\<close>)
qed

lemma within_router:
  assumes "store s = URLRepository P" "plain_handler (prom_handler chi)" "plain_handler (chi_other chi)"
  shows "within (NewRouter P L chi s opts q hs) 31"
proof -
  let ?o = "fold (\<lambda>f x. f x) opts no_options"
  let ?d = "dispatch chi (routes P L chi s ?o)"
  have disp: "within (?d q hs) 25" for q hs
    unfolding dispatch_def
    by (auto split: option.split intro: within_plain [OF assms(3)] within_routes [OF assms(1,2) nth_mem])
  have met: "within (Metrics P ?d q hs) 28" for q hs
    unfolding Metrics_def by (auto intro!: within_clock within_inc within_use [OF disp] split: outcome.split)
  have log: "within (RequestLogger P (Metrics P ?d) q hs) 30" for q hs
    unfolding RequestLogger_def by (auto intro!: within_clock within_use [OF met] split: outcome.split)
  have new: "within (newRequestID P) 1"
    unfolding newRequestID_def by (auto intro!: within_ext split: option.split)
  have req: "within (RequestID P (RequestLogger P (Metrics P ?d)) q hs) 31" for q hs
  proof (cases "validRequestID (q_Header q RequestIDHeader)")
    case True
    then show ?thesis by (simp add: RequestID_def within_mono [OF log])
  next
    case False
    then show ?thesis unfolding RequestID_def by simp (rule within_use [OF new], auto intro: log)
  qed
  have rec: "within (Recoverer (RequestID P (RequestLogger P (Metrics P ?d))) q hs) 31" for q hs
    unfolding Recoverer_def by (auto intro!: within_use [OF req] split: outcome.split)
  show ?thesis by (simp add: NewRouter_def Let_def InstanceID_def rec)
qed

lemma safe_trivial: "safe (\<lambda>_. True) (\<lambda>_. True) p"
proof (induction p)
  case (Act f)
  show ?case unfolding safe_Act
  proof (intro allI impI)
    fix w p w'
    assume "f w = (p, w')"
    then have "(p, w') \<in> range f" by (metis rangeI)
    from Act.IH [OF this, of p] show "safe (\<lambda>_. True) (\<lambda>_. True) p \<and> True" by simp
  qed
qed simp

text \<open>C7: Requests are wait-free. In any schedule of requests, recorder and workers, whatever they do and whatever fails, a request that has been given 31 turns has been answered with a response: no request waits for a lock, a winner of its idempotency key, or a full channel beyond that.\<close>

theorem request_wait_free:
  assumes "store s = URLRepository P" "plain_handler (prom_handler chi)" "plain_handler (chi_other chi)"
    and "i < length ps" "ps ! i = NewRouter P L chi s opts q hs" "31 \<le> count_list turns i"
  shows "\<exists>resp. snd (sched turns (w, ps)) ! i = Ret (Written resp)"
proof -
  have "within (ps ! i) 31" using within_router [OF assms(1-3)] assms(5) by simp
  from within_sched [OF assms(4) this assms(6)] obtain a where a: "snd (sched turns (w, ps)) ! i = Ret a" by blast
  have steps: "pstep\<^sup>*\<^sup>* (w, ps) (fst (sched turns (w, ps)), snd (sched turns (w, ps)))"
    using sched_psteps [of "(w, ps)" turns] by simp
  have "safe (\<lambda>_. True) (\<lambda>r. \<exists>resp. r = Written resp) (NewRouter P L chi s opts q hs)"
    unfolding NewRouter_def Let_def InstanceID_def using Recoverer_answers by auto
  then have "safe (\<lambda>_. True) (if j = i then \<lambda>r. \<exists>resp. r = Written resp else (\<lambda>_. True)) (ps ! j)" if "j < length ps" for j
    using assms(5) safe_trivial by auto
  then have "pool_inv (\<lambda>_. True) (\<lambda>j. if j = i then \<lambda>r. \<exists>resp. r = Written resp else (\<lambda>_. True)) (w, ps)"
    by (simp add: pool_inv_def)
  from pool_result [OF steps this _ a] assms(4) psteps_length [OF steps] obtain resp where "a = Written resp" by auto
  with a show ?thesis by blast
qed

theorem request_wait_free_witness:
  "\<exists>resp. snd (sched (concat (replicate 31 [1, 0])) (world0 (demo_db [''ab0''] None) (sim0 0),
       [NewRouter sim_platform demo_lib demo_chi demo_service [WithMetrics] (demo_http ''GET'' ''ab0'' '''') Map.empty,
        NewRouter sim_platform demo_lib demo_chi demo_service [] (demo_http ''DELETE'' ''ab0'' '''') Map.empty])) ! 0
     = Ret (Written resp)"
proof -
  have "plain_handler (prom_handler demo_chi)" "plain_handler (chi_other demo_chi)" "store demo_service = URLRepository sim_platform"
    by (simp_all add: plain_handler_def demo_chi_def respond_def)
  moreover have "31 \<le> count_list (concat (replicate 31 [1, 0 :: nat])) 0" by code_simp
  ultimately show ?thesis by (intro request_wait_free [where i = 0]) simp_all
qed

end
