(* ===== verification/Click_Bound.thy ===== *)
theory Click_Bound
imports Ownership Clicks
begin

section \<open>No click without a redirect\<close>

text \<open>
  However requests, recorder and workers interleave and whatever fails, the clicks in the
  statistics are paid for by redirects. The interface to Redis is the locale \<open>event_log\<close>: \<open>seen\<close>
  are the ids ever appended to the stream \<open>stream\<close>; an XADD, its repetitions by the client included,
  appends at most \<open>copies\<close> entries, whether it answers or not; XREADGROUP hands out entries of
  the stream only, to any number of readers and any number of times. The other commands append
  nothing to the stream.
\<close>

definition quiet :: "('x \<Rightarrow> string set) \<Rightarrow> ('x \<Rightarrow> 'r \<times> 'x) \<Rightarrow> bool" where
  "quiet seen g \<longleftrightarrow> (\<forall>x. seen (snd (g x)) = seen x)"

lemma quietD: "quiet seen g \<Longrightarrow> g x = (r, x') \<Longrightarrow> seen x' = seen x"
  unfolding quiet_def by (metis snd_conv)

locale event_log =
  fixes P :: "'x platform" and stream :: string and seen :: "'x \<Rightarrow> string set" and copies :: nat
  assumes finite_seen: "finite (seen x)"
    and xadd_seen: "p_xadd P stream vs x = (r, x') \<Longrightarrow> seen x \<subseteq> seen x' \<and> card (seen x' - seen x) \<le> copies"
    and xread_seen: "p_xreadgroup P stream n b x = (rm, x') \<Longrightarrow>
      seen x' = seen x \<and> (\<forall>ms. rm = Inr ms \<longrightarrow> msg_ID ` set ms \<subseteq> seen x)"
    and quiet_clock: "quiet seen (p_now P)" "quiet seen (\<lambda>x. ((), p_sleep P d x))" "quiet seen (p_ctx_err P)"
    and quiet_sql: "quiet seen (p_sql P)" "quiet seen (p_ping_db P)" "quiet seen (p_rand P j)"
    and quiet_keys: "quiet seen (p_get P k)" "quiet seen (p_set P k v ttl)" "quiet seen (p_setnx P k v ttl)"
      "quiet seen (p_del P k)" "quiet seen (p_incr P k)" "quiet seen (p_expire P k ttl)" "quiet seen (p_xack P stream i)"

text \<open>What the statistics are still owed: entries not yet claimed, and events in the channel.\<close>

definition backlog :: "('x \<Rightarrow> string set) \<Rightarrow> nat \<Rightarrow> 'x world \<Rightarrow> int" where
  "backlog seen copies w = int (card (seen (ext w) - claimed (db w))) + int copies * int (length (buffer w))"

definition owed :: "('x \<Rightarrow> string set) \<Rightarrow> nat \<Rightarrow> 'x world \<Rightarrow> int" where
  "owed seen copies w = total_clicks (db w) + backlog seen copies w"

definition known :: "('x \<Rightarrow> string set) \<Rightarrow> string \<Rightarrow> 'x world \<Rightarrow> bool" where
  "known seen i w \<longleftrightarrow> i \<in> seen (ext w)"

text \<open>What a request that has been answered has left of its credit: a redirect has spent it.\<close>

definition price :: "nat \<Rightarrow> outcome \<Rightarrow> int" where
  "price copies a = (if is_301 a then 0 else int copies)"

lemma price_le: "0 \<le> price copies a" "price copies a \<le> int copies"
  by (simp_all add: price_def)

lemma sum_filter_le:
  fixes f :: "'a \<Rightarrow> int"
  shows "\<forall>a \<in> set as. 0 \<le> f a \<Longrightarrow> sum_list (map f (filter Q (filter R as))) \<le> sum_list (map f (filter Q as))"
  by (induction as) auto

lemma delete_total:
  assumes "delete_url c now d = (r, d')" "db_inv d"
  shows "total_clicks d' \<le> total_clicks d" "claimed d' = claimed d"
proof -
  have nonneg: "\<forall>a \<in> set (analytics_daily d). 0 \<le> d_count a"
    using assms(2) by (auto simp: db_inv_def daily_inv_def)
  show "total_clicks d' \<le> total_clicks d"
    using assms(1) sum_filter_le [OF nonneg] by (auto simp: delete_url_def Let_def total_clicks_def split: if_splits)
  show "claimed d' = claimed d" using assms(1) by (auto simp: delete_url_def Let_def claimed_def split: if_splits)
qed

context event_log begin

abbreviation tally ::
  "('a \<Rightarrow> string set \<Rightarrow> int \<Rightarrow> bool) \<Rightarrow> ('x world, 'a) prog \<Rightarrow> string set \<Rightarrow> int \<Rightarrow> bool" where
  "tally \<equiv> pays (\<lambda>w. db_inv (db w)) (\<lambda>_. True) (known seen) (owed seen copies)"

abbreviation calm :: "string set \<Rightarrow> int \<Rightarrow> ('x world, 'a) prog \<Rightarrow> bool" where
  "calm X k p \<equiv> tally (\<lambda>_ X' k'. X' = X \<and> k' = k) p X k"

lemma tally_step: "fair_step (\<lambda>w. db_inv (db w)) (\<lambda>_. True) (known seen) (owed seen copies) w X k w' X' k' \<longleftrightarrow>
    db_inv (db w') \<and> 0 \<le> k' \<and> owed seen copies w' + k' \<le> owed seen copies w + k
    \<and> X' \<subseteq> seen (ext w') \<and> seen (ext w) \<subseteq> seen (ext w')"
  by (auto simp: fair_step_def known_def)

lemma known_subset: "(\<forall>x \<in> X. known seen x w) \<longleftrightarrow> X \<subseteq> seen (ext w)"
  by (auto simp: known_def)

lemma calm_use: "calm X k p \<Longrightarrow> (\<And>a. tally R (h a) X k) \<Longrightarrow> tally R (bindp p h) X k"
  by (erule pays_bindp) simp

lemma calm_end: "calm X k p \<Longrightarrow> (\<And>a. R a X k) \<Longrightarrow> tally R p X k"
  by (erule pays_post) simp

lemma calm_bindp: "calm X k p \<Longrightarrow> (\<And>a. calm X k (h a)) \<Longrightarrow> calm X k (bindp p h)"
  by (rule calm_use)

lemma calm_Ret: "calm X k (Ret a)"
  by simp

lemma calm_ext: "0 \<le> k \<Longrightarrow> quiet seen g \<Longrightarrow> calm X k (ext_act g)"
  unfolding ext_act_def
  by (rule pays_act, unfold tally_step known_subset) (clarsimp split: prod.splits, drule (1) quietD, simp add: owed_def backlog_def)

lemma calm_Inc: "0 \<le> k \<Longrightarrow> calm X k (Inc m)"
  unfolding Inc_def by (rule pays_act, unfold tally_step known_subset) (auto simp: owed_def backlog_def)

lemma tally_SQL:
  assumes exec: "\<And>now d r d' S. st now d = (r, d') \<Longrightarrow> db_inv d \<Longrightarrow> finite S \<Longrightarrow> X \<subseteq> S \<Longrightarrow> db_inv d' \<and> 0 \<le> c r
      \<and> total_clicks d' + int (card (S - claimed d')) + c r \<le> total_clicks d + int (card (S - claimed d)) + k"
    and lost: "\<And>now d r d' m. st now d = (r, d') \<Longrightarrow> c (Inl m) \<le> c r" "\<And>m. 0 \<le> c (Inl m) \<and> c (Inl m) \<le> k"
  shows "tally (\<lambda>r X' k'. X' = X \<and> k' = c r) (SQL P st) X k"
  unfolding SQL_def
proof (rule pays_act, unfold tally_step known_subset)
  fix w :: "'x world" and a w'
  assume I: "db_inv (db w)" and X: "X \<subseteq> seen (ext w)" and s: "sql_step P st w = (a, w')"
  note fin = finite_seen [of "ext w"]
  have sn: "seen x = seen (ext w)" if "p_sql P (ext w) = (f, x)" for f x
    using quietD [OF quiet_sql(1) that] .
  from s have "db_inv (db w') \<and> 0 \<le> c a \<and> owed seen copies w' + c a \<le> owed seen copies w + k
    \<and> X \<subseteq> seen (ext w') \<and> seen (ext w) \<subseteq> seen (ext w')"
  proof (cases rule: sql_step_cases)
    case (refused m x)
    with I X sn [OF refused(1)] lost(2) [of "Plain m"] show ?thesis by (simp add: owed_def backlog_def)
  next
    case (executed x d)
    with exec [OF executed(2) I fin X] X sn [OF executed(1)] show ?thesis by (simp add: owed_def backlog_def)
  next
    case (unacked m x q d)
    with exec [OF unacked(2) I fin X] lost(1) [OF unacked(2), of "Plain m"] lost(2) [of "Plain m"] X sn [OF unacked(1)]
    show ?thesis by (simp add: owed_def backlog_def)
  qed
  then show "\<exists>X' k'. (db_inv (db w') \<and> 0 \<le> k' \<and> owed seen copies w' + k' \<le> owed seen copies w + k
      \<and> X' \<subseteq> seen (ext w') \<and> seen (ext w) \<subseteq> seen (ext w')) \<and> X' = X \<and> k' = c a"
    by blast
qed

lemma calm_SQL:
  assumes "0 \<le> k"
    and "\<And>now d r d'. st now d = (r, d') \<Longrightarrow> db_inv d \<Longrightarrow> db_inv d' \<and> total_clicks d' \<le> total_clicks d \<and> claimed d \<subseteq> claimed d'"
  shows "calm X k (SQL P st)"
proof (rule tally_SQL)
  fix now d r d' and S :: "string set"
  assume "st now d = (r, d')" "db_inv d" "finite S"
  with assms(2) [OF this(1,2)] have "card (S - claimed d') \<le> card (S - claimed d)" by (intro card_mono) auto
  with assms(1) assms(2) [OF \<open>st now d = (r, d')\<close> \<open>db_inv d\<close>]
  show "db_inv d' \<and> 0 \<le> k \<and> total_clicks d' + int (card (S - claimed d')) + k \<le> total_clicks d + int (card (S - claimed d)) + k"
    by simp
qed (use assms(1) in auto)

lemma calm_stmts:
  assumes "0 \<le> k"
  shows "calm X k (SQL P (insert_url co l e))" "calm X k (SQL P (update_url_code c i))" "calm X k (SQL P (select_url c))"
    "calm X k (SQL P (delete_url c))" "calm X k (SQL P (select_total i))" "calm X k (SQL P (select_daily i))"
    "calm X k (SQL P (select_referrers i))" "calm X k (SQL P (select_url_id c))"
    "dim \<noteq> ''total'' \<Longrightarrow> calm X k (SQL P (upsert_daily i day dim v))"
proof -
  have "total_clicks d' = total_clicks d" "claimed d' = claimed d" if "insert_url co l e now d = (r, d')" for now d r d'
    using that by (cases r; force dest: insert_url_Inl insert_url_Inr simp: total_clicks_def claimed_def)+
  then show "calm X k (SQL P (insert_url co l e))"
    by (intro calm_SQL [OF assms]) (auto intro: insert_url_inv)
  have "total_clicks d' = total_clicks d" "claimed d' = claimed d" if "update_url_code c i now d = (r, d')" for now d r d'
    using that by (auto simp: update_url_code_def total_clicks_def claimed_def split: if_splits)
  then show "calm X k (SQL P (update_url_code c i))"
    by (intro calm_SQL [OF assms]) (auto intro: update_url_code_inv)
  show "calm X k (SQL P (delete_url c))"
    by (rule calm_SQL [OF assms]) (simp add: delete_url_inv delete_total)
  show "calm X k (SQL P (select_url c))" "calm X k (SQL P (select_url_id c))"
    by (rule calm_SQL [OF assms], drule select_url_inv select_url_id_inv, simp)+
  show "calm X k (SQL P (select_total i))" "calm X k (SQL P (select_daily i))" "calm X k (SQL P (select_referrers i))"
    by (rule calm_SQL [OF assms]; simp add: select_total_def select_daily_def select_referrers_def)+
  show "calm X k (SQL P (upsert_daily i day dim v))" if "dim \<noteq> ''total''"
    by (rule calm_SQL [OF assms]) (use that in \<open>auto simp: upsert_claimed db_inv_def dest: upsert_total upsert_daily_inv [unfolded db_inv_def]\<close>)
qed

lemmas calm_rules = calm_bindp calm_Ret calm_Inc calm_stmts calm_ext quiet_clock quiet_sql quiet_keys

lemma calm_time:
  assumes "0 \<le> k"
  shows "calm X k (time_Now P)" "calm X k (time_Sleep P d)" "calm X k (ctx_Err P)"
proof -
  have "quiet seen (\<lambda>x. map_prod (map_option Plain) id (p_ctx_err P x))"
    using quiet_clock(3) by (simp add: quiet_def)
  then show "calm X k (time_Now P)" "calm X k (time_Sleep P d)" "calm X k (ctx_Err P)"
    unfolding act_defs by (simp_all add: calm_ext assms quiet_clock)
qed

subsection \<open>Recorder and worker\<close>

lemma tally_take: "tally (\<lambda>a X k. X = {} \<and> k = (case a of None \<Rightarrow> 0 | Some e \<Rightarrow> int copies)) (act take_step) {} 0"
  by (rule pays_act, unfold tally_step known_subset)
    (auto simp: take_step_def owed_def backlog_def distrib_left split: list.splits)

lemma tally_publish: "tally (\<lambda>_ X k. X = {} \<and> k = 0) (publish P (NewRecorder stream) e) {} (int copies)"
proof -
  have xadd: "tally (\<lambda>_ X k. X = {} \<and> k = 0) (ext_act (p_xadd P stream vs)) {} (int copies)" for vs
    unfolding ext_act_def
  proof (rule pays_act, unfold tally_step known_subset)
    fix w :: "'x world" and a w'
    assume I: "db_inv (db w)" and r: "(case p_xadd P stream vs (ext w) of (r, x) \<Rightarrow> (r, w\<lparr>ext := x\<rparr>)) = (a, w')"
    obtain x where x: "p_xadd P stream vs (ext w) = (a, x)" "w' = w\<lparr>ext := x\<rparr>"
      using r by (cases "p_xadd P stream vs (ext w)") auto
    note law = xadd_seen [OF x(1)]
    have "seen x - claimed (db w) \<subseteq> (seen (ext w) - claimed (db w)) \<union> (seen x - seen (ext w))" by blast
    then have "card (seen x - claimed (db w)) \<le> card ((seen (ext w) - claimed (db w)) \<union> (seen x - seen (ext w)))"
      by (intro card_mono) (simp_all add: finite_seen)
    also have "\<dots> \<le> card (seen (ext w) - claimed (db w)) + card (seen x - seen (ext w))" by (rule card_Un_le)
    finally have "card (seen x - claimed (db w)) \<le> card (seen (ext w) - claimed (db w)) + copies" using law by linarith
    with I law x(2) show "\<exists>X' k'. (db_inv (db w') \<and> 0 \<le> k' \<and> owed seen copies w' + k' \<le> owed seen copies w + int copies
        \<and> X' \<subseteq> seen (ext w') \<and> seen (ext w) \<subseteq> seen (ext w')) \<and> X' = {} \<and> k' = 0"
      by (auto simp: owed_def backlog_def)
  qed
  have "rec_stream (NewRecorder stream) = stream" by (simp add: NewRecorder_def)
  then show ?thesis unfolding publish_def
    by (simp only:) (rule pays_bindp [OF xadd], auto intro!: calm_Inc split: sum.split)
qed

lemma tally_recorder: "calm {} 0 (run_recorder P (NewRecorder stream) n)"
proof (induction n)
  case (Suc n)
  show ?case unfolding run_recorder.simps
    by (rule pays_bindp [OF tally_take]) (auto intro!: pays_bindp [OF tally_publish] Suc split: option.split)
qed simp

lemma tally_claim:
  assumes "i \<in> X"
  shows "tally (\<lambda>r X' k'. X' = X \<and> k' = (if r = Inr 1 then 1 else 0)) (SQL P (insert_idem i ''analytics'' ttl)) X 0"
proof (rule tally_SQL)
  fix now d r d' and S :: "string set"
  assume u: "insert_idem i ''analytics'' ttl now d = (r, d')" and inv: "db_inv d" and S: "finite S" "X \<subseteq> S"
  note c = insert_idem_claimed [OF u]
  have "card (S - claimed d') + (if r = Inr 1 then 1 else 0) \<le> card (S - claimed d)"
  proof (cases "r = Inr 1")
    case True
    with c(3-5) have "S - claimed d' = S - claimed d - {i}" "i \<notin> claimed d" by auto
    moreover have "i \<in> S - claimed d" using calculation(2) assms S(2) by blast
    ultimately show ?thesis using True S(1) card_Suc_Diff1 [of "S - claimed d" i] by simp
  next
    case False
    have "S - claimed d' \<subseteq> S - claimed d" using c(3) by blast
    with False S(1) show ?thesis by (simp add: card_mono)
  qed
  moreover have "total_clicks d' = total_clicks d" by (simp add: total_clicks_def c(1))
  ultimately show "db_inv d' \<and> 0 \<le> (if r = Inr 1 then 1 else 0 :: int)
      \<and> total_clicks d' + int (card (S - claimed d')) + (if r = Inr 1 then 1 else 0) \<le> total_clicks d + int (card (S - claimed d)) + 0"
    using insert_idem_inv [OF u inv] by (auto split: if_splits)
qed auto

lemma tally_total: "tally (\<lambda>_ X' k'. X' = X \<and> k' = 0) (SQL P (upsert_daily i day ''total'' v)) X 1"
proof (rule tally_SQL)
  fix now d r d' and S :: "string set"
  assume u: "upsert_daily i day ''total'' v now d = (r, d')" and inv: "db_inv d"
  from upsert_total [OF u] upsert_claimed [OF u] upsert_daily_inv [OF u inv] inv
  show "db_inv d' \<and> 0 \<le> (0 :: int) \<and> total_clicks d' + int (card (S - claimed d')) + 0 \<le> total_clicks d + int (card (S - claimed d)) + 1"
    by (simp add: db_inv_def)
qed auto

lemma calm_ack: "0 \<le> k \<Longrightarrow> calm X k (consumer_ack P (consumer_New stream) i)"
  unfolding consumer_ack_def by (simp add: calm_ext quiet_keys consumer_New_def)

text \<open>The worker: what is left of the credit of a claim is dropped.\<close>

abbreviation spends :: "string set \<Rightarrow> int \<Rightarrow> ('x world, 'a) prog \<Rightarrow> bool" where
  "spends X k p \<equiv> tally (\<lambda>_ X' k'. X' = X \<and> 0 \<le> k') p X k"

lemma calm_spends: "calm X k p \<Longrightarrow> 0 \<le> k \<Longrightarrow> spends X k p"
  by (erule calm_end) simp

lemma spends_more: "spends X 0 p \<Longrightarrow> 0 \<le> k \<Longrightarrow> spends X k p"
  by (drule pays_frame [where c = k], assumption, simp, erule pays_post, simp)

lemma spends_bindp: "spends X k m \<Longrightarrow> (\<And>a. spends X 0 (h a)) \<Longrightarrow> spends X k (bindp m h)"
  by (erule pays_bindp) (auto intro: spends_more)

lemma spends_done: "0 \<le> k \<Longrightarrow> spends X k (bindp (Inc m) (\<lambda>_. consumer_ack P (consumer_New stream) i))"
  by (intro calm_use [OF calm_Inc] calm_spends calm_ack)

lemma spends_count_click: "spends X 1 (count_click P (consumer_New stream) msg day i)"
proof -
  have ref: "spends X 0 (if b then bindp (SQL P (upsert_daily i day ''referrer'' v)) (\<lambda>r2.
      case r2 of Inl err \<Rightarrow> Ret (Some (f err)) | Inr _ \<Rightarrow> Ret None) else Ret None)" for b v and f :: "goerr \<Rightarrow> goerr"
    by (auto intro!: calm_use [OF calm_stmts(9)] split: sum.split)
  have rest: "spends X 0 (case e of Some err \<Rightarrow> Ret (Some err)
      | None \<Rightarrow> bindp (Inc AnalyticsProcessed) (\<lambda>_. consumer_ack P (consumer_New stream) (msg_ID msg)))" for e :: "goerr option"
    by (simp split: option.split add: spends_done)
  show ?thesis unfolding count_click_def
    by (rule pays_bindp [OF tally_total], erule conjE, hypsubst, split sum.split, intro conjI allI impI, simp,
        rule spends_bindp [OF ref rest])
qed

lemma spends_handle:
  assumes "msg_ID msg \<in> X"
  shows "spends X 0 (handle P (consumer_New stream) msg)"
proof -
  have claim: "tally (\<lambda>r X' k'. X' = X \<and> k' = (if r = Inr True then 1 else 0)) (consumer_claim P (msg_ID msg)) X 0"
    unfolding consumer_claim_def tryp_def
    by (rule pays_bindp [OF tally_claim [OF assms]]) (auto split: sum.split)
  have day: "calm X 1 (eventDay P msg)"
    unfolding eventDay_def by (auto intro!: calm_use [OF calm_time(1)] split: option.split)
  have won: "spends X 1 (bindp (eventDay P msg) (\<lambda>day. bindp (SQL P (select_url_id (msg_value msg ''code''))) (\<lambda>r.
      case r of
        Inl err \<Rightarrow> if err = Sentinel PgxErrNoRows
            then bindp (Inc AnalyticsDeduped) (\<lambda>_. consumer_ack P (consumer_New stream) (msg_ID msg))
            else Ret (Some (WrapPre ''lookup code'' err))
      | Inr urlID \<Rightarrow> count_click P (consumer_New stream) msg day urlID)))"
    by (rule calm_use [OF day], rule calm_use [OF calm_stmts(8)])
      (auto split: sum.split intro: spends_done spends_count_click)
  show ?thesis unfolding handle_def
    by (auto intro!: pays_bindp [OF claim] won spends_done split: sum.split)
qed

lemma spends_handle_all: "msg_ID ` set msgs \<subseteq> X \<Longrightarrow> spends X 0 (handle_all P (consumer_New stream) k msgs)"
proof (induction msgs arbitrary: k)
  case (Cons msg msgs)
  then show ?case by (auto intro!: spends_bindp [OF spends_handle] split: option.split)
qed simp

lemma tally_ProcessOnce: "tally (\<lambda>_ _ k. 0 \<le> k) (ProcessOnce P (consumer_New stream) b) X 0"
proof -
  have read: "tally (\<lambda>r X' k. k = 0 \<and> (\<forall>ms. r = Inr ms \<longrightarrow> msg_ID ` set ms \<subseteq> X')) (ext_act (p_xreadgroup P stream n b)) X 0" for n
    unfolding ext_act_def
  proof (rule pays_act, unfold tally_step known_subset)
    fix w :: "'x world" and a w'
    assume I: "db_inv (db w)" and r: "(case p_xreadgroup P stream n b (ext w) of (r, x) \<Rightarrow> (r, w\<lparr>ext := x\<rparr>)) = (a, w')"
    obtain x where x: "p_xreadgroup P stream n b (ext w) = (a, x)" "w' = w\<lparr>ext := x\<rparr>"
      using r by (cases "p_xreadgroup P stream n b (ext w)") auto
    from I xread_seen [OF x(1)] x(2)
    show "\<exists>X' k'. (db_inv (db w') \<and> 0 \<le> k' \<and> owed seen copies w' + k' \<le> owed seen copies w + 0
        \<and> X' \<subseteq> seen (ext w') \<and> seen (ext w) \<subseteq> seen (ext w')) \<and> k' = 0 \<and> (\<forall>ms. a = Inr ms \<longrightarrow> msg_ID ` set ms \<subseteq> X')"
      by (intro exI [of _ "seen (ext w)"] exI [of _ 0]) (simp add: owed_def backlog_def)
  qed
  have cs: "cons_stream (consumer_New stream) = stream" by (simp add: consumer_New_def)
  show ?thesis unfolding ProcessOnce_def cs
    by (rule pays_bindp [OF read]) (auto split: sum.split intro: pays_post [OF spends_handle_all])
qed

lemma tally_worker: "tally (\<lambda>_ _ k. 0 \<le> k) (consumer_Run P (consumer_New stream) n) X 0"
proof (induction n arbitrary: X)
  case (Suc n)
  have more: "tally (\<lambda>_ _ k. 0 \<le> k) (consumer_Run P (consumer_New stream) n) X k" if "0 \<le> k" for X k
    by (rule pays_post [OF pays_frame [OF Suc that, of X, simplified]]) (use that in simp)
  have idle: "tally (\<lambda>_ _ k. 0 \<le> k) (bindp (ctx_Err P) (\<lambda>d. case d of Some err \<Rightarrow> Ret True
      | None \<Rightarrow> bindp (time_Sleep P t) (\<lambda>_. consumer_Run P (consumer_New stream) n))) X k" if "0 \<le> k" for t X k
    using that by (auto intro!: calm_use [OF calm_time(3)] calm_use [OF calm_time(2)] more split: option.split)
  show ?case unfolding consumer_Run.simps
    by (rule calm_use [OF calm_time(3)])
      (auto intro!: pays_bindp [OF tally_ProcessOnce] idle more split: option.split)
qed simp

subsection \<open>The service\<close>

text \<open>Requests own nothing; what they hold is credit.\<close>

abbreviation idles :: "int \<Rightarrow> ('x world, 'a) prog \<Rightarrow> bool" where
  "idles k p \<equiv> calm {} k p"

lemmas idle_rules = calm_bindp calm_Inc calm_time calm_stmts

lemma idles_redis:
  assumes "0 \<le> k"
  shows "idles k (cache_Get P L C c)" "idles k (cache_Set P L C c u)" "idles k (cache_Delete P C c)"
    "idles k (idem_Get P I key)" "idles k (idem_Set P I key v)" "idles k (idem_Claim P I key)" "idles k (idem_Release P I key)"
  unfolding cache_Get_def cache_Set_def cache_Delete_def cache_put_def idem_defs Let_def
  by (auto intro!: calm_bindp calm_Inc calm_time calm_ext quiet_keys assms split: sum.splits option.splits)

lemma idles_repo:
  assumes "0 \<le> k"
  shows "idles k (repo_Create P l e)" "idles k (repo_CreateWithCode P c l e)" "idles k (repo_SetCode P i c)"
    "idles k (repo_GetByCode P c)" "idles k (repo_DeleteByCode P c)" "idles k (repo_StatsByURLID P i)"
  unfolding repo_defs by (auto intro!: calm_bindp calm_stmts assms split: sum.split)

lemma idles_tryp: "idles k m \<Longrightarrow> (\<And>a. idles k (h a)) \<Longrightarrow> idles k (tryp m h)"
  unfolding tryp_def by (erule calm_bindp) (simp split: sum.split)

lemma idles_service:
  assumes "store s = URLRepository P" "0 \<le> k"
  shows "idles k (service_Create P L s inp)" "idles k (Resolve P L s c)" "idles k (service_Delete P s c)" "idles k (GetStats P L s c)"
proof -
  note rules = calm_bindp idles_tryp calm_Inc [OF assms(2)] calm_time [OF assms(2)] idles_redis [OF assms(2)] idles_repo [OF assms(2)]
  have one: "idles k (createOne L s i l e)" for i l e
    unfolding createOne_def assms(1) URLRepository_sel by (auto intro!: rules split: sum.split option.split)
  have rep: "idles k (replay L s code)" for code
    unfolding replay_def assms(1) URLRepository_sel by (auto intro!: rules split: sum.split)
  have wait: "idles k (wait_for_winner P L s I key n)" for I key n
    by (induction n) (auto intro!: rules rep split: sum.split option.split)
  have idem: "idles k (createIdempotent P L s i l e)" for i l e
    unfolding createIdempotent_def Let_def by (auto intro!: rules one rep wait split: sum.split option.split bool.split)
  show "idles k (service_Create P L s inp)"
    unfolding service_Create_def parseExpiry_def Let_def by (auto intro!: rules one idem split: sum.split)
  have st: "idles k (resolve_store P L s c)" for c
    unfolding resolve_store_def assms(1) URLRepository_sel by (auto intro!: rules split: sum.split option.split)
  show res: "idles k (Resolve P L s c)" unfolding Resolve_def by (auto intro!: rules st split: sum.split option.split)
  show "idles k (service_Delete P s c)" unfolding service_Delete_def assms(1) URLRepository_sel
    by (auto intro!: rules split: sum.split option.split)
  show "idles k (GetStats P L s c)" unfolding GetStats_def assms(1) URLRepository_sel by (auto intro!: rules res)
qed

subsection \<open>Handlers, middleware, router\<close>

text \<open>A request starts with the credit for one event, and has it still unless it redirects.\<close>

abbreviation charges :: "('x world, outcome) prog \<Rightarrow> bool" where
  "charges p \<equiv> tally (\<lambda>a X k. price copies a \<le> k) p {} (int copies)"

lemma idles_charges: "idles (int copies) p \<Longrightarrow> charges p"
  by (erule calm_end) (simp add: price_le)

lemma charges_Ret: "charges (Ret a)"
  by (simp add: price_le)

lemma charges_respond [simp]: "charges (respond status hs b)" "charges (writeJSON hs status j)" "charges (writeError hs status c m rid)"
  "charges (http_Redirect hs q t)" "charges (writeCreateError q hs err)" "charges (writeResolveError q hs err)"
  unfolding writeCreateError_def writeResolveError_def writeError_def writeJSON_def http_Redirect_def respond_def Let_def
  by (simp_all add: price_le split: prod.split)

lemma tally_Push: "tally (\<lambda>_ X k. 0 \<le> k) (Push e) {} (int copies)"
proof -
  have step: "tally (\<lambda>_ X k. X = {} \<and> 0 \<le> k) (act (push_step e)) {} (int copies)"
    by (rule pays_act, unfold tally_step known_subset)
      (auto simp: push_step_def owed_def backlog_def distrib_left intro!: exI [of _ 0] split: if_splits)
  show ?thesis unfolding Push_def
    by (rule pays_bindp [OF step]) (auto intro!: calm_use [OF calm_Inc])
qed

lemma charges_handlers:
  assumes "store (svc h) = URLRepository P"
  shows "charges (handle_Create P L h q hs)" "charges (handle_Get P L h q hs)" "charges (handle_Delete P L h q hs)"
    "charges (handle_Stats P L h q hs)" "charges (handle_Redirect P L h q hs)" "charges (Health q hs)" "charges (Ready P q hs)"
proof -
  have c: "(0 :: int) \<le> int copies" by simp
  note service = idles_service [OF assms c]
  show "charges (handle_Create P L h q hs)" unfolding handle_Create_def
    by (auto intro!: calm_use [OF service(1)] simp: price_le split: sum.split decode_error.split goerr.split)
  show "charges (handle_Get P L h q hs)" unfolding handle_Get_def
    by (auto intro!: calm_use [OF service(2)] split: sum.split)
  show "charges (handle_Delete P L h q hs)" unfolding handle_Delete_def
    by (auto intro!: calm_use [OF service(2)] calm_use [OF service(3)] split: sum.split option.split)
  show "charges (handle_Stats P L h q hs)" unfolding handle_Stats_def
    by (auto intro!: calm_use [OF service(4)] split: sum.split)
  have red: "0 \<le> k \<Longrightarrow> tally (\<lambda>a X k. price copies a \<le> k) (http_Redirect hs q t) X k" for t k X
    by (simp add: http_Redirect_def respond_def Let_def price_def is_301_def)
  show "charges (handle_Redirect P L h q hs)" unfolding handle_Redirect_def
    by (auto intro!: calm_use [OF service(2)] calm_use [OF calm_time(1)] pays_bindp [OF tally_Push] red split: sum.split option.split)
  show "charges (Health q hs)" by (simp add: Health_def)
  show "charges (Ready P q hs)" unfolding Ready_def
    by (auto intro!: calm_use [OF calm_ext [OF c quiet_sql(2)]] split: option.split)
qed

lemma charges_plain: "plain_handler h \<Longrightarrow> charges (h q hs)"
  unfolding plain_handler_def by (metis charges_Ret)

lemma charges_limited:
  assumes "\<And>q hs. charges (h q hs)"
  shows "charges (rate_limit P rl h q hs)"
proof -
  have c: "(0 :: int) \<le> int copies" by simp
  have a: "idles (int copies) (allow P rl r)" for r
    unfolding allow_def Let_def
    by (auto intro!: calm_bindp idles_tryp calm_time [OF c] calm_ext [OF c] quiet_keys)
  show ?thesis unfolding rate_limit_def
    by (auto intro!: calm_use [OF a] calm_use [OF calm_Inc] assms split: sum.split)
qed

lemma charges_routes:
  assumes "store s = URLRepository P" "plain_handler (prom_handler chi)" "row \<in> set (routes P L chi s o1)"
  shows "charges (snd row q hs)"
proof -
  let ?h = "\<lparr>svc = s, recd = o_recorder o1\<rparr>"
  have h: "store (svc ?h) = URLRepository P" using assms(1) by simp
  from assms(3) consider "snd row = Health" | "snd row = Ready P" | "snd row = prom_handler chi"
    | "snd row = (case o_rateLimiter o1 of Some rl \<Rightarrow> rate_limit P rl (handle_Create P L ?h) | None \<Rightarrow> handle_Create P L ?h)"
    | "snd row = handle_Get P L ?h" | "snd row = handle_Delete P L ?h" | "snd row = handle_Stats P L ?h"
    | "snd row = handle_Redirect P L ?h"
    unfolding routes_def Let_def by (auto split: if_splits)
  then show ?thesis
  proof cases
    case 4
    with charges_handlers(1) [OF h] charges_limited [OF charges_handlers(1) [OF h]] show ?thesis by (simp split: option.split)
  qed (simp_all add: charges_handlers [OF h] charges_plain [OF assms(2)])
qed

lemma charges_router:
  assumes "store s = URLRepository P" "plain_handler (prom_handler chi)" "plain_handler (chi_other chi)"
  shows "charges (NewRouter P L chi s opts q hs)"
proof -
  let ?o = "fold (\<lambda>f x. f x) opts no_options"
  let ?d = "dispatch chi (routes P L chi s ?o)"
  have c: "(0 :: int) \<le> int copies" by simp
  have nonneg: "price copies a \<le> k \<Longrightarrow> 0 \<le> k" for a k using price_le(1) [of copies a] by linarith
  have disp: "charges (?d q hs)" for q hs
    unfolding dispatch_def
    by (auto split: option.split intro: charges_plain [OF assms(3)] charges_routes [OF assms(1,2) nth_mem])
  have met: "charges (Metrics P ?d q hs)" for q hs
    unfolding Metrics_def
    by (rule calm_use [OF calm_time(1) [OF c]], rule pays_bindp [OF disp])
      (auto intro!: calm_use [OF calm_time(1)] calm_use [OF calm_Inc] dest: nonneg split: outcome.split)
  have log: "charges (RequestLogger P (Metrics P ?d) q hs)" for q hs
    unfolding RequestLogger_def
    by (rule calm_use [OF calm_time(1) [OF c]], rule pays_bindp [OF met])
      (auto intro!: calm_use [OF calm_time(1)] dest: nonneg split: outcome.split)
  have new: "idles (int copies) (if b then newRequestID P else Ret i)" for b i
    unfolding newRequestID_def by (auto intro!: calm_bindp calm_ext quiet_sql split: option.split)
  have req: "charges (RequestID P (RequestLogger P (Metrics P ?d)) q hs)" for q hs
    unfolding RequestID_def by (rule calm_use [OF new log])
  have raised: "price copies (Raised hs1) = int copies" for hs1 by (simp add: price_def is_301_def)
  have rec: "charges (Recoverer (RequestID P (RequestLogger P (Metrics P ?d))) q hs)" for q hs
    unfolding Recoverer_def
    by (rule pays_bindp [OF req]) (auto simp: respond_def raised intro: order_trans [OF price_le(2)] split: outcome.split)
  show ?thesis by (simp add: NewRouter_def Let_def InstanceID_def rec)
qed

end

subsection \<open>The clicks of the system\<close>

text \<open>Requests of the pool that have been redirected, or are not answered yet.\<close>

definition redirects :: "task list \<Rightarrow> ('x world, outcome option) prog list \<Rightarrow> nat" where
  "redirects tasks ps = card {i. i < length tasks \<and> (\<exists>q. tasks ! i = Serve q)
     \<and> (\<forall>out. ps ! i = Ret (Some out) \<longrightarrow> is_301 out)}"

text \<open>C5: No click without a redirect. From a configuration the server accepts, any number of requests, the recorder and any number of workers run at once, interleaved at every statement and command, with failures and lost answers anywhere; an XADD, with the repetitions of the client, appends at most a given number of entries. Then the clicks counted, together with the entries still unclaimed and that number for each event in the channel, have grown by at most that number for each request that was redirected or is not yet answered: no other request, no redelivered message and no second worker adds a click.\<close>

theorem clicks_bounded:
  assumes "event_log P (RedisStream cfg) seen copies"
    and "server_main P L chi parse X env migErr hostname = Inr (s, h)" "Load parse env = Inr cfg"
    and "plain_handler (prom_handler chi)" "plain_handler (chi_other chi)" "db_inv (db w)"
    and "pstep\<^sup>*\<^sup>* (w, map (task_prog P h (RedisStream cfg)) tasks) (w', ps)"
  shows "total_clicks (db w') + backlog seen copies w'
    \<le> total_clicks (db w) + backlog seen copies w + int copies * int (redirects tasks ps)"
proof -
  let ?pay = "pays (\<lambda>w. db_inv (db w)) (\<lambda>_. True) (known seen) (owed seen copies)"
  let ?k = "\<lambda>t. case t of Serve q \<Rightarrow> int copies | _ \<Rightarrow> 0"
  let ?cost = "\<lambda>i a. case a of Some out \<Rightarrow> (case tasks ! i of Serve q \<Rightarrow> price copies out | _ \<Rightarrow> 0) | None \<Rightarrow> 0"
  let ?ps = "map (task_prog P h (RedisStream cfg)) tasks"
  let ?left = "\<lambda>i. case ps ! i of Ret a \<Rightarrow> ?cost i a | Act f \<Rightarrow> 0"
  let ?open = "\<lambda>i. (\<exists>q. tasks ! i = Serve q) \<and> (\<forall>out. ps ! i = Ret (Some out) \<longrightarrow> is_301 out)"
  have h: "h = NewRouter P L chi s (server_options cfg hostname)" and st: "store s = URLRepository P"
    using server_main_Inr [OF assms(2)] NewURLService_wired assms(3) by (metis sum.inject(2) wired_def)+
  have len: "length ps = length tasks" using psteps_length [OF assms(7)] by simp
  have serve: "?pay (\<lambda>a _ k. ?cost i a \<le> k) (bindp (h q hs) (\<lambda>out. Ret (Some out))) {} (int copies)"
    if "tasks ! i = Serve q'" for i q q' hs
    unfolding h by (rule pays_bindp [OF event_log.charges_router [OF assms(1) st assms(4,5)]]) (simp add: that)
  have each: "?pay (\<lambda>a _ k. ?cost i a \<le> k) (?ps ! i) {} (map ?k tasks ! i)" if "i < length ?ps" for i
    using that serve [of i] unfolding task_prog_def
    by (auto intro!: pays_bindp [OF event_log.tally_recorder [OF assms(1)]] pays_bindp [OF event_log.tally_worker [OF assms(1)]]
        split: task.split)
  have "owed seen copies w' + (\<Sum>i < length ps. ?left i) \<le> owed seen copies w + sum_list (map ?k tasks)"
    using pool_pays_total [where cost = ?cost and ks = "map ?k tasks", OF assms(7,6) _ _ each] len
    by (auto split: task.split)
  moreover have "sum_list (map ?k tasks) = (\<Sum>i < length ps. ?k (tasks ! i))"
    using len by (simp add: sum_list_sum_nth atLeast0LessThan)
  moreover have "(\<Sum>i < length ps. ?k (tasks ! i)) - (\<Sum>i < length ps. ?left i) \<le> (\<Sum>i < length ps. if ?open i then int copies else 0)"
    unfolding sum_subtractf [symmetric]
    by (rule sum_mono) (auto simp: price_def split: task.split prog.split option.split)
  moreover have "(\<Sum>i < length ps. if ?open i then int copies else 0) = int copies * int (redirects tasks ps)"
    unfolding redirects_def using len by (simp add: sum.If_cases Int_def conj_commute)
  ultimately show ?thesis by (simp add: owed_def)
qed

subsection \<open>The simulation, and a click counted twice\<close>

lemma sim_kept_stream:
  "s_stream (snd (sim_get k x)) = s_stream x" "s_stream (snd (sim_set k v ttl x)) = s_stream x"
  "s_stream (snd (sim_setnx k v ttl x)) = s_stream x" "s_stream (snd (sim_del k x)) = s_stream x"
  "s_stream (snd (sim_incr k x)) = s_stream x" "s_stream (snd (sim_expire k ttl x)) = s_stream x"
  "s_stream (snd (sim_xack st i x)) = s_stream x" "s_stream (snd (sim_sql x)) = s_stream x"
  by (auto simp: sim_defs incr_once_def split: option.splits list.splits rfault.splits prod.splits sum.splits if_splits)

lemma sim_xadd_seen:
  assumes "sim_xadd st vs x = (r, x')"
  shows "sim_seen x \<subseteq> sim_seen x' \<and> card (sim_seen x' - sim_seen x) \<le> 2"
proof -
  have "\<exists>ms. s_stream x' = s_stream x @ ms \<and> length ms \<le> 2"
    using assms by (auto simp: sim_xadd_def redis_cmd_def next_fault_def Let_def split: list.splits rfault.splits)
  then obtain ms where ms: "s_stream x' = s_stream x @ ms" "length ms \<le> 2" by blast
  have "card (sim_seen x' - sim_seen x) \<le> card (msg_ID ` set ms)"
    by (rule card_mono) (auto simp: sim_seen_def ms(1))
  also have "\<dots> \<le> length ms" by (metis card_length list.set_map length_map)
  finally show ?thesis using ms by (auto simp: sim_seen_def)
qed

lemma sim_xread_seen:
  assumes "sim_xreadgroup st n b x = (r, x')"
  shows "sim_seen x' = sim_seen x \<and> (\<forall>ms. r = Inr ms \<longrightarrow> msg_ID ` set ms \<subseteq> sim_seen x)"
  using assms set_take_subset [of n] set_drop_subset
  by (auto simp: sim_xreadgroup_def sim_seen_def Let_def elim!: redis_cmd_cases split: if_splits dest!: in_set_takeD in_set_dropD)

interpretation siml: event_log sim_platform stream sim_seen 2
proof (unfold_locales, goal_cases)
  case (2 vs x r x')
  then show ?case by (simp add: sim_xadd_seen)
next
  case (3 n b x rm x')
  then show ?case by (simp add: sim_xread_seen)
qed (simp_all add: quiet_def sim_seen_def sim_kept_stream)

text \<open>
  The bound is met: one event in the channel, an XADD whose first answer is lost and that the
  client sends again, and the worker counts the click twice.
\<close>

definition demo_repeated :: "sim world" where
  "demo_repeated = (world0 (demo_db [''ab0''] None) ((sim0 0)\<lparr>s_faults := [RRepeated]\<rparr>))
     \<lparr>buffer := [\<lparr>ev_Code = ''ab0'', ev_Referrer = '''', ev_TS = 5\<rparr>]\<rparr>"

lemma click_counted_twice:
  "\<exists>v w'. run (run_recorder sim_platform (NewRecorder ''us:events'') 1) demo_repeated = ((), v)
     \<and> run (consumer_Run sim_platform (consumer_New ''us:events'') 1) v = (False, w') \<and> total_clicks (db w') = 2
     \<and> counters v EventsPublished = 1"
proof -
  have "(case run (run_recorder sim_platform (NewRecorder ''us:events'') 1) demo_repeated of (u, v) \<Rightarrow>
      case run (consumer_Run sim_platform (consumer_New ''us:events'') 1) v of (b, w') \<Rightarrow>
      (b, total_clicks (db w'), counters v EventsPublished)) = (False, 2, 1)"
    by code_simp
  then show ?thesis
    by (cases "run (run_recorder sim_platform (NewRecorder ''us:events'') 1) demo_repeated";
        cases "run (consumer_Run sim_platform (consumer_New ''us:events'') 1)
          (snd (run (run_recorder sim_platform (NewRecorder ''us:events'') 1) demo_repeated))") auto
qed

theorem clicks_bounded_witness:
  "\<exists>s h w'. server_main sim_platform demo_lib demo_chi (\<lambda>_. None) demo_pgx demo_env None ''host-a'' = Inr (s, h)
     \<and> pstep\<^sup>*\<^sup>* (demo_repeated, map (task_prog sim_platform h ''us:events'') [Publish 1, Work 1]) (w', [Ret None, Ret None])
     \<and> total_clicks (db w') = 2 \<and> backlog sim_seen 2 w' = 0"
proof -
  obtain cfg s h where m: "Load (\<lambda>_. None) demo_env = Inr cfg" "RedisStream cfg = ''us:events''"
    "server_main sim_platform demo_lib demo_chi (\<lambda>_. None) demo_pgx demo_env None ''host-a'' = Inr (s, h)"
    by (rule demo_server)
  let ?ps = "map (task_prog sim_platform h (RedisStream cfg)) [Publish 1, Work 1]"
  obtain v w' where r: "run (run_recorder sim_platform (NewRecorder ''us:events'') 1) demo_repeated = ((), v)"
    "run (consumer_Run sim_platform (consumer_New ''us:events'') 1) v = (False, w')" "total_clicks (db w') = 2"
    using click_counted_twice by blast
  have t: "run (?ps ! 0) demo_repeated = (None, v)" "run (?ps ! 1) v = (None, w')"
    using r(1,2) m(2) by (simp_all add: task_prog_def run_simps del: run_recorder.simps consumer_Run.simps One_nat_def)
  have "pstep\<^sup>*\<^sup>* (demo_repeated, ?ps) (v, [Ret None, ?ps ! 1])" using run_psteps_at [OF t(1), of 0 ?ps] by simp
  moreover have "pstep\<^sup>*\<^sup>* (v, [Ret None, ?ps ! 1]) (w', [Ret None, Ret None])"
    using run_psteps_at [OF t(2), of 1 "[Ret None, ?ps ! 1]"] by simp
  ultimately have steps: "pstep\<^sup>*\<^sup>* (demo_repeated, ?ps) (w', [Ret None, Ret None])" by simp
  have "plain_handler (prom_handler demo_chi)" "plain_handler (chi_other demo_chi)"
    by (simp_all add: plain_handler_def demo_chi_def respond_def)
  moreover have "db_inv (db demo_repeated)" "total_clicks (db demo_repeated) = 0" by code_simp+
  moreover have "backlog sim_seen 2 demo_repeated = 2"
    by (simp add: backlog_def demo_repeated_def world0_def sim_seen_def sim0_def)
  moreover have "redirects [Publish 1, Work 1] [Ret None, Ret None :: (sim world, outcome option) prog] = 0"
    by (auto simp: redirects_def nth_Cons split: nat.splits)
  ultimately have "total_clicks (db w') + backlog sim_seen 2 w' \<le> 2"
    using clicks_bounded [OF siml.event_log_axioms m(3,1) _ _ _ steps] by simp
  moreover have "0 \<le> backlog sim_seen 2 w'" by (simp add: backlog_def)
  ultimately have "backlog sim_seen 2 w' = 0" using r(3) by linarith
  with m steps r(3) show ?thesis by auto
qed

end
