(* ===== verification/Retries.thy ===== *)
theory Retries
imports Click_Bound Rate_Props
begin

section \<open>Commands that the Redis client repeats\<close>

text \<open>
  Both processes let go-redis repeat a command whose answer was lost. GET, SET, DEL, EXPIRE and
  XACK do not mind. The three others do: an XADD appends its event twice (theory Click_Bound), and
  the lemmas below show what becomes of a SET NX and of an INCR. The theorems of the other
  theories hold with repeated commands; those that speak of a run in which nothing fails exclude
  them.
\<close>

text \<open>The creator of an idempotency key takes itself for another: nothing is created, and it is told to wait.\<close>

lemma claim_repeated:
  "\<exists>w'. run (service_Create sim_platform demo_lib demo_service (demo_request '''' '''' ''k''))
      (world0 empty_db ((sim0 0)\<lparr>s_faults := [ROk, RRepeated]\<rparr>)) = (Inl (Sentinel ErrInFlight), w')
    \<and> urls (db w') = [] \<and> live (s_kv (ext w')) (s_clock (ext w')) (lockKey (NewStore ''v1:'') ''k'') = Some ''1''"
proof -
  let ?p = "createIdempotent sim_platform demo_lib demo_service (demo_request '''' '''' ''k'') ''http://a'' None"
    and ?w = "world0 empty_db ((sim0 0)\<lparr>s_faults := [ROk, RRepeated]\<rparr>)"
  have "(case run ?p ?w of (r, w') \<Rightarrow>
      (r, urls (db w'), live (s_kv (ext w')) (s_clock (ext w')) (lockKey (NewStore ''v1:'') ''k'')))
    = (Inl (Sentinel ErrInFlight), [], Some ''1'')"
    by code_simp
  then show ?thesis unfolding demo_create_keyed by (cases "run ?p ?w") simp
qed

text \<open>
  The first request of a minute is counted as two, and since the count it sees is not 1, the
  counter gets no deadline.
\<close>

lemma incr_repeated:
  "\<exists>w'. run (allow sim_platform demo_limiter ''10.0.0.1:1'') (demo_limited_world\<lparr>ext := (sim0 0)\<lparr>s_faults := [RRepeated]\<rparr>\<rparr>)
      = (Inr (False, 60), w')
    \<and> s_kv (ext w') (rate_key demo_limiter ''10.0.0.1'' 0) = Some (''2'', None)"
proof -
  let ?p = "allow sim_platform demo_limiter ''10.0.0.1:1''"
    and ?w = "demo_limited_world\<lparr>ext := (sim0 0)\<lparr>s_faults := [RRepeated]\<rparr>\<rparr>"
  have "(case run ?p ?w of (r, w') \<Rightarrow> (r, s_kv (ext w') (rate_key demo_limiter ''10.0.0.1'' 0)))
      = (Inr (False, 60), Some (''2'', None))"
    by code_simp
  then show ?thesis by (cases "run ?p ?w") simp
qed

end
